(* ===== verification/Prelude.thy ===== *)
theory Prelude
  imports Main
begin

text \<open>
  Generic material shared by every component: the result type of fallible code, the
  iterator view of the C++ containers (\<open>find_iter\<close>, \<open>erase_iter\<close>), and the
  splitting of a string into fields.
  \<^item> \<open>fault\<close>: what stops the program: an undefined memory access
    (\<open>BufferOverflow\<close>, \<open>OutOfBounds\<close>), an exception of the C++ library nobody
    catches (\<open>InvalidArgument\<close>, \<open>OutOfRange\<close>), a call of \<open>exit\<close>, a blocking
    call that nothing ever answers, or the end of a function that returns no value although
    its caller gets one (\<open>NoReturn\<close>).
  \<^item> \<open>bindE\<close>: sequencing; the first fault ends the computation.
\<close>

section \<open>Faults and results\<close>

datatype fault =
    BufferOverflow
  | OutOfBounds
  | InvalidArgument
  | OutOfRange
  | Exit int
  | Blocked
  | NoReturn

type_synonym 'a result = "fault + 'a"

named_theorems result_simps \<open>equations that drive the sequencing of results\<close>

fun bindE :: "'a result \<Rightarrow> ('a \<Rightarrow> 'b result) \<Rightarrow> 'b result" where
  "bindE (Inl e) k = Inl e"
| "bindE (Inr x) k = k x"

lemma bindE_Inr_iff [result_simps]:
  "bindE m k = Inr y \<longleftrightarrow> (\<exists>x. m = Inr x \<and> k x = Inr y)"
  by (cases m) auto

lemma bindE_Inl_iff [result_simps]:
  "bindE m k = Inl e \<longleftrightarrow> m = Inl e \<or> (\<exists>x. m = Inr x \<and> k x = Inl e)"
  by (cases m) auto

lemma bindE_assoc: "bindE (bindE m f) g = bindE m (\<lambda>x. bindE (f x) g)"
  by (cases m) auto

lemma bindE_cong [fundef_cong]:
  "m = m' \<Longrightarrow> (\<And>x. m' = Inr x \<Longrightarrow> k x = k' x) \<Longrightarrow> bindE m k = bindE m' k'"
  by (cases m') auto

definition ok :: "'a result \<Rightarrow> bool" where
  "ok m \<longleftrightarrow> (\<exists>x. m = Inr x)"

lemma ok_Inr [simp]: "ok (Inr x)"
  and ok_Inl [simp]: "\<not> ok (Inl e)"
  by (simp_all add: ok_def)

lemma ok_code [code]:
  "ok (Inr x) = True"
  "ok (Inl e) = False"
  by simp_all

lemma ok_bindE: "ok (bindE m k) \<longleftrightarrow> (\<exists>x. m = Inr x \<and> ok (k x))"
  by (cases m) auto

section \<open>Containers: iterators as indices\<close>

text \<open>
  An iterator into a \<open>list\<close> or \<open>vector\<close> is its index, \<open>None\<close> is \<open>end()\<close>.
\<close>

fun find_iter :: "('a \<Rightarrow> bool) \<Rightarrow> 'a list \<Rightarrow> nat option" where
  "find_iter P [] = None"
| "find_iter P (x # xs) = (if P x then Some 0 else map_option Suc (find_iter P xs))"

definition erase_iter :: "nat \<Rightarrow> 'a list \<Rightarrow> 'a list" where
  "erase_iter i xs = take i xs @ drop (Suc i) xs"

lemma find_iter_None: "find_iter P xs = None \<longleftrightarrow> (\<forall>x\<in>set xs. \<not> P x)"
  by (induction xs) auto

lemma find_iter_SomeD:
  "find_iter P xs = Some i \<Longrightarrow> i < length xs \<and> P (xs ! i) \<and> (\<forall>j<i. \<not> P (xs ! j))"
proof (induction xs arbitrary: i)
  case Nil
  then show ?case by simp
next
  case (Cons x xs)
  then show ?case
    by (auto split: if_splits simp: less_Suc_eq_0_disj)
qed

lemma find_iter_decomp:
  "find_iter P xs = Some i \<Longrightarrow>
   \<exists>x. xs = take i xs @ x # drop (Suc i) xs \<and> P x \<and> (\<forall>y\<in>set (take i xs). \<not> P y)"
proof -
  assume a: "find_iter P xs = Some i"
  then have i: "i < length xs" "P (xs ! i)" "\<forall>j<i. \<not> P (xs ! j)"
    using find_iter_SomeD by blast+
  then show ?thesis
    by (intro exI [of _ "xs ! i"]) (auto simp: id_take_nth_drop [symmetric] in_set_conv_nth)
qed

lemma erase_iter_Nil [simp]: "erase_iter i [] = []"
  and erase_iter_0 [simp]: "erase_iter 0 (x # xs) = xs"
  and erase_iter_Suc [simp]: "erase_iter (Suc i) (x # xs) = x # erase_iter i xs"
  by (simp_all add: erase_iter_def)

lemma set_erase_iter_subset: "set (erase_iter i xs) \<subseteq> set xs"
  by (auto simp: erase_iter_def dest: in_set_takeD in_set_dropD)

lemma erase_iter_middle: "erase_iter (length xs) (xs @ x # ys) = xs @ ys"
  by (simp add: erase_iter_def)

lemma length_erase_iter: "i < length xs \<Longrightarrow> length (erase_iter i xs) = length xs - 1"
  by (simp add: erase_iter_def)

lemma distinct_map_erase_iter: "distinct (map f xs) \<Longrightarrow> distinct (map f (erase_iter i xs))"
proof (induction xs arbitrary: i)
  case Nil
  then show ?case by simp
next
  case (Cons x xs)
  then show ?case
    using set_erase_iter_subset by (cases i) fastforce+
qed

text \<open>Erasing the first hit of a predicate that holds of at most one entry is filtering.\<close>

lemma erase_find_iter_filter:
  assumes "distinct (map f xs)"
  shows "(case find_iter (\<lambda>x. f x = k) xs of None \<Rightarrow> xs | Some i \<Rightarrow> erase_iter i xs)
         = filter (\<lambda>x. f x \<noteq> k) xs"
  using assms
proof (induction xs)
  case Nil
  then show ?case by simp
next
  case (Cons x xs)
  show ?case
  proof (cases "f x = k")
    case True
    with Cons.prems have "k \<notin> f ` set xs" by simp
    then have "\<forall>y\<in>set xs. f y \<noteq> k" by (metis image_eqI)
    then have "filter (\<lambda>x. f x \<noteq> k) xs = xs" by simp
    with True show ?thesis by simp
  next
    case False
    with Cons show ?thesis by (simp split: option.splits)
  qed
qed

section \<open>Fields of a string\<close>

fun split_on :: "char \<Rightarrow> string \<Rightarrow> string list" where
  "split_on d [] = [[]]"
| "split_on d (c # cs) =
     (if c = d then [] # split_on d cs
      else (case split_on d cs of [] \<Rightarrow> [[c]] | f # fs \<Rightarrow> (c # f) # fs))"

lemma split_on_not_Nil [simp]: "split_on d s \<noteq> []"
  by (induction s) (auto split: list.splits)

lemma split_on_no_delim: "f \<in> set (split_on d s) \<Longrightarrow> d \<notin> set f"
  by (induction s arbitrary: f) (auto split: list.splits if_splits)

lemma set_split_on: "f \<in> set (split_on d s) \<Longrightarrow> set f \<subseteq> set s"
proof (induction s arbitrary: f)
  case Nil
  then show ?case by simp
next
  case (Cons c cs)
  then show ?case by (fastforce split: list.splits if_splits)
qed

lemma split_on_single: "d \<notin> set s \<Longrightarrow> split_on d s = [s]"
  by (induction s) auto

lemma split_on_append: "d \<notin> set a \<Longrightarrow> split_on d (a @ d # b) = a # split_on d b"
  by (induction a) auto

lemma concat_split_on:
  "s = concat (map (\<lambda>f. f @ [d]) (butlast (split_on d s))) @ last (split_on d s)"
  by (induction s) (auto split: list.splits)

lemma length_split_on: "length (split_on d s) = Suc (count_list s d)"
  by (induction s) (auto split: list.splits)

text \<open>The sources trim the last separator of a list they built, unless the list is empty.\<close>

lemma trim_last: "(if length s > 0 then butlast s else s) = butlast s"
  by (cases s) auto

end
