(* ===== verification/CLib.thy ===== *)
theory CLib
  imports Prelude "HOL-Library.Code_Target_Numeral"
begin

text \<open>
  The parts of the C and C++ libraries the sources call, as documented:
  \<open>string::find_first_of\<close> and its kin, \<open>substr\<close>, \<open>atoi\<close>/\<open>atol\<close>/\<open>stoi\<close> (base 10),
  \<open>to_string\<close> and the \<open>%d\<close> conversion, \<open>strcasecmp\<close>, the bounded buffers that
  \<open>strcpy\<close>/\<open>sprintf\<close> write to, and \<open>inet_pton\<close> for IPv4.
  \<^item> \<open>string::npos\<close> is \<open>None\<close>; the wrap of \<open>npos + 1\<close> to 0 and of \<open>0 - 1\<close> to
    \<open>npos\<close> is written out in \<open>pos_succ\<close> and \<open>pos_pred\<close>.
  \<^item> \<open>int\<close> is 32 bits and \<open>long\<close> 64 bits: \<open>atol\<close> saturates as \<open>strtol\<close> does,
    \<open>atoi\<close> keeps the low 32 bits of it, \<open>stoi\<close> throws outside \<open>int\<close>.
\<close>

named_theorems clib_simps \<open>characteristic equations of the library model\<close>

section \<open>Searching a string\<close>

fun find_from :: "(char \<Rightarrow> bool) \<Rightarrow> string \<Rightarrow> nat \<Rightarrow> nat option" where
  "find_from P [] i = None"
| "find_from P (c # cs) i = (if P c then Some i else find_from P cs (Suc i))"

definition find_first_of :: "string \<Rightarrow> string \<Rightarrow> nat \<Rightarrow> nat option" where
  "find_first_of s d pos = find_from (\<lambda>c. c \<in> set d) (drop pos s) pos"

definition find_first_not_of :: "string \<Rightarrow> string \<Rightarrow> nat \<Rightarrow> nat option" where
  "find_first_not_of s d pos = find_from (\<lambda>c. c \<notin> set d) (drop pos s) pos"

definition find_last_of :: "string \<Rightarrow> string \<Rightarrow> nat option" where
  "find_last_of s d =
     map_option (\<lambda>i. length s - 1 - i) (find_from (\<lambda>c. c \<in> set d) (rev s) 0)"

definition pos_succ :: "nat option \<Rightarrow> nat" where
  "pos_succ p = (case p of None \<Rightarrow> 0 | Some i \<Rightarrow> Suc i)"

definition pos_pred :: "nat option \<Rightarrow> nat option" where
  "pos_pred p = (case p of None \<Rightarrow> None | Some 0 \<Rightarrow> None | Some (Suc i) \<Rightarrow> Some i)"

text \<open>\<open>substr(pos, n)\<close>: throws past the end, takes at most \<open>n\<close> characters (\<open>None\<close>: all).\<close>

definition substr :: "string \<Rightarrow> nat \<Rightarrow> nat option \<Rightarrow> string result" where
  "substr s pos n =
     (if length s < pos then Inl OutOfRange
      else Inr (case n of None \<Rightarrow> drop pos s | Some k \<Rightarrow> take k (drop pos s)))"

lemma find_from_eq:
  "find_from P s i =
     (if \<exists>c\<in>set s. P c then Some (i + length (takeWhile (\<lambda>c. \<not> P c) s)) else None)"
  by (induction s arbitrary: i) auto

lemma find_from_app:
  "\<forall>c\<in>set a. \<not> P c \<Longrightarrow> find_from P (a @ b) i = find_from P b (i + length a)"
  by (induction a arbitrary: i) auto

text \<open>
  Three idioms of the sources: drop the first field
  (\<open>s.substr(s.find_first_of(";") + 1)\<close>), read it (\<open>s.substr(0, s.find_first_of(";"))\<close>),
  and the same from the back.
\<close>

definition skip_field :: "string \<Rightarrow> string" where
  "skip_field s = drop (pos_succ (find_first_of s '';'' 0)) s"

definition first_field :: "string \<Rightarrow> string" where
  "first_field s = (case find_first_of s '';'' 0 of None \<Rightarrow> s | Some i \<Rightarrow> take i s)"

definition drop_last_field :: "string \<Rightarrow> string" where
  "drop_last_field s = (case find_last_of s '';'' of None \<Rightarrow> s | Some i \<Rightarrow> take i s)"

definition last_field :: "string \<Rightarrow> string" where
  "last_field s = drop (pos_succ (find_last_of s '';'')) s"

lemma substr_skip_field: "substr s (pos_succ (find_first_of s '';'' 0)) None = Inr (skip_field s)"
proof -
  have "length (takeWhile (\<lambda>c. c \<noteq> CHR '';'') s) < length s" if "CHR '';'' \<in> set s"
    using that by (induction s) auto
  then show ?thesis
    by (auto simp: substr_def skip_field_def find_first_of_def find_from_eq pos_succ_def)
qed

lemma substr_first_field: "substr s 0 (find_first_of s '';'' 0) = Inr (first_field s)"
  by (simp add: substr_def first_field_def split: option.splits)

lemma substr_drop_last_field: "substr s 0 (find_last_of s '';'') = Inr (drop_last_field s)"
  by (simp add: substr_def drop_last_field_def split: option.splits)

lemma takeWhile_neq_app: "x \<notin> set a \<Longrightarrow> takeWhile (\<lambda>c. c \<noteq> x) (a @ x # b) = a"
  by (induction a) auto

lemma find_first_of_semicolon [clib_simps]:
  "CHR '';'' \<notin> set a \<Longrightarrow> find_first_of (a @ CHR '';'' # b) '';'' 0 = Some (length a)"
  by (simp add: find_first_of_def find_from_eq takeWhile_neq_app)

lemma find_last_of_semicolon [clib_simps]:
  "CHR '';'' \<notin> set b \<Longrightarrow> find_last_of (a @ CHR '';'' # b) '';'' = Some (length a)"
  by (simp add: find_last_of_def find_from_eq takeWhile_neq_app)

lemma find_first_of_no_semicolon [clib_simps]:
  "CHR '';'' \<notin> set a \<Longrightarrow> find_first_of a '';'' 0 = None"
  by (auto simp add: find_first_of_def find_from_eq)

lemma skip_field_app [clib_simps]: "CHR '';'' \<notin> set a \<Longrightarrow> skip_field (a @ CHR '';'' # b) = b"
  by (simp add: skip_field_def clib_simps pos_succ_def)

lemma skip_field_none [clib_simps]: "CHR '';'' \<notin> set a \<Longrightarrow> skip_field a = a"
  by (simp add: skip_field_def clib_simps pos_succ_def)

lemma first_field_app [clib_simps]: "CHR '';'' \<notin> set a \<Longrightarrow> first_field (a @ CHR '';'' # b) = a"
  by (simp add: first_field_def clib_simps)

lemma first_field_none [clib_simps]: "CHR '';'' \<notin> set a \<Longrightarrow> first_field a = a"
  by (simp add: first_field_def clib_simps)

lemma drop_last_field_app [clib_simps]:
  "CHR '';'' \<notin> set b \<Longrightarrow> drop_last_field (a @ CHR '';'' # b) = a"
  by (simp add: drop_last_field_def clib_simps)

lemma last_field_app [clib_simps]: "CHR '';'' \<notin> set b \<Longrightarrow> last_field (a @ CHR '';'' # b) = b"
  by (simp add: last_field_def clib_simps pos_succ_def)

section \<open>Numbers\<close>

definition digits :: string where
  "digits = ''0123456789''"

definition is_digit :: "char \<Rightarrow> bool" where
  "is_digit c \<longleftrightarrow> c \<in> set digits"

definition digit_val :: "char \<Rightarrow> nat" where
  "digit_val c = length (takeWhile (\<lambda>d. d \<noteq> c) digits)"

definition digits_val :: "string \<Rightarrow> nat" where
  "digits_val ds = foldl (\<lambda>a d. 10 * a + digit_val d) 0 ds"

fun nat_str :: "nat \<Rightarrow> string" where
  "nat_str n = (if n < 10 then [digits ! n] else nat_str (n div 10) @ [digits ! (n mod 10)])"

declare nat_str.simps [simp del]

definition to_string :: "int \<Rightarrow> string" where
  "to_string z = (if z < 0 then CHR ''-'' # nat_str (nat (- z)) else nat_str (nat z))"

definition isspace :: "char \<Rightarrow> bool" where
  "isspace c \<longleftrightarrow> c \<in> {CHR '' '', CHR 0x09, CHR 0x0A, CHR 0x0B, CHR 0x0C, CHR 0x0D}"

text \<open>\<open>strtol(s, \<dots>, 10)\<close> before saturation; \<open>None\<close> when no digit is found.\<close>

definition strtol10 :: "string \<Rightarrow> int option" where
  "strtol10 s =
     (let s1 = dropWhile isspace s;
          neg = (case s1 of c # _ \<Rightarrow> c = CHR ''-'' | [] \<Rightarrow> False);
          s2 = (case s1 of c # cs \<Rightarrow> if c = CHR ''-'' \<or> c = CHR ''+'' then cs else s1 | [] \<Rightarrow> []);
          ds = takeWhile is_digit s2
      in if ds = [] then None
         else Some (if neg then - int (digits_val ds) else int (digits_val ds)))"

definition clamp64 :: "int \<Rightarrow> int" where
  "clamp64 z = max (- (2 ^ 63)) (min (2 ^ 63 - 1) z)"

definition atol :: "string \<Rightarrow> int" where
  "atol s = (case strtol10 s of None \<Rightarrow> 0 | Some z \<Rightarrow> clamp64 z)"

definition atoi :: "string \<Rightarrow> int" where
  "atoi s = signed_take_bit 31 (atol s)"

definition is_int32 :: "int \<Rightarrow> bool" where
  "is_int32 z \<longleftrightarrow> - (2 ^ 31) \<le> z \<and> z < 2 ^ 31"

definition stoi :: "string \<Rightarrow> int result" where
  "stoi s = (case strtol10 s of None \<Rightarrow> Inl InvalidArgument
             | Some z \<Rightarrow> if is_int32 z then Inr z else Inl OutOfRange)"

lemma digits_nth: "n < 10 \<Longrightarrow> is_digit (digits ! n)"
  unfolding is_digit_def digits_def by (rule nth_mem) simp

lemma less_10_cases: "(n::nat) < 10 \<Longrightarrow> n \<in> {0, 1, 2, 3, 4, 5, 6, 7, 8, 9}"
  by auto

lemma digit_val_nth: "n < 10 \<Longrightarrow> digit_val (digits ! n) = n"
  by (drule less_10_cases) (auto simp: digit_val_def digits_def)

lemma digits_val_snoc: "digits_val (ds @ [d]) = 10 * digits_val ds + digit_val d"
  by (simp add: digits_val_def)

lemma nat_str_not_Nil [simp]: "nat_str n \<noteq> []"
  by (subst nat_str.simps) simp

lemma nat_str_digits: "\<forall>c\<in>set (nat_str n). is_digit c"
proof (induction n rule: nat_str.induct)
  case (1 n)
  then show ?case by (subst nat_str.simps) (auto simp: digits_nth)
qed

lemma digits_val_nat_str: "digits_val (nat_str n) = n"
proof (induction n rule: nat_str.induct)
  case (1 n)
  show ?case
  proof (cases "n < 10")
    case True
    then show ?thesis by (subst nat_str.simps) (simp add: digits_val_def digit_val_nth)
  next
    case False
    with 1 show ?thesis
      by (subst nat_str.simps) (simp add: digits_val_snoc digit_val_nth)
  qed
qed

lemma length_nat_str: "n < 10 ^ k \<Longrightarrow> 0 < k \<Longrightarrow> length (nat_str n) \<le> k"
proof (induction k arbitrary: n)
  case 0
  then show ?case by simp
next
  case (Suc k)
  show ?case
  proof (cases "n < 10")
    case True
    then show ?thesis by (subst nat_str.simps) simp
  next
    case False
    with Suc.prems have "n div 10 < 10 ^ k" "0 < k" by (auto intro: gr0I)
    with Suc.IH False show ?thesis by (subst nat_str.simps) simp
  qed
qed

lemma is_digit_neq: "is_digit c \<Longrightarrow> c \<noteq> CHR ''-'' \<and> c \<noteq> CHR ''+'' \<and> c \<noteq> CHR '';'' \<and> c \<noteq> CHR ''$''
    \<and> c \<noteq> CHR 0x00 \<and> c \<noteq> CHR '' '' \<and> c \<noteq> CHR ''.'' \<and> \<not> isspace c"
  by (auto simp: is_digit_def digits_def isspace_def)

lemma to_string_chars: "c \<in> set (to_string z) \<Longrightarrow> is_digit c \<or> c = CHR ''-''"
  using nat_str_digits by (auto simp: to_string_def split: if_splits)

lemma to_string_not_Nil [simp]: "to_string z \<noteq> []"
  by (simp add: to_string_def)

lemma to_string_no_semicolon [simp]: "CHR '';'' \<notin> set (to_string z)"
  and to_string_no_dollar [simp]: "CHR ''$'' \<notin> set (to_string z)"
  and to_string_no_nul [simp]: "CHR 0x00 \<notin> set (to_string z)"
  and to_string_no_space [simp]: "CHR '' '' \<notin> set (to_string z)"
  using to_string_chars is_digit_neq by fastforce+

lemma length_to_string_int32: "is_int32 z \<Longrightarrow> length (to_string z) \<le> 11"
proof -
  assume a: "is_int32 z"
  then have "nat (- z) < 10 ^ 10" "nat z < 10 ^ 10" by (auto simp: is_int32_def)
  from this [THEN length_nat_str] show ?thesis by (auto simp: to_string_def)
qed

lemma strtol10_nat_str:
  assumes "r = [] \<or> \<not> is_digit (hd r)"
  shows "strtol10 (nat_str n @ r) = Some (int n)"
proof -
  obtain c cs where n: "nat_str n = c # cs" by (cases "nat_str n") auto
  then have c: "is_digit c" using nat_str_digits [of n] by simp
  have "takeWhile is_digit (nat_str n @ r) = nat_str n @ takeWhile is_digit r"
    using nat_str_digits by (intro takeWhile_append2) blast
  also have "takeWhile is_digit r = []" using assms by (cases r) auto
  finally have t: "takeWhile is_digit (nat_str n @ r) = nat_str n" by simp
  have d: "dropWhile isspace (nat_str n @ r) = nat_str n @ r"
    using c is_digit_neq by (simp add: n)
  from t d c is_digit_neq [of c] show ?thesis
    by (simp add: strtol10_def Let_def n digits_val_nat_str [of n, unfolded n] del: takeWhile.simps)
qed

lemma strtol10_to_string:
  assumes "r = [] \<or> \<not> is_digit (hd r)"
  shows "strtol10 (to_string z @ r) = Some z"
proof (cases "z < 0")
  case True
  have "takeWhile is_digit (nat_str (nat (- z)) @ r) = nat_str (nat (- z)) @ takeWhile is_digit r"
    using nat_str_digits by (intro takeWhile_append2) blast
  also have "takeWhile is_digit r = []" using assms by (cases r) auto
  finally show ?thesis
    using True by (simp add: to_string_def strtol10_def Let_def isspace_def digits_val_nat_str)
next
  case False
  then show ?thesis using strtol10_nat_str [OF assms] by (simp add: to_string_def)
qed

lemma clamp64_int32: "is_int32 z \<Longrightarrow> clamp64 z = z"
  by (auto simp: clamp64_def is_int32_def)

lemma atoi_to_string_app:
  assumes "is_int32 z" and "r = [] \<or> \<not> is_digit (hd r)"
  shows "atoi (to_string z @ r) = z"
  using assms
  by (simp add: atoi_def atol_def strtol10_to_string clamp64_int32)
     (simp add: is_int32_def signed_take_bit_int_eq_self)

lemma atoi_to_string [clib_simps]: "is_int32 z \<Longrightarrow> atoi (to_string z) = z"
  using atoi_to_string_app [of z "[]"] by simp

lemma stoi_to_string [clib_simps]: "is_int32 z \<Longrightarrow> stoi (to_string z) = Inr z"
  using strtol10_to_string [of "[]" z] by (simp add: stoi_def)

lemma is_int32_atoi [simp]: "is_int32 (atoi s)"
  unfolding is_int32_def atoi_def
  using signed_take_bit_int_greater_eq_minus_exp [of 31 "atol s"]
    signed_take_bit_int_less_exp [of 31 "atol s"] by simp

section \<open>C strings and fixed buffers\<close>

text \<open>What \<open>c_str()\<close> and the \<open>str*\<close> functions see: everything before the first NUL.\<close>

definition cstr :: "string \<Rightarrow> string" where
  "cstr s = takeWhile (\<lambda>c. c \<noteq> CHR 0x00) s"

text \<open>\<open>strcpy\<close> or \<open>sprintf\<close> of \<open>s\<close> into \<open>char[n]\<close>; the terminating NUL needs a place too.\<close>

definition strcpy_buf :: "nat \<Rightarrow> string \<Rightarrow> string result" where
  "strcpy_buf n s = (if length (cstr s) < n then Inr (cstr s) else Inl BufferOverflow)"

definition snprintf_buf :: "nat \<Rightarrow> string \<Rightarrow> string" where
  "snprintf_buf n s = take (n - 1) (cstr s)"

definition upper_letters :: string where
  "upper_letters = ''ABCDEFGHIJKLMNOPQRSTUVWXYZ''"

definition lower_letters :: string where
  "lower_letters = ''abcdefghijklmnopqrstuvwxyz''"

definition tolower :: "char \<Rightarrow> char" where
  "tolower c = (case map_of (zip upper_letters lower_letters) c of None \<Rightarrow> c | Some d \<Rightarrow> d)"

definition strcaseeq :: "string \<Rightarrow> string \<Rightarrow> bool" where
  "strcaseeq a b \<longleftrightarrow> map tolower (cstr a) = map tolower (cstr b)"

lemma cstr_id [simp]: "CHR 0x00 \<notin> set s \<Longrightarrow> cstr s = s"
  by (auto simp: cstr_def)

lemma cstr_no_nul [simp]: "CHR 0x00 \<notin> set (cstr s)"
  by (auto simp: cstr_def dest: set_takeWhileD)

lemma strcaseeq_refl [simp]: "strcaseeq s s"
  by (simp add: strcaseeq_def)

section \<open>Addresses and ports\<close>

text \<open>
  \<open>inet_pton(AF_INET, s, \<dots>)\<close> succeeds on four decimal numbers of one to three digits,
  each at most 255, separated by dots.
\<close>

definition ipv4_part :: "string \<Rightarrow> bool" where
  "ipv4_part f \<longleftrightarrow> f \<noteq> [] \<and> length f \<le> 3 \<and> list_all is_digit f \<and> digits_val f \<le> 255"

definition inet_pton :: "string \<Rightarrow> bool" where
  "inet_pton s \<longleftrightarrow> (let fs = split_on (CHR ''.'') (cstr s) in length fs = 4 \<and> list_all ipv4_part fs)"

definition isValidIP :: "string \<Rightarrow> bool" where
  "isValidIP ipAddress = inet_pton ipAddress"

definition isValidPort :: "int \<Rightarrow> bool" where
  "isValidPort nPort = (if nPort < 1024 \<or> nPort > 65535 then False else True)"

lemma isValidPort_bounds: "isValidPort n \<longleftrightarrow> 1024 \<le> n \<and> n \<le> 65535"
  by (auto simp: isValidPort_def)

lemma isValidPort_int32 [simp]: "isValidPort n \<Longrightarrow> is_int32 n"
  by (auto simp: isValidPort_bounds is_int32_def)

lemma length_to_string_port: "isValidPort n \<Longrightarrow> length (to_string n) \<le> 5"
proof -
  assume "isValidPort n"
  then have "nat n < 10 ^ 5" "0 \<le> n" by (auto simp: isValidPort_bounds)
  with length_nat_str [of "nat n" 5] show ?thesis by (auto simp: to_string_def)
qed

lemma isValidIP_parts:
  assumes "isValidIP s"
  obtains a b c d where "cstr s = a @ ''.'' @ b @ ''.'' @ c @ ''.'' @ d"
    and "ipv4_part a" "ipv4_part b" "ipv4_part c" "ipv4_part d"
proof -
  let ?fs = "split_on (CHR ''.'') (cstr s)"
  from assms have "length ?fs = 4" and p: "list_all ipv4_part ?fs"
    by (auto simp: isValidIP_def inet_pton_def Let_def)
  then obtain a b c d where fs: "?fs = [a, b, c, d]"
    by (auto simp: length_Suc_conv numeral_eq_Suc)
  with concat_split_on [of "cstr s" "CHR ''.''"] p that [of a b c d] show ?thesis by auto
qed

lemma isValidIP_length: "isValidIP s \<Longrightarrow> length (cstr s) \<le> 15"
  by (elim isValidIP_parts) (auto simp: ipv4_part_def)

lemma isValidIP_chars: "isValidIP s \<Longrightarrow> c \<in> set (cstr s) \<Longrightarrow> is_digit c \<or> c = CHR ''.''"
  by (elim isValidIP_parts) (auto simp: ipv4_part_def list_all_iff)

lemma isValidIP_not_Nil: "isValidIP s \<Longrightarrow> cstr s \<noteq> []"
  by (elim isValidIP_parts) auto

lemma isValidIP_clean:
  assumes "isValidIP s"
  shows "CHR '';'' \<notin> set (cstr s)" "CHR ''$'' \<notin> set (cstr s)"
  using isValidIP_chars [OF assms] is_digit_neq by fastforce+

lemma isValidIP_cstr [simp]: "isValidIP (cstr s) = isValidIP s"
  by (simp add: isValidIP_def inet_pton_def)

lemma strcpy_valid_ip: "isValidIP s \<Longrightarrow> strcpy_buf 16 s = Inr (cstr s)"
  using isValidIP_length [of s] by (simp add: strcpy_buf_def)

end
