(* ===== verification/StringTokenizer.thy ===== *)
theory StringTokenizer
  imports CLib
begin

text \<open>
  \<open>CStringTokenizer\<close> (stringTokenizer.h, stringTokenizer.cpp), the parser behind every
  message of the three projects: the token vector and the iterator into it, \<open>Split\<close>
  with its loop over \<open>find_first_not_of\<close>/\<open>find_first_of\<close> positions, and the cursor
  operations. \<open>split_loop_tokens\<close> ties the position loop to the recursive
  reading \<open>tokens\<close>, and \<open>tokens_fields\<close> to the fields between delimiters:
  the tokenizer returns exactly the non-empty ones. That is also why empty fields of a
  message vanish.
\<close>

record tokenizer =
  m_tokenList :: "string list"
  m_index :: nat

definition GetSize :: "tokenizer \<Rightarrow> nat" where
  "GetSize t = length (m_tokenList t)"

definition HasMoreTokens :: "tokenizer \<Rightarrow> bool" where
  "HasMoreTokens t \<longleftrightarrow> m_index t \<noteq> length (m_tokenList t)"

definition GetNext :: "tokenizer \<Rightarrow> string \<times> tokenizer" where
  "GetNext t =
     (if m_index t \<noteq> length (m_tokenList t)
      then (m_tokenList t ! m_index t, t\<lparr>m_index := Suc (m_index t)\<rparr>)
      else ([], t))"

definition GetCurrent :: "tokenizer \<Rightarrow> string" where
  "GetCurrent t =
     (if m_index t \<noteq> length (m_tokenList t) then m_tokenList t ! m_index t else [])"

definition GoFirst :: "tokenizer \<Rightarrow> tokenizer" where
  "GoFirst t = t\<lparr>m_index := 0\<rparr>"

section \<open>The loop of Split\<close>

text \<open>
  \<open>pos - lastPos\<close> is the unsigned difference, so a \<open>pos\<close> of \<open>npos\<close> takes the rest
  of the string. A read from \<open>lastPos = npos\<close> would throw.
\<close>

fun pos_measure :: "string \<Rightarrow> nat option \<Rightarrow> nat option \<Rightarrow> nat" where
  "pos_measure s None None = 0"
| "pos_measure s (Some l) None = 1"
| "pos_measure s l (Some p) = 2 + (length s - p)"

lemma find_from_SomeD:
  "find_from P s i = Some j \<Longrightarrow> i \<le> j \<and> j < i + length s \<and> P (s ! (j - i))"
proof (induction s arbitrary: i)
  case Nil
  then show ?case by simp
next
  case (Cons c cs)
  then show ?case
    by (fastforce split: if_splits simp: nth_Cons' Suc_diff_le)
qed

lemma find_first_of_SomeD:
  "find_first_of s d i = Some j \<Longrightarrow> i \<le> j \<and> j < length s \<and> s ! j \<in> set d"
  unfolding find_first_of_def by (drule find_from_SomeD) (auto simp: less_diff_conv)

lemma find_first_not_of_SomeD:
  "find_first_not_of s d i = Some j \<Longrightarrow> i \<le> j \<and> j < length s \<and> s ! j \<notin> set d"
  unfolding find_first_not_of_def by (drule find_from_SomeD) (auto simp: less_diff_conv)

function split_loop ::
  "string \<Rightarrow> string \<Rightarrow> nat option \<Rightarrow> nat option \<Rightarrow> string list \<Rightarrow> string list result" where
  "split_loop s d lastPos pos toks =
     (if pos \<noteq> None \<or> lastPos \<noteq> None
      then (case lastPos of
              None \<Rightarrow> Inl OutOfRange
            | Some l \<Rightarrow>
                bindE (substr s l (map_option (\<lambda>p. p - l) pos))
                  (\<lambda>strToken.
                     let lastPos' = Option.bind pos (find_first_not_of s d);
                         pos' = Option.bind lastPos' (find_first_of s d)
                     in split_loop s d lastPos' pos' (toks @ [strToken])))
      else Inr toks)"
  by pat_completeness auto
termination
proof (relation "measure (\<lambda>(s, d, l, p, ts). pos_measure s l p)", goal_cases)
  case 1
  show ?case by simp
next
  case (2 s d lastPos pos toks l tok l' p')
  show ?case
  proof (cases pos)
    case None
    with 2 show ?thesis by simp
  next
    case (Some p)
    show ?thesis
    proof (cases l')
      case None
      with 2 Some show ?thesis by simp
    next
      case l: (Some k)
      with 2 Some have k: "p \<le> k" "k < length s" "s ! k \<notin> set d"
        using find_first_not_of_SomeD by fastforce+
      show ?thesis
      proof (cases p')
        case None
        with l Some show ?thesis by simp
      next
        case p: (Some q)
        with 2 l have "k \<le> q" "q < length s" "s ! q \<in> set d"
          using find_first_of_SomeD by fastforce+
        with k have "p < q" "q < length s"
          by (metis le_eq_less_or_eq le_neq_implies_less less_le_trans)+
        with l p Some show ?thesis by simp
      qed
    qed
  qed
qed

declare split_loop.simps [simp del]

definition Split :: "string \<Rightarrow> string \<Rightarrow> tokenizer result" where
  "Split strInput strDelimiter =
     (let lastPos = find_first_not_of strInput strDelimiter 0;
          pos = Option.bind lastPos (find_first_of strInput strDelimiter)
      in bindE (split_loop strInput strDelimiter lastPos pos [])
           (\<lambda>ts. Inr \<lparr>m_tokenList = ts, m_index = 0\<rparr>))"

section \<open>The tokens of a string\<close>

function tokens :: "string \<Rightarrow> string \<Rightarrow> string list" where
  "tokens d s =
     (let s' = dropWhile (\<lambda>c. c \<in> set d) s
      in if s' = [] then []
         else takeWhile (\<lambda>c. c \<notin> set d) s' # tokens d (dropWhile (\<lambda>c. c \<notin> set d) s'))"
  by pat_completeness auto
termination
proof (relation "measure (\<lambda>(d, s). length s)", goal_cases)
  case 1
  show ?case by simp
next
  case (2 d s s')
  then obtain c cs where s': "s' = c # cs" "c \<notin> set d"
    by (metis dropWhile_eq_Cons_conv neq_Nil_conv)
  have "length (dropWhile (\<lambda>c. c \<notin> set d) cs) \<le> length cs"
    by (simp add: length_dropWhile_le)
  moreover have "length s' \<le> length s" using 2 by (simp add: length_dropWhile_le)
  ultimately show ?case using s' by simp
qed

declare tokens.simps [simp del]

lemma find_first_not_of_eq:
  "find_first_not_of s d i =
     (if dropWhile (\<lambda>c. c \<in> set d) (drop i s) = [] then None
      else Some (i + length (takeWhile (\<lambda>c. c \<in> set d) (drop i s))))"
  by (auto simp: find_first_not_of_def find_from_eq)

lemma find_first_of_eq:
  "find_first_of s d i =
     (if dropWhile (\<lambda>c. c \<notin> set d) (drop i s) = [] then None
      else Some (i + length (takeWhile (\<lambda>c. c \<notin> set d) (drop i s))))"
  by (auto simp: find_first_of_def find_from_eq)

lemma drop_takeWhile_length: "drop (length (takeWhile P s)) s = dropWhile P s"
  by (simp add: dropWhile_eq_drop)

text \<open>One round of the loop consumes one token.\<close>

lemma split_loop_tokens:
  assumes "lastPos = find_first_not_of s d i" and "pos = Option.bind lastPos (find_first_of s d)"
    and "i \<le> length s"
  shows "split_loop s d lastPos pos toks = Inr (toks @ tokens d (drop i s))"
  using assms
proof (induction "length s - i" arbitrary: i lastPos pos toks rule: less_induct)
  case less
  define S where "S = dropWhile (\<lambda>c. c \<in> set d) (drop i s)"
  define L where "L = i + length (takeWhile (\<lambda>c. c \<in> set d) (drop i s))"
  define T where "T = takeWhile (\<lambda>c. c \<notin> set d) S"
  define p where "p = L + length T"
  have dl: "drop L s = S"
    unfolding L_def S_def by (metis add.commute drop_drop drop_takeWhile_length)
  have dp: "drop p s = dropWhile (\<lambda>c. c \<notin> set d) S"
    unfolding p_def T_def dl [symmetric] by (metis add.commute drop_drop drop_takeWhile_length)
  have lp: "lastPos = (if S = [] then None else Some L)"
    using less.prems(1) by (simp only: find_first_not_of_eq S_def L_def)
  have tk: "tokens d (drop i s) = (if S = [] then [] else T # tokens d (drop p s))"
    by (subst tokens.simps) (simp only: Let_def dp T_def S_def [symmetric])
  show ?case
  proof (cases "S = []")
    case True
    with lp tk less.prems(2) show ?thesis by (subst split_loop.simps) simp
  next
    case False
    with dl have ll: "L < length s" by (metis drop_all not_le)
    obtain c cs where "S = c # cs" "c \<notin> set d"
      using False S_def by (metis dropWhile_eq_Cons_conv neq_Nil_conv)
    then have T: "T \<noteq> []" by (simp add: T_def)
    have pp: "pos = (if drop p s = [] then None else Some p)"
      using less.prems(2) lp False
      by (simp only: if_False bind.simps find_first_of_eq dl dp [symmetric] T_def [symmetric]
          p_def [symmetric])
    show ?thesis
    proof (cases "drop p s = []")
      case True
      then have "T = S" unfolding T_def dp by (metis dropWhile_eq_Nil_conv takeWhile_eq_all_conv)
      moreover have "tokens d (drop p s) = []" using True by (simp add: tokens.simps)
      ultimately show ?thesis
        using lp pp ll dl tk True False
        by (subst split_loop.simps) (simp add: substr_def split_loop.simps [of s d None None])
    next
      case F: False
      then have pl: "p \<le> length s" by (metis drop_all not_le order.strict_implies_order)
      have "T = take (length T) S" unfolding T_def by (metis takeWhile_eq_take)
      then have sub: "substr s L (Some (p - L)) = Inr T"
        using ll dl by (simp add: substr_def p_def)
      have "length s - p < length s - i" using T ll by (cases T) (auto simp: p_def L_def)
      from less.hyps [OF this refl refl pl, of "toks @ [T]"]
      show ?thesis using lp pp sub tk F False by (subst split_loop.simps) simp
    qed
  qed
qed

lemma Split_tokens: "Split s d = Inr \<lparr>m_tokenList = tokens d s, m_index = 0\<rparr>"
  using split_loop_tokens [of _ s d 0 _ "[]"] by (simp add: Split_def Let_def)

lemma tokens_Nil [simp]: "tokens d [] = []"
  by (simp add: tokens.simps)

lemma tokens_delim [simp]: "c \<in> set d \<Longrightarrow> tokens d (c # s) = tokens d s"
  by (subst (1 2) tokens.simps) simp

lemma tokens_run:
  assumes "f \<noteq> []" and "\<forall>c\<in>set f. c \<notin> set d" and "s = [] \<or> hd s \<in> set d"
  shows "tokens d (f @ s) = f # tokens d s"
proof -
  obtain c cs where f: "f = c # cs" "c \<notin> set d" using assms(1,2) by (cases f) auto
  have s: "takeWhile (\<lambda>c. c \<notin> set d) s = []" "dropWhile (\<lambda>c. c \<notin> set d) s = s"
    using assms(3) by (cases s; simp)+
  have "takeWhile (\<lambda>c. c \<notin> set d) (f @ s) = f" "dropWhile (\<lambda>c. c \<notin> set d) (f @ s) = s"
    using assms(2) s by (simp_all add: takeWhile_append dropWhile_append)
  then show ?thesis using f by (subst tokens.simps) simp
qed

lemma tokens_field [clib_simps]:
  "f \<noteq> [] \<Longrightarrow> d \<notin> set f \<Longrightarrow> tokens [d] (f @ d # s) = f # tokens [d] s"
  using tokens_run [of f "[d]" "d # s"] by auto

lemma tokens_last [clib_simps]: "f \<noteq> [] \<Longrightarrow> d \<notin> set f \<Longrightarrow> tokens [d] f = [f]"
  using tokens_run [of f "[d]" "[]"] by auto

lemma tokens_fields: "tokens [d] s = filter (\<lambda>f. f \<noteq> []) (split_on d s)"
proof (induction "length s" arbitrary: s rule: less_induct)
  case less
  show ?case
  proof (cases "d \<in> set s")
    case False
    then show ?thesis
      by (cases "s = []") (simp_all add: split_on_single tokens_last)
  next
    case True
    then obtain a b where s: "s = a @ d # b" "d \<notin> set a" by (meson split_list_first)
    then have "tokens [d] b = filter (\<lambda>f. f \<noteq> []) (split_on d b)" using less by simp
    with s show ?thesis
      by (cases "a = []") (simp_all add: split_on_append tokens_field)
  qed
qed

lemma tokens_nonempty: "f \<in> set (tokens [d] s) \<Longrightarrow> f \<noteq> [] \<and> d \<notin> set f \<and> set f \<subseteq> set s"
  using split_on_no_delim set_split_on by (fastforce simp: tokens_fields)

lemma tokens_app: "tokens [d] (a @ d # b) = tokens [d] a @ tokens [d] b"
proof (induction "length a" arbitrary: a rule: less_induct)
  case less
  show ?case
  proof (cases "d \<in> set a")
    case False
    then show ?thesis by (cases "a = []") (simp_all add: tokens_last tokens_field)
  next
    case True
    then obtain x y where a: "a = x @ d # y" "d \<notin> set x" by (meson split_list_first)
    then have "tokens [d] (y @ d # b) = tokens [d] y @ tokens [d] b" using less by simp
    with a show ?thesis by (cases "x = []") (simp_all add: tokens_field)
  qed
qed

section \<open>The cursor\<close>

text \<open>
  \<open>tz ts k\<close> is the tokenizer over the tokens \<open>ts\<close> after \<open>k\<close> calls of \<open>GetNext\<close>;
  past the end the calls return the empty string and the cursor stays.
\<close>

definition tz :: "string list \<Rightarrow> nat \<Rightarrow> tokenizer" where
  "tz ts k = \<lparr>m_tokenList = ts, m_index = min k (length ts)\<rparr>"

definition tok_at :: "string list \<Rightarrow> nat \<Rightarrow> string" where
  "tok_at ts k = (if k < length ts then ts ! k else [])"

text \<open>All tokens from the cursor on: what a \<open>while ((x = GetNext()) != "")\<close> loop reads.\<close>

definition rest_tokens :: "tokenizer \<Rightarrow> string list" where
  "rest_tokens t = drop (m_index t) (m_tokenList t)"

lemma tok_at_simps [simp]:
  "tok_at [] k = []" "tok_at (x # xs) 0 = x" "tok_at (x # xs) (Suc k) = tok_at xs k"
  "tok_at (x # xs) (numeral n) = tok_at xs (pred_numeral n)"
  by (simp_all add: tok_at_def nth_Cons' numeral_eq_Suc)

lemma Split_tz [simp]: "Split s d = Inr (tz (tokens d s) 0)"
  by (simp add: Split_tokens tz_def)

lemma GetNext_tz [simp]: "GetNext (tz ts k) = (tok_at ts k, tz ts (Suc k))"
  by (auto simp: GetNext_def tok_at_def tz_def min_def)

lemma GetCurrent_tz [simp]: "GetCurrent (tz ts k) = tok_at ts k"
  by (auto simp: GetCurrent_def tok_at_def tz_def min_def)

lemma GetSize_tz [simp]: "GetSize (tz ts k) = length ts"
  by (simp add: GetSize_def tz_def)

lemma HasMoreTokens_tz [simp]: "HasMoreTokens (tz ts k) \<longleftrightarrow> k < length ts"
  by (auto simp: HasMoreTokens_def tz_def min_def)

lemma GoFirst_tz [simp]: "GoFirst (tz ts k) = tz ts 0"
  by (simp add: GoFirst_def tz_def)

lemma rest_tokens_tz [simp]: "rest_tokens (tz ts k) = drop k ts"
  by (simp add: rest_tokens_def tz_def min_def)

lemma tok_at_empty_iff:
  "tok_at (tokens [d] s) k = [] \<longleftrightarrow> length (tokens [d] s) \<le> k"
  using tokens_nonempty [of "tokens [d] s ! k" d s] by (auto simp: tok_at_def)

lemma tok_at_chars: "set (tok_at (tokens [d] s) k) \<subseteq> set s"
  using tokens_nonempty [of "tokens [d] s ! k" d s] by (auto simp: tok_at_def)

lemma tok_at_no_delim: "d \<notin> set (tok_at (tokens [d] s) k)"
  using tokens_nonempty [of "tokens [d] s ! k" d s] by (auto simp: tok_at_def)

section \<open>Messages as joined fields\<close>

fun join_fields :: "char \<Rightarrow> string list \<Rightarrow> string" where
  "join_fields d [] = []"
| "join_fields d [f] = f"
| "join_fields d (f # fs) = f @ d # join_fields d fs"

lemma tokens_join:
  "\<forall>f\<in>set fs. f \<noteq> [] \<and> d \<notin> set f \<Longrightarrow> tokens [d] (join_fields d fs) = fs"
proof (induction fs rule: induct_list012)
  case 1
  then show ?case by simp
next
  case (2 f)
  then show ?case by (simp add: tokens_last)
next
  case (3 f g fs)
  then show ?case by (simp add: tokens_field)
qed

lemma tokens_join_app:
  "\<forall>f\<in>set fs. f \<noteq> [] \<and> d \<notin> set f \<Longrightarrow> tokens [d] (join_fields d fs @ d # r) = fs @ tokens [d] r"
  by (simp add: tokens_app tokens_join)

section \<open>Correctness of the tokenizer\<close>

text \<open>
  \<open>Split\<close> ends without an exception on every input and yields exactly the non-empty
  fields between the separators, in order, with the cursor on the first.
\<close>

theorem Split_fields:
  "Split s [d] = Inr \<lparr>m_tokenList = filter (\<lambda>f. f \<noteq> []) (split_on d s), m_index = 0\<rparr>"
  by (simp add: tz_def tokens_fields)

text \<open>
  Fields that are not empty and hold no separator survive joining and splitting, and
  \<open>GetNext\<close> hands them out one by one, then empty strings.
\<close>

theorem Split_join:
  assumes "\<forall>f\<in>set fs. f \<noteq> [] \<and> d \<notin> set f"
  shows "\<exists>t. Split (join_fields d fs) [d] = Inr t
     \<and> (\<forall>k. fst (GetNext (((snd \<circ> GetNext) ^^ k) t)) = (if k < length fs then fs ! k else []))"
proof -
  have "((snd \<circ> GetNext) ^^ k) (tz fs 0) = tz fs k" for k
    by (induction k) simp_all
  then show ?thesis
    using tokens_join [OF assms] by (intro exI [of _ "tz fs 0"]) (simp add: tok_at_def)
qed

lemma Split_join_witness:
  "\<exists>t. Split ''update;10.0.0.1;5100'' '';'' = Inr t \<and> fst (GetNext (snd (GetNext t))) = ''10.0.0.1''"
proof -
  obtain t where "Split (join_fields (CHR '';'') [''update'', ''10.0.0.1'', ''5100'']) '';'' = Inr t"
    and "\<forall>k. fst (GetNext (((snd \<circ> GetNext) ^^ k) t))
      = (if k < length [''update'', ''10.0.0.1'', ''5100''] then [''update'', ''10.0.0.1'', ''5100''] ! k else [])"
    using Split_join [of "[''update'', ''10.0.0.1'', ''5100'']" "CHR '';''"] by auto
  then show ?thesis by (intro exI [of _ t]) (auto dest: spec [of _ 1])
qed

end
