(* ===== verification/AddrTable.thy ===== *)
theory AddrTable
  imports CLib
begin

text \<open>
  The interface the address books share: entries with a key (IP address, port), a linear
  \<open>find\<close>, an \<open>add\<close> that skips known keys and copies the address into a 16-byte field,
  and a \<open>remove\<close> of the first hit. The registry's server list and the bulletin board's
  server and client vectors interpret it. The client lemmas say that a run of commands refines the same run over a
  set of keys, and that keys stay distinct.
\<close>

datatype 'e table_cmd = Add 'e | Remove string int

text \<open>A run of commands over the concrete table and over the set of keys it stands for.\<close>

fun run_cmds ::
  "('e \<Rightarrow> 'e list \<Rightarrow> 'e list result) \<Rightarrow> ('e list \<Rightarrow> string \<Rightarrow> int \<Rightarrow> 'e list) \<Rightarrow>
   'e table_cmd list \<Rightarrow> 'e list \<Rightarrow> 'e list result" where
  "run_cmds add rem [] l = Inr l"
| "run_cmds add rem (Add e # cs) l = bindE (add e l) (run_cmds add rem cs)"
| "run_cmds add rem (Remove ip p # cs) l = run_cmds add rem cs (rem l ip p)"

fun run_keys :: "('e \<Rightarrow> string \<times> int) \<Rightarrow> 'e table_cmd list \<Rightarrow> (string \<times> int) set \<Rightarrow> (string \<times> int) set"
where
  "run_keys key [] S = S"
| "run_keys key (Add e # cs) S = run_keys key cs (insert (key e) S)"
| "run_keys key (Remove ip p # cs) S = run_keys key cs (S - {(ip, p)})"

text \<open>Addresses that a 16-byte field holds whole.\<close>

definition fits16 :: "string \<Rightarrow> bool" where
  "fits16 ip \<longleftrightarrow> length ip < 16 \<and> CHR 0x00 \<notin> set ip"

lemma strcpy_fits16: "fits16 ip \<Longrightarrow> strcpy_buf 16 ip = Inr ip"
  by (simp add: fits16_def strcpy_buf_def)

lemma strcpy_buf_InrD: "strcpy_buf n s = Inr t \<Longrightarrow> t = cstr s \<and> length t < n \<and> CHR 0x00 \<notin> set t"
  by (auto simp: strcpy_buf_def split: if_splits)

locale addr_table =
  fixes key :: "'e \<Rightarrow> string \<times> int"
    and find :: "'e list \<Rightarrow> string \<Rightarrow> int \<Rightarrow> nat option"
    and add :: "'e \<Rightarrow> 'e list \<Rightarrow> 'e list result"
    and rem :: "'e list \<Rightarrow> string \<Rightarrow> int \<Rightarrow> 'e list"
  assumes find_None: "find l ip p = None \<longleftrightarrow> (ip, p) \<notin> key ` set l"
    and find_Some: "find l ip p = Some i \<Longrightarrow> i < length l \<and> key (l ! i) = (ip, p)"
    and add_fits: "fits16 (fst (key e)) \<Longrightarrow>
          add e l = Inr (if key e \<in> key ` set l then l else l @ [e])"
    and rem_filter: "distinct (map key l) \<Longrightarrow> rem l ip p = filter (\<lambda>e. key e \<noteq> (ip, p)) l"
begin

lemma add_distinct:
  "fits16 (fst (key e)) \<Longrightarrow> add e l = Inr l' \<Longrightarrow> distinct (map key l) \<Longrightarrow> distinct (map key l')"
  by (auto simp: add_fits split: if_splits)

lemma add_keys:
  "fits16 (fst (key e)) \<Longrightarrow> add e l = Inr l' \<Longrightarrow> key ` set l' = insert (key e) (key ` set l)"
  by (auto simp: add_fits split: if_splits)

lemma add_idem: "fits16 (fst (key e)) \<Longrightarrow> add e l = Inr l' \<Longrightarrow> add e l' = Inr l'"
  by (auto simp: add_fits split: if_splits)

lemma add_found: "fits16 (fst (key e)) \<Longrightarrow> add e l = Inr l' \<Longrightarrow> find l' (fst (key e)) (snd (key e)) \<noteq> None"
  by (auto simp: add_fits find_None split: if_splits)

lemma rem_distinct: "distinct (map key l) \<Longrightarrow> distinct (map key (rem l ip p))"
  by (simp add: rem_filter distinct_map_filter)

lemma rem_keys: "distinct (map key l) \<Longrightarrow> key ` set (rem l ip p) = key ` set l - {(ip, p)}"
  by (auto simp: rem_filter)

lemma rem_not_found: "distinct (map key l) \<Longrightarrow> find (rem l ip p) ip p = None"
  by (simp add: find_None rem_keys)

lemma rem_other:
  "distinct (map key l) \<Longrightarrow> (ip', p') \<noteq> (ip, p) \<Longrightarrow>
   (find (rem l ip p) ip' p' = None) = (find l ip' p' = None)"
  by (simp add: find_None rem_keys)

lemma run_refines:
  assumes "distinct (map key l)" and "\<forall>e. Add e \<in> set cs \<longrightarrow> fits16 (fst (key e))"
  shows "\<exists>l'. run_cmds add rem cs l = Inr l' \<and> distinct (map key l')
              \<and> key ` set l' = run_keys key cs (key ` set l)"
  using assms
proof (induction cs arbitrary: l)
  case Nil
  then show ?case by simp
next
  case (Cons c cs)
  show ?case
  proof (cases c)
    case (Add e)
    with Cons.prems have f: "fits16 (fst (key e))" by simp
    obtain l' where l': "add e l = Inr l'" using add_fits [OF f] by auto
    have "distinct (map key l')" "key ` set l' = insert (key e) (key ` set l)"
      using add_distinct [OF f l'] add_keys [OF f l'] Cons.prems(1) by auto
    with Cons.IH [of l'] Cons.prems(2) l' Add show ?thesis by simp
  next
    case (Remove ip p)
    with Cons.IH [of "rem l ip p"] Cons.prems show ?thesis
      by (simp add: rem_distinct rem_keys)
  qed
qed

end

end
