(* ===== verification/Registry.thy ===== *)
theory Registry
  imports StringTokenizer AddrTable "HOL-Library.Word"
begin

text \<open>
  The PubSub registry server (Project1/Registry/super_server.cpp): the global
  \<open>g_serverList\<close>, the operations on it, one iteration of the \<open>listen\<close> loop as
  \<open>listen_step\<close> (a datagram in, the new list and the reply out), the loop itself, and
  one round of the \<open>heartBeat\<close> loop. The lemmas show the list's invariant (distinct
  keys, valid addresses and ports), that it makes \<open>strcpy\<close> safe, what each command does
  on every branch, and how a reply of GetList is read back. Output to the console is
  not modelled; \<open>heartBeat\<close> and \<open>listen\<close> run as separate atomic rounds.
\<close>

section \<open>Data\<close>

datatype RPC_FORMAT = UNKNOWN_FORMAT | RPC | RMI

datatype COMMAND_TYPE = UNKNOWN_COMMAND | REGISTER | DEREGISTER | GETLIST

record SServerInfo =
  m_szIPAddress :: string
  m_rpcFormat :: RPC_FORMAT
  m_nPort :: int
  m_uiProgram :: "32 word"
  m_uiVersion :: "32 word"

section \<open>Operations on g_serverList\<close>

definition findServer :: "SServerInfo list \<Rightarrow> string \<Rightarrow> int \<Rightarrow> nat option" where
  "findServer g strIPAddress nPort =
     find_iter (\<lambda>it. strIPAddress = m_szIPAddress it \<and> nPort = m_nPort it) g"

definition addServer ::
  "SServerInfo list \<Rightarrow> string \<Rightarrow> int \<Rightarrow> RPC_FORMAT \<Rightarrow> 32 word \<Rightarrow> 32 word \<Rightarrow> SServerInfo list result"
where
  "addServer g strIPAddress nPort rpc_format uiProgram uiVersion =
     (if findServer g strIPAddress nPort = None
      then bindE (strcpy_buf 16 strIPAddress)
             (\<lambda>ip. Inr (g @ [\<lparr>m_szIPAddress = ip, m_rpcFormat = rpc_format, m_nPort = nPort,
                              m_uiProgram = uiProgram, m_uiVersion = uiVersion\<rparr>]))
      else Inr g)"

definition removeServer :: "SServerInfo list \<Rightarrow> string \<Rightarrow> int \<Rightarrow> SServerInfo list" where
  "removeServer g strIPAddress nPort =
     (case findServer g strIPAddress nPort of None \<Rightarrow> g | Some it \<Rightarrow> erase_iter it g)"

text \<open>One \<open>sprintf(szInfo, \<dots>)\<close>; \<open>%d\<close> prints the unsigned fields as signed.\<close>

definition server_entry :: "RPC_FORMAT \<Rightarrow> SServerInfo \<Rightarrow> string" where
  "server_entry rpc_format it =
     (if rpc_format = RPC
      then m_szIPAddress it @ '';'' @ to_string (sint (m_uiProgram it)) @ '';''
           @ to_string (sint (m_uiVersion it)) @ '';''
      else m_szIPAddress it @ '';'' @ to_string (m_nPort it) @ '';'')"

fun getServerList_loop :: "RPC_FORMAT \<Rightarrow> SServerInfo list \<Rightarrow> string \<Rightarrow> string result" where
  "getServerList_loop rpc_format [] strServerList = Inr strServerList"
| "getServerList_loop rpc_format (it # its) strServerList =
     (if m_rpcFormat it = rpc_format
      then bindE (strcpy_buf 32 (server_entry rpc_format it))
             (\<lambda>szInfo. getServerList_loop rpc_format its (strServerList @ szInfo))
      else getServerList_loop rpc_format its strServerList)"

definition getServerList :: "SServerInfo list \<Rightarrow> RPC_FORMAT \<Rightarrow> string result" where
  "getServerList g rpc_format =
     bindE (getServerList_loop rpc_format g [])
       (\<lambda>s. Inr (if length s > 0 then butlast s else s))"

section \<open>The listen loop\<close>

definition command_of :: "string \<Rightarrow> COMMAND_TYPE" where
  "command_of strCommand =
     (if strcaseeq strCommand ''Register'' then REGISTER
      else if strcaseeq strCommand ''DeRegister'' then DEREGISTER
      else if strcaseeq strCommand ''GetList'' then GETLIST
      else UNKNOWN_COMMAND)"

definition format_of :: "string \<Rightarrow> RPC_FORMAT" where
  "format_of strRPCFormat =
     (if strRPCFormat = ''RMI'' then RMI
      else if strRPCFormat = ''RPC'' then RPC
      else UNKNOWN_FORMAT)"

text \<open>One datagram: the buffer keeps 128 bytes, the string ends at the first NUL.\<close>

definition listen_step ::
  "SServerInfo list \<Rightarrow> string \<Rightarrow> (SServerInfo list \<times> string option) result" where
  "listen_step g datagram =
     (let szReceivedData = cstr (take 128 datagram) in
      bindE (Split szReceivedData '';'') (\<lambda>t0.
        let (strCommand, t1) = GetNext t0;
            command_type = command_of strCommand;
            (strRPCFormat, t2) = GetNext t1;
            rpc_format = format_of strRPCFormat
        in if rpc_format \<noteq> UNKNOWN_FORMAT then
             (let (strIPAddress, t3) = GetNext t2;
                  (strPort, t4) = GetNext t3;
                  nPort = atoi strPort
              in if isValidIP strIPAddress \<and> isValidPort nPort then
                   (case command_type of
                      REGISTER \<Rightarrow>
                        (let (uiProgram, uiVersion) =
                               (if rpc_format = RPC
                                then let (p, t5) = GetNext t4; (v, t6) = GetNext t5
                                     in (word_of_int (atol p), word_of_int (atol v))
                                else (0, 0))
                         in bindE (addServer g strIPAddress nPort rpc_format uiProgram uiVersion)
                              (\<lambda>g'. Inr (g', None)))
                    | DEREGISTER \<Rightarrow> Inr (removeServer g strIPAddress nPort, None)
                    | GETLIST \<Rightarrow> bindE (getServerList g rpc_format) (\<lambda>s. Inr (g, Some s))
                    | UNKNOWN_COMMAND \<Rightarrow> Inr (g, None))
                 else Inr (g, None))
           else Inr (g, None)))"

text \<open>The loop over what \<open>recvfrom\<close> returns; \<open>None\<close> is its failure, which ends the loop.\<close>

fun listen_run ::
  "SServerInfo list \<Rightarrow> string option list \<Rightarrow> (SServerInfo list \<times> string list) result" where
  "listen_run g [] = Inr (g, [])"
| "listen_run g (None # ds) = Inr ([], [])"
| "listen_run g (Some d # ds) =
     bindE (listen_step g d) (\<lambda>(g', r).
       bindE (listen_run g' ds) (\<lambda>(g'', rs).
         Inr (g'', (case r of None \<Rightarrow> rs | Some x \<Rightarrow> x # rs))))"

section \<open>One round of the heartBeat loop\<close>

text \<open>
  The iterator walks the list. \<open>recv s\<close> is what \<open>recvfrom\<close> returns after the ping of
  \<open>s\<close>: -1 on a timeout, else the length of the reply, at most 32. A server whose call
  returns 0 or less is removed by key after the iterator stepped back, so the walk goes on
  with the next entry. Removing an entry other than the current one would need a duplicate
  key; the iterator dangles when that entry is the one before. The flag \<open>ub\<close> records the
  two slips the loop survives in practice: \<open>szReceivedData[recvLen] = 0\<close> outside the 32
  bytes of the array, and \<open>it--\<close> at \<open>begin()\<close>.
\<close>

definition heartBeat_stray :: "int \<Rightarrow> bool" where
  "heartBeat_stray recvLen \<longleftrightarrow> recvLen < 0 \<or> 32 \<le> recvLen"

function heartBeat_round ::
  "(SServerInfo \<Rightarrow> int) \<Rightarrow> SServerInfo list \<Rightarrow> nat \<Rightarrow> bool \<Rightarrow> (bool \<times> SServerInfo list) result" where
  "heartBeat_round recv g i ub =
     (if i < length g then
        (let it = g ! i; recvLen = recv it; ub1 = (ub \<or> heartBeat_stray recvLen) in
         if recvLen > 0 then heartBeat_round recv g (Suc i) ub1
         else (let ub2 = (ub1 \<or> i = 0) in
               case findServer g (m_szIPAddress it) (m_nPort it) of
                 None \<Rightarrow> Inl Blocked
               | Some j \<Rightarrow>
                   if j = i then heartBeat_round recv (erase_iter i g) i ub2
                   else if Suc j = i then Inl OutOfBounds
                   else heartBeat_round recv (erase_iter j g) (i - 1) ub2))
      else Inr (ub, g))"
  by pat_completeness auto
termination
  by (relation "measures [\<lambda>(r, g, i, u). length g, \<lambda>(r, g, i, u). length g - i]")
     (auto simp: findServer_def length_erase_iter dest!: find_iter_SomeD)

declare heartBeat_round.simps [simp del]

section \<open>The list as an address table\<close>

definition server_key :: "SServerInfo \<Rightarrow> string \<times> int" where
  "server_key s = (m_szIPAddress s, m_nPort s)"

lemma findServer_None: "findServer g ip p = None \<longleftrightarrow> (ip, p) \<notin> server_key ` set g"
  by (auto simp: findServer_def find_iter_None server_key_def)

lemma findServer_key: "findServer g ip p = find_iter (\<lambda>it. server_key it = (ip, p)) g"
  unfolding findServer_def by (rule arg_cong [where f = "\<lambda>P. find_iter P g"]) (auto simp: server_key_def)

lemma addServer_eq:
  "fits16 ip \<Longrightarrow>
   addServer g ip p f a b =
     Inr (if (ip, p) \<in> server_key ` set g then g
          else g @ [\<lparr>m_szIPAddress = ip, m_rpcFormat = f, m_nPort = p, m_uiProgram = a, m_uiVersion = b\<rparr>])"
  by (simp add: addServer_def findServer_None strcpy_fits16)

lemma removeServer_filter:
  "distinct (map server_key g) \<Longrightarrow> removeServer g ip p = filter (\<lambda>s. server_key s \<noteq> (ip, p)) g"
  unfolding removeServer_def findServer_key by (rule erase_find_iter_filter)

interpretation registry: addr_table server_key findServer
  "\<lambda>e g. addServer g (m_szIPAddress e) (m_nPort e) (m_rpcFormat e) (m_uiProgram e) (m_uiVersion e)"
  removeServer
proof (unfold_locales, goal_cases)
  case (1 l ip p)
  show ?case by (rule findServer_None)
next
  case (2 l ip p i)
  then show ?case unfolding findServer_key by (blast dest: find_iter_SomeD)
next
  case (3 e l)
  then show ?case by (simp add: addServer_eq server_key_def)
next
  case (4 l ip p)
  then show ?case by (rule removeServer_filter)
qed

section \<open>The invariant\<close>

definition entry_ok :: "SServerInfo \<Rightarrow> bool" where
  "entry_ok s \<longleftrightarrow> isValidIP (m_szIPAddress s) \<and> CHR 0x00 \<notin> set (m_szIPAddress s)
     \<and> isValidPort (m_nPort s) \<and> m_rpcFormat s \<noteq> UNKNOWN_FORMAT"

definition reg_inv :: "SServerInfo list \<Rightarrow> bool" where
  "reg_inv g \<longleftrightarrow> distinct (map server_key g) \<and> list_all entry_ok g"

lemma valid_ip_fits16: "isValidIP ip \<Longrightarrow> CHR 0x00 \<notin> set ip \<Longrightarrow> fits16 ip"
  using isValidIP_length [of ip] by (simp add: fits16_def)

lemma reg_inv_add:
  assumes "reg_inv g" "isValidIP ip" "CHR 0x00 \<notin> set ip" "isValidPort p" "f \<noteq> UNKNOWN_FORMAT"
  shows "\<exists>g'. addServer g ip p f a b = Inr g' \<and> reg_inv g'"
  using assms
  by (auto simp: addServer_eq valid_ip_fits16 reg_inv_def entry_ok_def server_key_def)

lemma reg_inv_remove: "reg_inv g \<Longrightarrow> reg_inv (removeServer g ip p)"
  by (auto simp: reg_inv_def removeServer_filter distinct_map_filter list_all_iff)

lemma entry_chars:
  assumes "entry_ok s"
  shows "CHR 0x00 \<notin> set (server_entry f s)" "CHR '';'' \<notin> set (m_szIPAddress s)" "m_szIPAddress s \<noteq> []"
  using assms isValidIP_clean [of "m_szIPAddress s"] isValidIP_not_Nil [of "m_szIPAddress s"]
  by (auto simp: entry_ok_def server_entry_def)

lemma getServerList_loop_ok:
  assumes "list_all entry_ok g"
    and "\<forall>s\<in>set g. m_rpcFormat s = f \<longrightarrow> length (server_entry f s) < 32"
  shows "getServerList_loop f g acc =
         Inr (acc @ concat (map (server_entry f) (filter (\<lambda>s. m_rpcFormat s = f) g)))"
  using assms
  by (induction g arbitrary: acc) (auto simp: strcpy_buf_def entry_chars)

lemma getServerList_loop_fault:
  "getServerList_loop f g acc = Inl e \<Longrightarrow>
   e = BufferOverflow \<and> (\<exists>s\<in>set g. m_rpcFormat s = f \<and> 32 \<le> length (cstr (server_entry f s)))"
  by (induction g arbitrary: acc) (auto simp: strcpy_buf_def result_simps split: if_splits)

lemma rmi_entry_short: "entry_ok s \<Longrightarrow> f \<noteq> RPC \<Longrightarrow> length (server_entry f s) < 32"
  using isValidIP_length [of "m_szIPAddress s"] length_to_string_port [of "m_nPort s"]
  by (auto simp: entry_ok_def server_entry_def)

text \<open>What a peer reads back from one entry: its non-empty fields.\<close>

definition entry_fields :: "RPC_FORMAT \<Rightarrow> SServerInfo \<Rightarrow> string list" where
  "entry_fields f s =
     (if f = RPC then [m_szIPAddress s, to_string (sint (m_uiProgram s)), to_string (sint (m_uiVersion s))]
      else [m_szIPAddress s, to_string (m_nPort s)])"

lemma tokens_server_entry:
  "entry_ok s \<Longrightarrow> tokens '';'' (server_entry f s @ r) = entry_fields f s @ tokens '';'' r"
  by (simp add: server_entry_def entry_fields_def tokens_field entry_chars)

lemma tokens_server_entries:
  "list_all entry_ok g \<Longrightarrow>
   tokens '';'' (concat (map (server_entry f) g)) = concat (map (entry_fields f) g)"
  by (induction g) (simp_all add: tokens_server_entry)

lemma tokens_butlast_delim:
  assumes "s \<noteq> []" and "last s = d"
  shows "tokens [d] (butlast s) = tokens [d] s"
proof -
  have "s = butlast s @ d # []" using assms append_butlast_last_id by metis
  then have "tokens [d] s = tokens [d] (butlast s) @ tokens [d] []"
    by (metis tokens_app)
  then show ?thesis by simp
qed

lemma server_entries_last:
  "g \<noteq> [] \<Longrightarrow> concat (map (server_entry f) g) \<noteq> [] \<and> last (concat (map (server_entry f) g)) = CHR '';''"
proof (induction g)
  case Nil
  then show ?case by simp
next
  case (Cons s g)
  then show ?case by (cases "g = []") (auto simp: server_entry_def)
qed

section \<open>Parsing commands\<close>

text \<open>The step over the token list, without the tokenizer's plumbing.\<close>

lemma listen_step_tokens:
  "listen_step g d =
     (let ts = tokens '';'' (cstr (take 128 d)); ip = tok_at ts 2; port = atoi (tok_at ts 3) in
      if format_of (tok_at ts (Suc 0)) \<noteq> UNKNOWN_FORMAT \<and> isValidIP ip \<and> isValidPort port then
        (case command_of (tok_at ts 0) of
           REGISTER \<Rightarrow>
             bindE (if format_of (tok_at ts (Suc 0)) = RPC
                    then addServer g ip port RPC (word_of_int (atol (tok_at ts 4))) (word_of_int (atol (tok_at ts 5)))
                    else addServer g ip port (format_of (tok_at ts (Suc 0))) 0 0)
               (\<lambda>g'. Inr (g', None))
         | DEREGISTER \<Rightarrow> Inr (removeServer g ip port, None)
         | GETLIST \<Rightarrow> bindE (getServerList g (format_of (tok_at ts (Suc 0)))) (\<lambda>s. Inr (g, Some s))
         | UNKNOWN_COMMAND \<Rightarrow> Inr (g, None))
      else Inr (g, None))"
  by (simp add: listen_step_def Let_def numeral_eq_Suc split: COMMAND_TYPE.splits)

lemma token_no_nul: "CHR 0x00 \<notin> set (tok_at (tokens [d] (cstr s)) k)"
  using tok_at_chars [of d "cstr s" k] cstr_no_nul [of s] by blast

text \<open>
  The invariant of the registry's list (distinct address/port keys, every address a
  valid IPv4 address, every port in 1024..65535, a known format) is kept by the handling of
  every datagram whatever its bytes; and the only fault a datagram can cause is the
  \<open>sprintf\<close> of GetList overrunning \<open>szInfo[32]\<close> with an RPC entry: no \<open>strcpy\<close>
  into the 16-byte address field ever overflows.
\<close>

theorem listen_step_invariant:
  assumes "reg_inv g"
  shows "case listen_step g datagram of
           Inr (g', reply) \<Rightarrow> reg_inv g'
         | Inl e \<Rightarrow> e = BufferOverflow
             \<and> (\<exists>s\<in>set g. m_rpcFormat s = RPC \<and> 32 \<le> length (server_entry RPC s))"
proof -
  define ts where "ts = tokens '';'' (cstr (take 128 datagram))"
  define f where "f = format_of (tok_at ts (Suc 0))"
  have nul: "CHR 0x00 \<notin> set (tok_at ts 2)" unfolding ts_def by (rule token_no_nul)
  show ?thesis
  proof (cases "f \<noteq> UNKNOWN_FORMAT \<and> isValidIP (tok_at ts 2) \<and> isValidPort (atoi (tok_at ts 3))")
    case False
    then show ?thesis
      using assms by (auto simp: listen_step_tokens Let_def simp flip: ts_def f_def)
  next
    case True
    then have add: "\<And>a b. \<exists>g'. addServer g (tok_at ts 2) (atoi (tok_at ts 3)) f a b = Inr g' \<and> reg_inv g'"
      using reg_inv_add [OF assms] nul by blast
    have short: "f = RPC" if "s \<in> set g" "m_rpcFormat s = f" "32 \<le> length (cstr (server_entry f s))" for s
      using that assms rmi_entry_short [of s f] entry_chars(1) [of s f]
      by (force simp: reg_inv_def list_all_iff)
    have gl: "getServerList g f = Inl e \<Longrightarrow>
        e = BufferOverflow \<and> (\<exists>s\<in>set g. m_rpcFormat s = RPC \<and> 32 \<le> length (server_entry RPC s))" for e
      using getServerList_loop_fault [of f g "[]" e] short assms entry_chars(1)
      by (fastforce simp: getServerList_def result_simps reg_inv_def list_all_iff)
    show ?thesis
    proof (cases "command_of (tok_at ts 0)")
      case REGISTER
      with add [of 0 0] add [of "word_of_int (atol (tok_at ts 4))" "word_of_int (atol (tok_at ts 5))"] True
      show ?thesis by (auto simp: listen_step_tokens Let_def simp flip: ts_def f_def)
    next
      case GETLIST
      with True gl assms show ?thesis
        by (cases "getServerList g f")
           (auto simp: listen_step_tokens Let_def simp flip: ts_def f_def)
    qed (use True assms reg_inv_remove in
         \<open>auto simp: listen_step_tokens Let_def simp flip: ts_def f_def\<close>)
  qed
qed

theorem listen_step_invariant_witness:
  "reg_inv [] \<and> (case listen_step [] ''Register;RMI;1.2.3.4;5000'' of
     Inr (g', reply) \<Rightarrow> reg_inv g' | Inl e \<Rightarrow> False)"
proof -
  have h: "reg_inv []" by (simp add: reg_inv_def)
  show ?thesis
    using h listen_step_invariant [OF h, of "''Register;RMI;1.2.3.4;5000''"]
    by (auto split: sum.splits)
qed

section \<open>Commands, replies and heartbeats\<close>

lemma cmd_tokens:
  assumes "isValidIP ip" "CHR 0x00 \<notin> set ip" "cmd \<noteq> []" "CHR '';'' \<notin> set cmd"
    "fmt \<noteq> []" "CHR '';'' \<notin> set fmt"
  shows "tokens '';'' (cmd @ '';'' @ fmt @ '';'' @ ip @ '';'' @ to_string port)
         = [cmd, fmt, ip, to_string port]"
  using assms isValidIP_clean [of ip] isValidIP_not_Nil [of ip]
  by (simp add: tokens_field tokens_last)

lemma take_cstr_id: "length s \<le> n \<Longrightarrow> CHR 0x00 \<notin> set s \<Longrightarrow> cstr (take n s) = s"
  by simp

lemma format_of_simps [simp]:
  "format_of ''RMI'' = RMI" "format_of ''RPC'' = RPC"
  by (simp_all add: format_of_def)

lemma command_of_simps [simp]:
  "command_of ''Register'' = REGISTER" "command_of ''DeRegister'' = DEREGISTER"
  "command_of ''Deregister'' = DEREGISTER" "command_of ''GetList'' = GETLIST"
  by code_simp+

lemma short_cmd:
  assumes "isValidIP ip" "CHR 0x00 \<notin> set ip" "isValidPort port"
  shows "length (ip @ '';'' @ to_string port) \<le> 21"
  using isValidIP_length [of ip] length_to_string_port [of port] assms by simp

text \<open>
  A Register message for an RMI server with a valid address and port appends exactly
  one entry with these fields when the pair is new, and leaves the list alone when it is
  known; no reply is sent.
\<close>

theorem listen_step_register:
  assumes "isValidIP ip" "CHR 0x00 \<notin> set ip" "isValidPort port"
  shows "listen_step g (''Register;RMI;'' @ ip @ '';'' @ to_string port) =
         Inr (if (ip, port) \<in> server_key ` set g then g
              else g @ [\<lparr>m_szIPAddress = ip, m_rpcFormat = RMI, m_nPort = port,
                         m_uiProgram = 0, m_uiVersion = 0\<rparr>], None)"
proof -
  have "tokens '';'' (''Register;RMI;'' @ ip @ '';'' @ to_string port)
        = [''Register'', ''RMI'', ip, to_string port]"
    using cmd_tokens [of ip "''Register''" "''RMI''" port] assms by simp
  then show ?thesis
    using assms short_cmd [OF assms]
    by (simp add: listen_step_tokens take_cstr_id atoi_to_string addServer_eq valid_ip_fits16)
qed

theorem listen_step_register_witness:
  "listen_step [] ''Register;RMI;10.0.0.7;5106'' =
     Inr ([\<lparr>m_szIPAddress = ''10.0.0.7'', m_rpcFormat = RMI, m_nPort = 5106,
            m_uiProgram = 0, m_uiVersion = 0\<rparr>], None)"
proof -
  have h: "isValidIP ''10.0.0.7''" "CHR 0x00 \<notin> set ''10.0.0.7''" "isValidPort 5106"
    "to_string 5106 = ''5106''"
    by code_simp+
  show ?thesis using listen_step_register [OF h(1,2,3), of "[]"] by (simp add: h(4))
qed

text \<open>
  A DeRegister message (spelled as in the registry or as the group server sends it)
  removes exactly the entry with that address and port and keeps every other one, in
  order, when keys are distinct.
\<close>

theorem listen_step_deregister:
  assumes "reg_inv g" "isValidIP ip" "CHR 0x00 \<notin> set ip" "isValidPort port"
    and "cmd = ''DeRegister'' \<or> cmd = ''Deregister''" "fmt = ''RPC'' \<or> fmt = ''RMI''"
  shows "listen_step g (cmd @ '';'' @ fmt @ '';'' @ ip @ '';'' @ to_string port) =
         Inr (filter (\<lambda>s. server_key s \<noteq> (ip, port)) g, None)"
proof -
  have "tokens '';'' (cmd @ '';'' @ fmt @ '';'' @ ip @ '';'' @ to_string port)
        = [cmd, fmt, ip, to_string port]"
    using assms by (intro cmd_tokens) auto
  moreover have "cstr (take 128 (cmd @ '';'' @ fmt @ '';'' @ ip @ '';'' @ to_string port))
      = cmd @ '';'' @ fmt @ '';'' @ ip @ '';'' @ to_string port"
    using short_cmd [OF assms(2,3,4)] assms by (intro take_cstr_id) auto
  moreover have "format_of fmt \<noteq> UNKNOWN_FORMAT" "command_of cmd = DEREGISTER"
    using assms(5,6) by auto
  ultimately show ?thesis
    using assms(1,2,4) removeServer_filter [of g ip port]
    by (simp add: listen_step_tokens atoi_to_string reg_inv_def)
qed

theorem listen_step_deregister_witness:
  "\<exists>g. reg_inv g \<and> g \<noteq> [] \<and> listen_step g ''Deregister;RPC;10.0.0.7;8888'' = Inr ([], None)"
proof -
  define s where "s = \<lparr>m_szIPAddress = ''10.0.0.7'', m_rpcFormat = RPC, m_nPort = 8888,
            m_uiProgram = 0, m_uiVersion = 1\<rparr>"
  have ip: "isValidIP ''10.0.0.7''" and nul: "CHR 0x00 \<notin> set ''10.0.0.7''"
    and port: "isValidPort 8888" and str: "to_string 8888 = ''8888''"
    by code_simp+
  have inv: "reg_inv [s]" using ip port by (simp add: reg_inv_def entry_ok_def s_def)
  have "listen_step [s] (''Deregister'' @ '';'' @ ''RPC'' @ '';'' @ ''10.0.0.7'' @ '';'' @ to_string 8888)
        = Inr (filter (\<lambda>s. server_key s \<noteq> (''10.0.0.7'', 8888)) [s], None)"
    by (rule listen_step_deregister [OF inv ip nul port]) simp_all
  then have "listen_step [s] ''Deregister;RPC;10.0.0.7;8888'' = Inr ([], None)"
    unfolding str by (simp add: server_key_def s_def)
  with inv show ?thesis by blast
qed

lemma getServerList_InrD:
  assumes "getServerList_loop f g acc = Inr reply" and "list_all entry_ok g"
  shows "reply = acc @ concat (map (server_entry f) (filter (\<lambda>s. m_rpcFormat s = f) g))"
  using assms
proof (induction g arbitrary: acc)
  case Nil
  then show ?case by simp
next
  case (Cons it its)
  show ?case
  proof (cases "m_rpcFormat it = f")
    case True
    with Cons.prems have "getServerList_loop f its (acc @ server_entry f it) = Inr reply"
      by (auto simp: result_simps strcpy_buf_def entry_chars split: if_splits)
    from Cons.IH [OF this] Cons.prems(2) True show ?thesis by simp
  next
    case False
    with Cons show ?thesis by simp
  qed
qed

lemma reply_tokens:
  assumes "reg_inv g" and "getServerList g f = Inr reply"
  shows "tokens '';'' reply =
         concat (map (entry_fields f) (filter (\<lambda>s. m_rpcFormat s = f) g))"
proof -
  let ?h = "filter (\<lambda>s. m_rpcFormat s = f) g"
  let ?s = "concat (map (server_entry f) ?h)"
  have ok: "list_all entry_ok g" using assms(1) by (simp add: reg_inv_def)
  then have okh: "list_all entry_ok ?h" by (auto simp: list_all_iff)
  obtain s where s: "getServerList_loop f g [] = Inr s" "reply = (if length s > 0 then butlast s else s)"
    using assms(2) by (auto simp: getServerList_def result_simps)
  from getServerList_InrD [OF s(1) ok] have s': "s = ?s" by simp
  show ?thesis
  proof (cases "?h = []")
    case True
    with s s' show ?thesis by simp
  next
    case False
    have "tokens '';'' (butlast ?s) = tokens '';'' ?s"
      using server_entries_last [OF False] by (intro tokens_butlast_delim) auto
    with s(2) s' server_entries_last [OF False] tokens_server_entries [OF okh] show ?thesis by simp
  qed
qed

text \<open>
  Whenever GetList answers, splitting the answer at \<open>;\<close> the way the peers do gives
  exactly the registered servers of the requested format, in registration order: address,
  program and version for RPC, address and port for RMI. Trimming the last \<open>;\<close> loses
  nothing.
\<close>

theorem getServerList_roundtrip:
  assumes "reg_inv g" and "getServerList g f = Inr reply"
  shows "tokens '';'' reply =
         concat (map (entry_fields f) (filter (\<lambda>s. m_rpcFormat s = f) g))"
  by (rule reply_tokens [OF assms])

theorem getServerList_roundtrip_witness:
  "\<exists>g reply. reg_inv g \<and> getServerList g RMI = Inr reply \<and> tokens '';'' reply = [''10.0.0.7'', ''5106'']"
proof -
  define s where "s = \<lparr>m_szIPAddress = ''10.0.0.7'', m_rpcFormat = RMI, m_nPort = 5106,
            m_uiProgram = 0, m_uiVersion = 0\<rparr>"
  have h: "isValidIP ''10.0.0.7''" "isValidPort 5106" "to_string 5106 = ''5106''"
    by code_simp+
  then have inv: "reg_inv [s]" by (simp add: reg_inv_def entry_ok_def s_def)
  have r: "getServerList [s] RMI = Inr ''10.0.0.7;5106''"
    by (simp add: getServerList_def s_def server_entry_def h strcpy_buf_def)
  show ?thesis
    using inv r getServerList_roundtrip [OF inv r]
    by (intro exI [of _ "[s]"] exI [of _ "''10.0.0.7;5106''"]) (simp add: s_def entry_fields_def h)
qed

text \<open>
  GetList for RPC servers is not safe: two messages with valid addresses and ports (a
  Register whose program and version print as eleven characters each, then GetList) make
  the 40-character entry overrun the 32-byte buffer \<open>szInfo\<close>.
\<close>

theorem getlist_overflow:
  "listen_run [] [Some ''Register;RPC;255.255.255.255;65535;2147483648;2147483648'',
                  Some ''GetList;RPC;255.255.255.255;65535''] = Inl BufferOverflow"
  by code_simp

lemma erase_at_drop: "i < length g \<Longrightarrow> take i (erase_iter i g) = take i g \<and> drop i (erase_iter i g) = drop (Suc i) g"
  by (simp add: erase_iter_def)

lemma find_iter_unique:
  assumes "distinct (map f xs)" "i < length xs"
  shows "find_iter (\<lambda>x. f x = f (xs ! i)) xs = Some i"
proof (cases "find_iter (\<lambda>x. f x = f (xs ! i)) xs")
  case None
  with assms(2) have "f (xs ! i) \<noteq> f (xs ! i)" unfolding find_iter_None using nth_mem by blast
  then show ?thesis by simp
next
  case (Some j)
  then have "j < length xs" "f (xs ! j) = f (xs ! i)" using find_iter_SomeD by blast+
  with assms have "j = i" by (metis distinct_conv_nth length_map nth_map)
  with Some show ?thesis by simp
qed

lemma heartBeat_round_from:
  assumes "distinct (map server_key g)" "i \<le> length g"
  shows "heartBeat_round recv g i ub =
     Inr (ub \<or> (\<exists>s\<in>set (drop i g). heartBeat_stray (recv s)) \<or> (i = 0 \<and> g \<noteq> [] \<and> recv (hd g) \<le> 0),
          take i g @ filter (\<lambda>s. recv s > 0) (drop i g))"
  using assms
proof (induction recv g i ub rule: heartBeat_round.induct)
  case (1 recv g i ub)
  show ?case
  proof (cases "i < length g")
    case False
    with 1 show ?thesis by (subst heartBeat_round.simps) auto
  next
    case True
    then have d: "drop i g = g ! i # drop (Suc i) g" by (simp add: Cons_nth_drop_Suc)
    have h: "i = 0 \<Longrightarrow> hd g = g ! i" using True by (simp add: hd_conv_nth)
    have f: "findServer g (m_szIPAddress (g ! i)) (m_nPort (g ! i)) = Some i"
      using find_iter_unique [OF "1.prems"(1) True] by (simp add: findServer_key server_key_def)
    let ?u = "ub \<or> heartBeat_stray (recv (g ! i))"
    show ?thesis
    proof (cases "recv (g ! i) > 0")
      case R: True
      have "heartBeat_round recv g (Suc i) ?u = Inr (?u \<or> (\<exists>s\<in>set (drop (Suc i) g). heartBeat_stray (recv s)),
          take (Suc i) g @ filter (\<lambda>s. recv s > 0) (drop (Suc i) g))"
        using "1.IH"(1) [OF True refl refl refl R] "1.prems" True by simp
      with R True d h show ?thesis
        by (subst heartBeat_round.simps) (auto simp add: take_Suc_conv_app_nth Let_def)
    next
      case R: False
      let ?g = "erase_iter i g"
      have "heartBeat_round recv ?g i (?u \<or> i = 0)
            = Inr ((?u \<or> i = 0) \<or> (\<exists>s\<in>set (drop i ?g). heartBeat_stray (recv s))
                    \<or> (i = 0 \<and> ?g \<noteq> [] \<and> recv (hd ?g) \<le> 0),
                take i ?g @ filter (\<lambda>s. recv s > 0) (drop i ?g))"
        using "1.IH"(2) [OF True refl refl refl R refl f refl] "1.prems" True
        by (simp add: distinct_map_erase_iter length_erase_iter)
      with True R d h f erase_at_drop [OF True] show ?thesis
        by (subst heartBeat_round.simps) (auto simp: Let_def)
    qed
  qed
qed

text \<open>
  One round of heartbeats removes exactly the servers that did not answer and keeps
  the others in order: erasing while iterating skips no entry and follows no dangling
  iterator, because keys are distinct. But a byte outside the receive array is written
  whenever some server fails to answer, and \<open>begin()\<close> is decremented when the first does.
\<close>

theorem heartBeat_round_filter:
  assumes "reg_inv g"
  shows "heartBeat_round recv g 0 False =
           Inr ((\<exists>s\<in>set g. recv s < 0 \<or> 32 \<le> recv s) \<or> (g \<noteq> [] \<and> recv (hd g) \<le> 0),
                filter (\<lambda>s. recv s > 0) g)
         \<and> reg_inv (filter (\<lambda>s. recv s > 0) g)"
  using assms heartBeat_round_from [of g 0 recv False]
  by (auto simp: reg_inv_def distinct_map_filter list_all_iff heartBeat_stray_def)

theorem heartBeat_round_filter_witness:
  "\<exists>g. reg_inv g \<and> length g = 1 \<and> heartBeat_round (\<lambda>_. - 1) g 0 False = Inr (True, [])"
proof -
  define s where "s = \<lparr>m_szIPAddress = ''10.0.0.7'', m_rpcFormat = RMI, m_nPort = 5106,
            m_uiProgram = 0, m_uiVersion = 0\<rparr>"
  have "isValidIP ''10.0.0.7''" "isValidPort 5106" by code_simp+
  then have inv: "reg_inv [s]" by (simp add: reg_inv_def entry_ok_def s_def)
  with heartBeat_round_filter [OF inv, of "\<lambda>_. - 1"] show ?thesis
    by (intro exI [of _ "[s]"]) simp
qed

text \<open>
  C26: any run of additions and removals of well-formed entries refines the same run over a
  set of (address, port) pairs: it never faults, keys stay distinct, and the keys in the
  list are exactly those of the abstract set.
\<close>

theorem registry_refines_set:
  assumes "distinct (map server_key g)"
    and "\<forall>e. Add e \<in> set cs \<longrightarrow> fits16 (m_szIPAddress e)"
  shows "\<exists>g'. run_cmds (\<lambda>e g. addServer g (m_szIPAddress e) (m_nPort e) (m_rpcFormat e)
                              (m_uiProgram e) (m_uiVersion e)) removeServer cs g = Inr g'
           \<and> distinct (map server_key g')
           \<and> server_key ` set g' = run_keys server_key cs (server_key ` set g)"
  using registry.run_refines [OF assms(1), of cs] assms(2) by (simp add: server_key_def)

theorem registry_refines_set_witness:
  "\<exists>g'. run_cmds (\<lambda>e g. addServer g (m_szIPAddress e) (m_nPort e) (m_rpcFormat e)
           (m_uiProgram e) (m_uiVersion e)) removeServer
          [Add \<lparr>m_szIPAddress = ''1.1.1.1'', m_rpcFormat = RMI, m_nPort = 2000, m_uiProgram = 0, m_uiVersion = 0\<rparr>,
           Remove ''1.1.1.1'' 2000] [] = Inr g' \<and> server_key ` set g' = {}"
  using registry_refines_set [of "[]"
      "[Add \<lparr>m_szIPAddress = ''1.1.1.1'', m_rpcFormat = RMI, m_nPort = 2000, m_uiProgram = 0, m_uiVersion = 0\<rparr>,
        Remove ''1.1.1.1'' 2000]"]
  by (simp add: fits16_def server_key_def)

end
