(* ===== verification/Process.thy ===== *)
theory Process
  imports Prelude
begin

text \<open>
  A process and its threads. The threads of each program share one object and the flag
  \<open>Is_live\<close>; a listener's loop waits for a datagram for some seconds and, when none came,
  goes on if the flag is set and ends the whole process if it is not. \<open>recv_event\<close> is what
  \<open>recvfrom\<close> returned, \<open>on_recv\<close> the head of such a loop, and \<open>run_events\<close> an
  interleaving of the threads' steps. The locale \<open>process\<close> is the contract of one step: it
  keeps an invariant and its faults are named; \<open>stoppable\<close> adds the flag. What holds of
  every run follows once for all programs, which interpret the locales.
\<close>

section \<open>Events and runs\<close>

datatype recv_event = Datagram string | Silence

definition on_recv :: "(string \<Rightarrow> 's \<Rightarrow> 's result) \<Rightarrow> int \<Rightarrow> bool \<Rightarrow> recv_event \<Rightarrow> 's \<Rightarrow> 's result" where
  "on_recv handle code live r s =
     (case r of Datagram d \<Rightarrow> handle d s | Silence \<Rightarrow> if live then Inr s else Inl (Exit code))"

fun run_events :: "('e \<Rightarrow> 's \<Rightarrow> 's result) \<Rightarrow> 'e list \<Rightarrow> 's \<Rightarrow> 's result" where
  "run_events step [] s = Inr s"
| "run_events step (e # es) s = bindE (step e s) (run_events step es)"

lemma on_recv_simps [simp]:
  "on_recv handle code live (Datagram d) s = handle d s"
  "on_recv handle code live Silence s = (if live then Inr s else Inl (Exit code))"
  by (simp_all add: on_recv_def)

lemma on_recv_Inr: "on_recv handle code live r s = Inr s' \<longleftrightarrow> r = Silence \<and> live \<and> s' = s \<or> (\<exists>d. r = Datagram d \<and> handle d s = Inr s')"
  by (cases r) auto

lemma on_recv_Inl:
  "on_recv handle code live r s = Inl f \<longleftrightarrow> r = Silence \<and> \<not> live \<and> f = Exit code \<or> (\<exists>d. r = Datagram d \<and> handle d s = Inl f)"
  by (cases r) auto

lemma run_events_append: "run_events step (es @ es') s = bindE (run_events step es s) (run_events step es')"
proof (induction es arbitrary: s)
  case (Cons e es)
  then have "run_events step (es @ es') = (\<lambda>x. bindE (run_events step es x) (run_events step es'))" by blast
  then show ?case by (simp add: bindE_assoc)
qed simp

lemma run_events_InrE:
  assumes "run_events step (es @ es') s = Inr s'"
  obtains s1 where "run_events step es s = Inr s1" "run_events step es' s1 = Inr s'"
  using assms by (auto simp: run_events_append bindE_Inr_iff)

text \<open>What every step does to a state, a run does when the relation is reflexive and transitive.\<close>

lemma run_events_rel:
  assumes "reflp R" "transp R" "\<And>e s s'. step e s = Inr s' \<Longrightarrow> R s s'"
  shows "run_events step es s = Inr s' \<Longrightarrow> R s s'"
proof (induction es arbitrary: s)
  case Nil
  then show ?case using assms(1) by (simp add: reflpD)
next
  case (Cons e es)
  then obtain s1 where "step e s = Inr s1" "run_events step es s1 = Inr s'" by (auto simp: bindE_Inr_iff)
  then show ?case using Cons.IH assms(3) transpD [OF assms(2)] by blast
qed

section \<open>The contract of a step\<close>

locale process =
  fixes step :: "'e \<Rightarrow> 's \<Rightarrow> 's result"
    and inv :: "'s \<Rightarrow> bool"
    and may_end :: "'e \<Rightarrow> 's \<Rightarrow> fault \<Rightarrow> bool"
  assumes step_keeps: "inv s \<Longrightarrow> step e s = Inr s' \<Longrightarrow> inv s'"
    and step_ends: "inv s \<Longrightarrow> step e s = Inl f \<Longrightarrow> may_end e s f"
begin

lemma run_keeps: "inv s \<Longrightarrow> run_events step es s = Inr s' \<Longrightarrow> inv s'"
  by (induction es arbitrary: s) (auto simp: bindE_Inr_iff intro: step_keeps)

text \<open>A run that ends, ends at an event whose fault is among the named ones.\<close>

lemma run_ends:
  "inv s \<Longrightarrow> run_events step es s = Inl f \<Longrightarrow>
   \<exists>es1 e es2 s1. es = es1 @ e # es2 \<and> run_events step es1 s = Inr s1 \<and> inv s1 \<and> step e s1 = Inl f \<and> may_end e s1 f"
proof (induction es arbitrary: s)
  case (Cons e es)
  show ?case
  proof (cases "step e s")
    case (Inl f')
    then show ?thesis using Cons.prems step_ends [OF Cons.prems(1) Inl]
      by (intro exI [of _ "[]"] exI [of _ e] exI [of _ es] exI [of _ s]) simp
  next
    case (Inr s1)
    then obtain es1 e' es2 s2 where "es = es1 @ e' # es2" "run_events step es1 s1 = Inr s2" "inv s2"
        "step e' s2 = Inl f" "may_end e' s2 f"
      using Cons.IH [of s1] Cons.prems step_keeps [OF Cons.prems(1) Inr] by auto
    with Inr show ?thesis by (intro exI [of _ "e # es1"] exI [of _ e'] exI [of _ es2] exI [of _ s2]) simp
  qed
qed simp

end

text \<open>
  The flag \<open>Is_live\<close>: only the events \<open>stop\<close> put it down, nothing raises it again, and a
  listener to which nothing is sent while it is down ends the process with the exit code of
  its loop.
\<close>

locale stoppable = process +
  fixes live :: "'s \<Rightarrow> bool"
    and stop :: "'e \<Rightarrow> bool"
    and silent :: "'e \<Rightarrow> bool"
    and code :: int
  assumes flag: "inv s \<Longrightarrow> step e s = Inr s' \<Longrightarrow> live s' \<longleftrightarrow> live s \<and> \<not> stop e"
    and on_silence: "inv s \<Longrightarrow> silent e \<Longrightarrow> step e s = (if live s then Inr s else Inl (Exit code))"
begin

lemma run_flag: "inv s \<Longrightarrow> run_events step es s = Inr s' \<Longrightarrow> live s' \<longleftrightarrow> live s \<and> (\<forall>e\<in>set es. \<not> stop e)"
proof (induction es arbitrary: s)
  case (Cons e es)
  then obtain s1 where "step e s = Inr s1" "run_events step es s1 = Inr s'" by (auto simp: bindE_Inr_iff)
  then show ?case using Cons.IH [of s1] Cons.prems(1) step_keeps [of s e s1] flag [of s e s1] by auto
qed simp

text \<open>Once the flag is down no listener outlives a silence.\<close>

lemma stops:
  assumes "inv s" "\<not> live s" "e \<in> set es" "silent e"
  shows "\<exists>f. run_events step es s = Inl f"
proof -
  obtain es1 es2 where es: "es = es1 @ e # es2" using assms(3) by (meson split_list)
  show ?thesis
  proof (cases "run_events step es1 s")
    case (Inr s1)
    then have "inv s1" "\<not> live s1" using run_keeps run_flag assms(1,2) by blast+
    then show ?thesis using Inr on_silence [OF _ assms(4), of s1] by (simp add: es run_events_append)
  qed (simp add: es run_events_append)
qed

lemma stopped_run_hears:
  assumes "inv s" "run_events step (es1 @ e # es2) s = Inr s'" "stop e"
  shows "\<not> (\<exists>e'\<in>set es2. silent e')"
proof
  obtain s1 s2 where s: "run_events step es1 s = Inr s1" "step e s1 = Inr s2" "run_events step es2 s2 = Inr s'"
    using assms(2) by (auto simp: run_events_append bindE_Inr_iff)
  have i: "inv s1" "inv s2" using run_keeps [OF assms(1) s(1)] step_keeps [OF _ s(2)] by blast+
  have "\<not> live s2" using flag [OF i(1) s(2)] assms(3) by blast
  moreover assume "\<exists>e'\<in>set es2. silent e'"
  ultimately show False using stops [OF i(2)] s(3) by fastforce
qed

text \<open>
  The outcome of a run. One that is still going keeps the invariant, is live exactly when
  nothing stopped it, and was silent at no listener after it was stopped. One that ended did
  so at one event: a silence, with the exit code, after it was stopped, or a named fault.
\<close>

definition outcome :: "'e list \<Rightarrow> 's \<Rightarrow> 's result \<Rightarrow> bool" where
  "outcome es s r \<longleftrightarrow>
     (case r of
        Inr s' \<Rightarrow> inv s' \<and> (live s' \<longleftrightarrow> (\<forall>e\<in>set es. \<not> stop e))
          \<and> (\<forall>es1 e es2. es = es1 @ e # es2 \<and> stop e \<longrightarrow> \<not> (\<exists>e'\<in>set es2. silent e'))
      | Inl f \<Rightarrow> \<exists>es1 e es2 s1. es = es1 @ e # es2 \<and> run_events step es1 s = Inr s1 \<and> inv s1
          \<and> (if silent e then f = Exit code \<and> (\<exists>e'\<in>set es1. stop e') else may_end e s1 f))"

lemma run_outcome:
  assumes "inv s" "live s"
  shows "outcome es s (run_events step es s)"
proof (cases "run_events step es s")
  case (Inr s')
  then show ?thesis
    using run_keeps [OF assms(1)] run_flag [OF assms(1)] stopped_run_hears [OF assms(1)] assms(2)
    by (auto simp: outcome_def)
next
  case (Inl f)
  then obtain es1 e es2 s1 where r: "es = es1 @ e # es2" "run_events step es1 s = Inr s1" "inv s1" "step e s1 = Inl f" "may_end e s1 f"
    using run_ends [OF assms(1)] by blast
  then have "f = Exit code \<and> (\<exists>e'\<in>set es1. stop e')" if "silent e"
    using on_silence [OF r(3) that] run_flag [OF assms(1) r(2)] assms(2) by (auto split: if_splits)
  with Inl r show ?thesis unfolding outcome_def by auto
qed

end

end
