(* ===== verification/RegistryProcess.thy ===== *)
theory RegistryProcess
  imports Registry Process
begin

text \<open>
  The registry as a process (Project1/Registry/super_server.cpp): the listener, the
  heartbeat and the console of \<open>main\<close> as threads on \<open>g_serverList\<close>. The registry has no
  \<open>Is_live\<close>: its listener ends only when \<open>recvfrom\<close> fails, its heartbeat never.
\<close>

section \<open>The console\<close>

text \<open>\<open>showServerList\<close>: the RPC servers, then the RMI servers, each numbered from 1.\<close>

fun rpc_rows :: "nat \<Rightarrow> SServerInfo list \<Rightarrow> string list" where
  "rpc_rows n [] = []"
| "rpc_rows n (it # its) =
     (if m_rpcFormat it = RPC
      then (''-- '' @ to_string (int n + 1) @ ''. '' @ m_szIPAddress it @ '':'' @ to_string (m_nPort it)
            @ '' Program : '' @ to_string (uint (m_uiProgram it)) @ '' Ver : '' @ to_string (uint (m_uiVersion it)))
           # rpc_rows (Suc n) its
      else rpc_rows n its)"

fun rmi_rows :: "nat \<Rightarrow> SServerInfo list \<Rightarrow> string list" where
  "rmi_rows n [] = []"
| "rmi_rows n (it # its) =
     (if m_rpcFormat it = RMI
      then (''-- '' @ to_string (int n + 1) @ ''. '' @ m_szIPAddress it @ '':'' @ to_string (m_nPort it)
            @ '' Port : '' @ to_string (m_nPort it)) # rmi_rows (Suc n) its
      else rmi_rows n its)"

definition showServerList :: "SServerInfo list \<Rightarrow> string list" where
  "showServerList g =
     (let line = replicate 42 (CHR ''-''); none = (\<lambda>rows. if rows = [] then [''-- none''] else rows)
      in [line, ''-- RPC List ''] @ none (rpc_rows 0 g) @ [line, ''-- RMI List ''] @ none (rmi_rows 0 g) @ [line])"

text \<open>
  The threads' state. \<open>rg_listening\<close> and \<open>rg_beating\<close> say whether the listener and the
  heartbeat still run, \<open>rg_console\<close> whether \<open>main\<close> still reads lines or waits for them.
  \<open>rg_replies\<close> are the answers sent, \<open>rg_stray\<close> that a heartbeat wrote outside its array.
\<close>

record registry_process =
  rg_list :: "SServerInfo list"
  rg_listening :: bool
  rg_console :: bool
  rg_stray :: bool
  rg_replies :: "string list"
  rg_shell :: "string list"
  rg_screen :: "string list"

definition registry_console :: "string \<Rightarrow> registry_process \<Rightarrow> registry_process" where
  "registry_console szUserInput r =
     (if szUserInput = ''list'' then r\<lparr>rg_screen := rg_screen r @ showServerList (rg_list r)\<rparr>
      else if szUserInput = ''exit'' then r\<lparr>rg_console := False\<rparr>
      else r\<lparr>rg_shell := rg_shell r @ [szUserInput]\<rparr>)"

definition registry_main :: registry_process where
  "registry_main = \<lparr>rg_list = [], rg_listening = True, rg_console = True, rg_stray = False,
     rg_replies = [], rg_shell = [], rg_screen = []\<rparr>"

text \<open>
  \<open>Received\<close> is what \<open>recvfrom\<close> gave the listener, \<open>None\<close> its failure; \<open>Round\<close> a round of
  heartbeats with what each server's call returns. \<open>main\<close> returns when it waits and both
  threads have ended.
\<close>

datatype registry_event = Received "string option" | Round "SServerInfo \<Rightarrow> int" | Line string

fun registry_step :: "registry_event \<Rightarrow> registry_process \<Rightarrow> registry_process result" where
  "registry_step (Received None) r = Inr (if rg_listening r then r\<lparr>rg_listening := False, rg_list := []\<rparr> else r)"
| "registry_step (Received (Some d)) r =
     (if rg_listening r
      then bindE (listen_step (rg_list r) d) (\<lambda>(g, reply).
             Inr (r\<lparr>rg_list := g, rg_replies := rg_replies r @ (case reply of None \<Rightarrow> [] | Some m \<Rightarrow> [m])\<rparr>))
      else Inr r)"
| "registry_step (Round recv) r =
     bindE (heartBeat_round recv (rg_list r) 0 False) (\<lambda>(ub, g).
       Inr (r\<lparr>rg_list := g, rg_stray := rg_stray r \<or> ub\<rparr>))"
| "registry_step (Line szUserInput) r = Inr (if rg_console r then registry_console szUserInput r else r)"

section \<open>Runs\<close>

definition registry_inv :: "registry_process \<Rightarrow> bool" where
  "registry_inv r \<longleftrightarrow> reg_inv (rg_list r)"

definition registry_may_end :: "registry_event \<Rightarrow> registry_process \<Rightarrow> fault \<Rightarrow> bool" where
  "registry_may_end e r f \<longleftrightarrow> f = BufferOverflow \<and> (\<exists>d. e = Received (Some d)) \<and> rg_listening r
     \<and> (\<exists>s\<in>set (rg_list r). m_rpcFormat s = RPC \<and> 32 \<le> length (server_entry RPC s))"

lemma reg_inv_Nil: "reg_inv []"
  by (simp add: reg_inv_def)

lemma Round_eq:
  "reg_inv (rg_list r) \<Longrightarrow> \<exists>r'. registry_step (Round recv) r = Inr r' \<and> rg_list r' = filter (\<lambda>s. recv s > 0) (rg_list r)
     \<and> reg_inv (filter (\<lambda>s. recv s > 0) (rg_list r))"
  using heartBeat_round_filter [of "rg_list r" recv] by simp

lemma registry_step_inv:
  assumes "registry_inv r"
  shows "registry_step e r = Inr r' \<Longrightarrow> registry_inv r'" "registry_step e r = Inl f \<Longrightarrow> registry_may_end e r f"
proof -
  note I = assms [unfolded registry_inv_def]
  have l: "case listen_step (rg_list r) d of Inr (g', reply) \<Rightarrow> reg_inv g'
     | Inl e \<Rightarrow> e = BufferOverflow \<and> (\<exists>s\<in>set (rg_list r). m_rpcFormat s = RPC \<and> 32 \<le> length (server_entry RPC s))" for d
    by (rule listen_step_invariant [OF I])
  show "registry_step e r = Inr r' \<Longrightarrow> registry_inv r'"
  proof (cases "(e, r)" rule: registry_step.cases)
    case (2 d r1)
    then show "registry_step e r = Inr r' \<Longrightarrow> registry_inv r'"
      using l [of d] I by (auto simp: registry_inv_def bindE_Inr_iff split: if_splits sum.splits)
  next
    case (3 recv r1)
    then show "registry_step e r = Inr r' \<Longrightarrow> registry_inv r'"
      using Round_eq [OF I, of recv] by (auto simp: registry_inv_def)
  qed (use I in \<open>auto simp: registry_inv_def registry_console_def reg_inv_Nil\<close>)
  show "registry_step e r = Inl f \<Longrightarrow> registry_may_end e r f"
  proof (cases "(e, r)" rule: registry_step.cases)
    case (2 d r1)
    then show "registry_step e r = Inl f \<Longrightarrow> registry_may_end e r f"
      using l [of d] by (auto simp: registry_may_end_def bindE_Inl_iff split: if_splits sum.splits)
  next
    case (3 recv r1)
    then show "registry_step e r = Inl f \<Longrightarrow> registry_may_end e r f" using Round_eq [OF I, of recv] by auto
  qed auto
qed

interpretation registry_threads: process registry_step registry_inv registry_may_end
  by unfold_locales (auto dest: registry_step_inv)

text \<open>The console touches nothing the other threads use.\<close>

definition is_line :: "registry_event \<Rightarrow> bool" where
  "is_line e \<longleftrightarrow> (\<exists>l. e = Line l)"

definition same_service :: "registry_process \<Rightarrow> registry_process \<Rightarrow> bool" where
  "same_service r r' \<longleftrightarrow> rg_list r' = rg_list r \<and> rg_listening r' = rg_listening r \<and> rg_replies r' = rg_replies r"

lemma same_service_step:
  assumes "same_service r1 r2" "registry_step e r1 = Inr r1'"
  shows "if is_line e then same_service r1' r2 else \<exists>r2'. registry_step e r2 = Inr r2' \<and> same_service r1' r2'"
  using assms
  by (cases "(e, r1)" rule: registry_step.cases)
    (auto simp: is_line_def same_service_def registry_console_def bindE_Inr_iff split: if_splits)

lemma same_service_run:
  "same_service r1 r2 \<Longrightarrow> run_events registry_step es r1 = Inr r1' \<Longrightarrow>
   \<exists>r2'. run_events registry_step (filter (\<lambda>e. \<not> is_line e) es) r2 = Inr r2' \<and> same_service r1' r2'"
proof (induction es arbitrary: r1 r2)
  case (Cons e es)
  then obtain r where r: "registry_step e r1 = Inr r" "run_events registry_step es r = Inr r1'" by (auto simp: bindE_Inr_iff)
  show ?case using same_service_step [OF Cons.prems(1) r(1)] Cons.IH [OF _ r(2)] by (auto split: if_splits)
qed simp



end
