(* ===== verification/PubSubServer.thy ===== *)
theory PubSubServer
  imports CLib
begin

text \<open>
  The PubSub group server's remote procedures (Project1/Server/communicate_server.c) and the
  dispatcher that calls them (\<open>communicate_prog_1\<close> of communicate_svc.c): the clients that
  joined, their filters, and the datagrams sent to them. A procedure returns 0 (\<open>False\<close>)
  on success and 1 (\<open>True\<close>) on refusal. \<open>resolve\<close> says of which addresses
  \<open>gethostbyname\<close> knows the host; for another one it returns NULL, which \<open>unicast\<close>
  follows. The dispatcher is given what \<open>svc_getargs\<close> decoded, \<open>None\<close> when that failed;
  the marshalling is in RpcStubs.
\<close>

section \<open>Data\<close>

record PSClient =
  psc_IP :: string
  psc_Port :: int
  psc_filter :: "string list"

record ps_server =
  g_clientList :: "PSClient list"
  ps_out :: "(string \<times> int \<times> string) list"

abbreviation MAXCLIENT :: nat where "MAXCLIENT \<equiv> 5"

section \<open>The procedures\<close>

definition find_client :: "string \<Rightarrow> int \<Rightarrow> PSClient list \<Rightarrow> nat option" where
  "find_client strIPAddress nPort g = find_iter (\<lambda>it. strIPAddress = psc_IP it \<and> nPort = psc_Port it) g"

definition join_1_svc :: "string \<Rightarrow> int \<Rightarrow> ps_server \<Rightarrow> (bool \<times> ps_server) result" where
  "join_1_svc IP Port s =
     (if length (g_clientList s) \<ge> MAXCLIENT then Inr (True, s)
      else if find_client (cstr IP) Port (g_clientList s) = None then
        bindE (strcpy_buf 16 IP) (\<lambda>ip.
          Inr (False, s\<lparr>g_clientList := g_clientList s @ [\<lparr>psc_IP = ip, psc_Port = Port, psc_filter = []\<rparr>]\<rparr>))
      else Inr (True, s))"

definition leave_1_svc :: "string \<Rightarrow> int \<Rightarrow> ps_server \<Rightarrow> bool \<times> ps_server" where
  "leave_1_svc IP Port s =
     (case find_client (cstr IP) Port (g_clientList s) of
        None \<Rightarrow> (True, s)
      | Some To_be_delete \<Rightarrow> (False, s\<lparr>g_clientList := erase_iter To_be_delete (g_clientList s)\<rparr>))"

definition subscribe_1_svc :: "string \<Rightarrow> int \<Rightarrow> string \<Rightarrow> ps_server \<Rightarrow> bool \<times> ps_server" where
  "subscribe_1_svc IP Port Article s =
     (let article = cstr Article in
      if count_list article (CHR '';'') \<noteq> 3 then (True, s)
      else case find_client (cstr IP) Port (g_clientList s) of
        None \<Rightarrow> (True, s)
      | Some it \<Rightarrow>
          (let c = g_clientList s ! it in
           if find_iter (\<lambda>f. f = article) (psc_filter c) \<noteq> None then (True, s)
           else (False, s\<lparr>g_clientList := (g_clientList s)[it := c\<lparr>psc_filter := psc_filter c @ [article]\<rparr>]\<rparr>)))"

definition unsubscribe_1_svc :: "string \<Rightarrow> int \<Rightarrow> string \<Rightarrow> ps_server \<Rightarrow> bool \<times> ps_server" where
  "unsubscribe_1_svc IP Port Article s =
     (let article = cstr Article in
      if count_list article (CHR '';'') \<noteq> 3 then (True, s)
      else case find_client (cstr IP) Port (g_clientList s) of
        None \<Rightarrow> (True, s)
      | Some it \<Rightarrow>
          (let c = g_clientList s ! it in
           case find_iter (\<lambda>f. f = article) (psc_filter c) of
             None \<Rightarrow> (False, s)
           | Some f_it \<Rightarrow> (False, s\<lparr>g_clientList := (g_clientList s)[it := c\<lparr>psc_filter := erase_iter f_it (psc_filter c)\<rparr>]\<rparr>)))"

text \<open>
  \<open>while (getline(ss, item, ';'))\<close>: the fields, without a last one that is empty; and the
  copy of the items into \<open>string buffer[4]\<close>.
\<close>

definition getline_items :: "char \<Rightarrow> string \<Rightarrow> string list" where
  "getline_items d s = (let fs = split_on d s in if last fs = [] then butlast fs else fs)"

definition fill_buffer :: "string list \<Rightarrow> string list result" where
  "fill_buffer items =
     (if length items \<le> 4 then Inr (items @ replicate (4 - length items) []) else Inl OutOfBounds)"

text \<open>The loop over \<open>j\<close>, with the two flags.\<close>

fun match_loop :: "string list \<Rightarrow> string list \<Rightarrow> bool \<Rightarrow> bool \<Rightarrow> bool \<times> bool" where
  "match_loop (f # fs) (b # bs) filter_match all_match =
     (if f = [] then match_loop fs bs filter_match all_match
      else if f = b then match_loop fs bs True all_match
      else match_loop fs bs filter_match False)"
| "match_loop _ _ filter_match all_match = (filter_match, all_match)"

fun filters_loop :: "string list \<Rightarrow> string list \<Rightarrow> bool result" where
  "filters_loop buffer [] = Inr False"
| "filters_loop buffer (f_article # fs) =
     bindE (fill_buffer (getline_items (CHR '';'') f_article)) (\<lambda>f_buffer.
       case match_loop f_buffer buffer False True of (filter_match, all_match) \<Rightarrow>
         if filter_match \<and> all_match then Inr True else filters_loop buffer fs)"

definition unicast :: "(string \<Rightarrow> bool) \<Rightarrow> PSClient \<Rightarrow> string \<Rightarrow> (string \<times> int \<times> string) result" where
  "unicast resolve it article =
     (if resolve (psc_IP it) then Inr (psc_IP it, psc_Port it mod 65536, article) else Inl OutOfBounds)"

fun clients_loop ::
  "(string \<Rightarrow> bool) \<Rightarrow> string \<Rightarrow> string list \<Rightarrow> PSClient list \<Rightarrow> (string \<times> int \<times> string) list result" where
  "clients_loop resolve article buffer [] = Inr []"
| "clients_loop resolve article buffer (it # its) =
     bindE (filters_loop buffer (psc_filter it)) (\<lambda>m.
       if m then bindE (unicast resolve it article) (\<lambda>p.
              bindE (clients_loop resolve article buffer its) (\<lambda>ps. Inr (p # ps)))
       else clients_loop resolve article buffer its)"

definition publish_1_svc :: "(string \<Rightarrow> bool) \<Rightarrow> string \<Rightarrow> string \<Rightarrow> int \<Rightarrow> ps_server \<Rightarrow> (bool \<times> ps_server) result" where
  "publish_1_svc resolve Article IP Port s =
     (let article = cstr Article in
      if count_list article (CHR '';'') \<noteq> 3 then Inr (True, s)
      else bindE (fill_buffer (getline_items (CHR '';'') article)) (\<lambda>buffer.
        bindE (clients_loop resolve article buffer (g_clientList s)) (\<lambda>ps.
          Inr (False, s\<lparr>ps_out := ps_out s @ ps\<rparr>))))"

definition ping_1_svc :: "ps_server \<Rightarrow> bool \<times> ps_server" where
  "ping_1_svc s = (False, s)"

section \<open>The dispatcher\<close>

record ps_argument =
  arg_IP :: string
  arg_Port :: int
  arg_Article :: string

datatype ps_reply = Reply_void | Reply_bool bool | Err_noproc | Err_decode

definition communicate_prog_1 ::
  "(string \<Rightarrow> bool) \<Rightarrow> nat \<Rightarrow> ps_argument option \<Rightarrow> ps_server \<Rightarrow> (ps_reply \<times> ps_server) result" where
  "communicate_prog_1 resolve rq_proc argument s =
     (if rq_proc = 0 then Inr (Reply_void, s)
      else if rq_proc > 6 then Inr (Err_noproc, s)
      else case argument of None \<Rightarrow> Inr (Err_decode, s)
      | Some a \<Rightarrow>
          bindE (if rq_proc = 1 then join_1_svc (arg_IP a) (arg_Port a) s
                 else if rq_proc = 2 then Inr (leave_1_svc (arg_IP a) (arg_Port a) s)
                 else if rq_proc = 3 then Inr (subscribe_1_svc (arg_IP a) (arg_Port a) (arg_Article a) s)
                 else if rq_proc = 4 then Inr (unsubscribe_1_svc (arg_IP a) (arg_Port a) (arg_Article a) s)
                 else if rq_proc = 5 then publish_1_svc resolve (arg_Article a) (arg_IP a) (arg_Port a) s
                 else Inr (ping_1_svc s))
            (\<lambda>(result, s'). Inr (Reply_bool result, s')))"

section \<open>What a filter matches\<close>

text \<open>
  The filter's fields that are not empty are the article's, and there is one. The
  article's fields are those between the separators.
\<close>

definition article_matches :: "string \<Rightarrow> string \<Rightarrow> bool" where
  "article_matches f a \<longleftrightarrow>
     (\<exists>x\<in>set (split_on (CHR '';'') f). x \<noteq> [])
     \<and> list_all2 (\<lambda>x y. x \<noteq> [] \<longrightarrow> x = y) (split_on (CHR '';'') f) (split_on (CHR '';'') a)"

definition article_ok :: "string \<Rightarrow> bool" where
  "article_ok a \<longleftrightarrow> count_list a (CHR '';'') = 3 \<and> CHR 0x00 \<notin> set a"

lemma fill_buffer_fields:
  assumes "count_list a (CHR '';'') = 3"
  shows "fill_buffer (getline_items (CHR '';'') a) = Inr (split_on (CHR '';'') a)"
proof -
  have l: "length (split_on (CHR '';'') a) = 4" using assms by (simp add: length_split_on)
  then obtain xs x where fs: "split_on (CHR '';'') a = xs @ [x]" by (metis rev_exhaust split_on_not_Nil)
  show ?thesis using l by (simp add: fill_buffer_def getline_items_def Let_def fs)
qed

lemma match_loop_eq:
  "length fs = length bs \<Longrightarrow> match_loop fs bs fm am =
     (fm \<or> (\<exists>(f, b)\<in>set (zip fs bs). f \<noteq> [] \<and> f = b), am \<and> list_all2 (\<lambda>x y. x \<noteq> [] \<longrightarrow> x = y) fs bs)"
  by (induction fs bs arbitrary: fm am rule: list_induct2) auto

lemma match_loop_matches:
  assumes "count_list f (CHR '';'') = 3" "count_list a (CHR '';'') = 3"
  shows "(case match_loop (split_on (CHR '';'') f) (split_on (CHR '';'') a) False True of (fm, am) \<Rightarrow> fm \<and> am)
     = article_matches f a"
proof -
  have l: "length (split_on (CHR '';'') f) = length (split_on (CHR '';'') a)"
    using assms by (simp add: length_split_on)
  have *: "(\<exists>(x, y)\<in>set (zip fs bs). x \<noteq> [] \<and> x = y) \<longleftrightarrow> (\<exists>x\<in>set fs. x \<noteq> [])"
    if "list_all2 (\<lambda>x y. x \<noteq> [] \<longrightarrow> x = y) fs bs" for fs bs :: "string list"
    using that by (induction rule: list_all2_induct) auto
  show ?thesis
    using * [of "split_on (CHR '';'') f" "split_on (CHR '';'') a"]
    by (auto simp: match_loop_eq [OF l] article_matches_def simp del: split_paired_Ex)
qed

lemma filters_loop_eq:
  "\<forall>f\<in>set fs. count_list f (CHR '';'') = 3 \<Longrightarrow> count_list a (CHR '';'') = 3 \<Longrightarrow>
   filters_loop (split_on (CHR '';'') a) fs = Inr (\<exists>f\<in>set fs. article_matches f a)"
proof (induction fs)
  case Nil
  then show ?case by simp
next
  case (Cons f fs)
  then show ?case
    using match_loop_matches [of f a] by (auto simp: fill_buffer_fields split: prod.splits)
qed

definition wants :: "string \<Rightarrow> PSClient \<Rightarrow> bool" where
  "wants a c \<longleftrightarrow> (\<exists>f\<in>set (psc_filter c). article_matches f a)"

lemma clients_loop_eq:
  "\<forall>c\<in>set cs. \<forall>f\<in>set (psc_filter c). count_list f (CHR '';'') = 3 \<Longrightarrow> count_list a (CHR '';'') = 3 \<Longrightarrow>
   \<forall>c\<in>set cs. wants a c \<longrightarrow> resolve (psc_IP c) \<Longrightarrow>
   clients_loop resolve a (split_on (CHR '';'') a) cs
     = Inr (map (\<lambda>c. (psc_IP c, psc_Port c mod 65536, a)) (filter (wants a) cs))"
  by (induction cs) (auto simp: filters_loop_eq unicast_def wants_def)

lemma clients_loop_fault:
  "\<forall>c\<in>set cs. \<forall>f\<in>set (psc_filter c). count_list f (CHR '';'') = 3 \<Longrightarrow> count_list a (CHR '';'') = 3 \<Longrightarrow>
   clients_loop resolve a (split_on (CHR '';'') a) cs = Inl e \<Longrightarrow>
   e = OutOfBounds \<and> (\<exists>c\<in>set cs. wants a c \<and> \<not> resolve (psc_IP c))"
  by (induction cs) (auto simp: filters_loop_eq unicast_def wants_def result_simps split: if_splits)

section \<open>The table of clients\<close>

abbreviation psc_key :: "PSClient \<Rightarrow> string \<times> int" where
  "psc_key c \<equiv> (psc_IP c, psc_Port c)"

definition psc_ok :: "PSClient \<Rightarrow> bool" where
  "psc_ok c \<longleftrightarrow> length (psc_IP c) < 16 \<and> CHR 0x00 \<notin> set (psc_IP c)
     \<and> distinct (psc_filter c) \<and> list_all article_ok (psc_filter c)"

definition ps_inv :: "ps_server \<Rightarrow> bool" where
  "ps_inv s \<longleftrightarrow> length (g_clientList s) \<le> MAXCLIENT \<and> distinct (map psc_key (g_clientList s))
     \<and> list_all psc_ok (g_clientList s)"

lemma find_client_None: "find_client ip p g = None \<longleftrightarrow> (ip, p) \<notin> psc_key ` set g"
  by (auto simp: find_client_def find_iter_None)

lemma find_client_key: "find_client ip p g = find_iter (\<lambda>c. psc_key c = (ip, p)) g"
  unfolding find_client_def by (rule arg_cong [where f = "\<lambda>P. find_iter P g"]) auto

lemma find_client_SomeD: "find_client ip p g = Some i \<Longrightarrow> i < length g \<and> psc_key (g ! i) = (ip, p)"
  unfolding find_client_key by (blast dest: find_iter_SomeD)

lemma leave_eq:
  "distinct (map psc_key (g_clientList s)) \<Longrightarrow> leave_1_svc IP Port s =
     ((cstr IP, Port) \<notin> psc_key ` set (g_clientList s),
      s\<lparr>g_clientList := filter (\<lambda>c. psc_key c \<noteq> (cstr IP, Port)) (g_clientList s)\<rparr>)"
proof -
  assume d: "distinct (map psc_key (g_clientList s))"
  have f: "(case find_client (cstr IP) Port (g_clientList s) of None \<Rightarrow> g_clientList s | Some i \<Rightarrow> erase_iter i (g_clientList s))
      = filter (\<lambda>c. psc_key c \<noteq> (cstr IP, Port)) (g_clientList s)"
    unfolding find_client_key by (rule erase_find_iter_filter [OF d])
  show ?thesis
    using f find_client_None [of "cstr IP" Port "g_clientList s"]
    by (cases "find_client (cstr IP) Port (g_clientList s)") (simp_all add: leave_1_svc_def)
qed

text \<open>The entries after one of them got new filters.\<close>

lemma set_filter_ok:
  assumes "ps_inv s" "find_client ip p (g_clientList s) = Some i"
    and "distinct fs" "list_all article_ok fs"
  shows "ps_inv (s\<lparr>g_clientList := (g_clientList s)[i := (g_clientList s ! i)\<lparr>psc_filter := fs\<rparr>]\<rparr>)"
proof -
  let ?g = "g_clientList s" and ?g' = "(g_clientList s)[i := (g_clientList s ! i)\<lparr>psc_filter := fs\<rparr>]"
  have i: "i < length ?g" using find_client_SomeD [OF assms(2)] by simp
  have k: "map psc_key ?g' = map psc_key ?g" using i by (simp add: map_update list_update_same_conv)
  have "list_all psc_ok ?g'"
    using assms i by (auto simp: ps_inv_def list_all_iff psc_ok_def dest!: subsetD [OF set_update_subset_insert])
  then show ?thesis using assms(1) k by (simp add: ps_inv_def)
qed

lemma leave_inv: "ps_inv s \<Longrightarrow> ps_inv (snd (leave_1_svc IP Port s))"
  using length_filter_le [of "\<lambda>c. psc_key c \<noteq> (cstr IP, Port)" "g_clientList s"]
  by (auto simp: ps_inv_def leave_eq distinct_map_filter list_all_iff simp del: length_filter_le)

lemma join_inv:
  assumes "ps_inv s"
  shows "case join_1_svc IP Port s of Inl e \<Rightarrow> e = BufferOverflow \<and> 16 \<le> length (cstr IP) | Inr (r, s') \<Rightarrow> ps_inv s'"
  using assms by (auto simp: join_1_svc_def strcpy_buf_def ps_inv_def psc_ok_def find_client_None)

lemma nth_client_ok: "ps_inv s \<Longrightarrow> find_client ip p (g_clientList s) = Some i \<Longrightarrow> psc_ok (g_clientList s ! i)"
  using find_client_SomeD [of ip p "g_clientList s" i] by (auto simp: ps_inv_def list_all_iff)

lemma subscribe_inv: "ps_inv s \<Longrightarrow> ps_inv (snd (subscribe_1_svc IP Port Article s))"
  using nth_client_ok [of s "cstr IP" Port]
  by (auto simp: subscribe_1_svc_def Let_def find_iter_None psc_ok_def article_ok_def
      intro!: set_filter_ok split: option.split)

lemma set_erase_ok: "list_all P xs \<Longrightarrow> list_all P (erase_iter i xs)"
  using set_erase_iter_subset by (fastforce simp: list_all_iff)

lemma unsubscribe_inv: "ps_inv s \<Longrightarrow> ps_inv (snd (unsubscribe_1_svc IP Port Article s))"
  using nth_client_ok [of s "cstr IP" Port] distinct_map_erase_iter [of id]
  by (auto simp: unsubscribe_1_svc_def Let_def psc_ok_def intro!: set_filter_ok set_erase_ok split: option.split)

lemma publish_cases:
  assumes "ps_inv s"
  shows "case publish_1_svc resolve Article IP Port s of
      Inl e \<Rightarrow> e = OutOfBounds \<and> (\<exists>c\<in>set (g_clientList s). wants (cstr Article) c \<and> \<not> resolve (psc_IP c))
    | Inr (r, s') \<Rightarrow> g_clientList s' = g_clientList s"
proof -
  have f: "\<forall>c\<in>set (g_clientList s). \<forall>f\<in>set (psc_filter c). count_list f (CHR '';'') = 3"
    using assms by (auto simp: ps_inv_def list_all_iff psc_ok_def article_ok_def)
  show ?thesis
    using clients_loop_fault [OF f, of "cstr Article" resolve]
    by (auto simp: publish_1_svc_def Let_def fill_buffer_fields result_simps split: sum.split)
qed

definition sample_ps :: ps_server where
  "sample_ps = \<lparr>g_clientList =
     [\<lparr>psc_IP = ''10.0.0.1'', psc_Port = 5110, psc_filter = [''Sports;;;'', '';Someone;UMN;'']\<rparr>,
      \<lparr>psc_IP = ''10.0.0.2'', psc_Port = 5110, psc_filter = [''Science;;;'', '';;;'']\<rparr>],
     ps_out = []\<rparr>"

lemma sample_ps_inv: "ps_inv sample_ps"
  by (simp add: ps_inv_def sample_ps_def psc_ok_def article_ok_def)

lemma find_iter_update:
  "k < length xs \<Longrightarrow> P y = P (xs ! k) \<Longrightarrow> find_iter P (xs[k := y]) = find_iter P xs"
  by (induction xs arbitrary: k) (auto split: nat.splits)

lemma find_client_filter [simp]:
  "i < length g \<Longrightarrow> find_client ip p (g[i := (g ! i)\<lparr>psc_filter := fs\<rparr>]) = find_client ip p g"
  by (simp add: find_client_def find_iter_update)

lemma find_iter_snoc: "x \<notin> set xs \<Longrightarrow> find_iter (\<lambda>f. f = x) (xs @ [x]) = Some (length xs)"
  by (induction xs) auto

lemma join_again: "join_1_svc IP Port s = Inr (r, s') \<Longrightarrow> join_1_svc IP Port s' = Inr (True, s')"
  by (auto simp: join_1_svc_def result_simps find_client_None strcpy_buf_def split: if_splits)

lemma leave_again:
  "distinct (map psc_key (g_clientList s)) \<Longrightarrow> leave_1_svc IP Port s = (r, s') \<Longrightarrow> leave_1_svc IP Port s' = (True, s')"
  by (auto simp: leave_eq distinct_map_filter)

lemma subscribe_again: "subscribe_1_svc IP Port a s = (r, s') \<Longrightarrow> subscribe_1_svc IP Port a s' = (True, s')"
  using find_client_SomeD [of "cstr IP" Port "g_clientList s"]
  by (auto simp: subscribe_1_svc_def Let_def find_iter_None split: if_splits option.splits)

lemma unsubscribe_again:
  assumes "ps_inv s" "unsubscribe_1_svc IP Port a s = (r, s')"
  shows "unsubscribe_1_svc IP Port a s' = (r, s')"
proof -
  have *: "find_iter (\<lambda>f. f = x) (erase_iter j fs) = None" if "distinct fs" "find_iter (\<lambda>f. f = x) fs = Some j"
    for x :: string and j fs
    using erase_find_iter_filter [of id fs x] that by (simp add: find_iter_None)
  have d: "distinct (psc_filter (g_clientList s ! i))" if "find_client (cstr IP) Port (g_clientList s) = Some i" for i
    using nth_client_ok [OF assms(1) that] by (simp add: psc_ok_def)
  show ?thesis
    using assms(2) find_client_SomeD [of "cstr IP" Port "g_clientList s"] d *
    by (auto simp: unsubscribe_1_svc_def Let_def split: if_splits option.splits)
qed

section \<open>Properties\<close>

text \<open>
  Every remote call, whatever its procedure number and arguments, keeps the client
  table within its capacity, without duplicates, every filter a four-field article. It
  crashes the server only through a Join whose address does not fit into 16 bytes or
  through a Publish wanted by a client whose address does not resolve.
\<close>

theorem ps_dispatch_invariant:
  assumes "ps_inv s"
  shows "case communicate_prog_1 resolve rq_proc argument s of
      Inr (r, s') \<Rightarrow> ps_inv s'
    | Inl e \<Rightarrow> (\<exists>a. argument = Some a \<and>
        (rq_proc = 1 \<and> e = BufferOverflow \<and> 16 \<le> length (cstr (arg_IP a))
         \<or> rq_proc = 5 \<and> e = OutOfBounds \<and> (\<exists>c\<in>set (g_clientList s). wants (cstr (arg_Article a)) c \<and> \<not> resolve (psc_IP c))))"
proof (cases argument)
  case None
  then show ?thesis using assms by (simp add: communicate_prog_1_def)
next
  case (Some a)
  note I = assms
  have i: "ps_inv s'" if "g_clientList s' = g_clientList s" for s'
    using that I by (simp add: ps_inv_def)
  show ?thesis
    using leave_inv [OF I, of "arg_IP a" "arg_Port a"] join_inv [OF I, of "arg_IP a" "arg_Port a"]
      subscribe_inv [OF I, of "arg_IP a" "arg_Port a" "arg_Article a"]
      unsubscribe_inv [OF I, of "arg_IP a" "arg_Port a" "arg_Article a"]
      publish_cases [OF I, where resolve = resolve and Article = "arg_Article a" and IP = "arg_IP a" and Port = "arg_Port a"] i I
    by (auto simp: communicate_prog_1_def ping_1_svc_def Some result_simps split: sum.split prod.splits)
qed

lemma ps_dispatch_invariant_witness:
  "case communicate_prog_1 (\<lambda>_. True) 3 (Some \<lparr>arg_IP = ''10.0.0.1'', arg_Port = 5110, arg_Article = '';;UMN;''\<rparr>) sample_ps of
      Inr (r, s') \<Rightarrow> ps_inv s' | Inl e \<Rightarrow> False"
  using ps_dispatch_invariant [OF sample_ps_inv, where resolve = "\<lambda>_. True" and rq_proc = 3 and argument = "Some \<lparr>arg_IP = ''10.0.0.1'', arg_Port = 5110, arg_Article = '';;UMN;''\<rparr>"]
  by (auto split: sum.splits)

text \<open>
  Publishing. An article of four fields is sent once to every client with a filter
  that matches it, in the order the clients joined, and to nobody else; a filter matches
  when its non-empty fields equal the article's and there is one. The table stays as it is.
\<close>

theorem publish_delivers:
  assumes "ps_inv s" "article_ok a" "\<forall>c\<in>set (g_clientList s). wants a c \<longrightarrow> resolve (psc_IP c)"
  shows "publish_1_svc resolve a IP Port s = Inr (False, s\<lparr>ps_out := ps_out s @
     map (\<lambda>c. (psc_IP c, psc_Port c mod 65536, a))
       (filter (\<lambda>c. \<exists>f\<in>set (psc_filter c). article_matches f a) (g_clientList s))\<rparr>)"
proof -
  have f: "\<forall>c\<in>set (g_clientList s). \<forall>f\<in>set (psc_filter c). count_list f (CHR '';'') = 3"
    using assms(1) by (auto simp: ps_inv_def list_all_iff psc_ok_def article_ok_def)
  have w: "wants a = (\<lambda>c. \<exists>f\<in>set (psc_filter c). article_matches f a)" by (simp add: wants_def fun_eq_iff)
  show ?thesis
    using assms(2) clients_loop_eq [OF f _ assms(3)]
    by (simp add: publish_1_svc_def Let_def fill_buffer_fields article_ok_def w)
qed

lemma publish_delivers_witness:
  "publish_1_svc (\<lambda>_. True) ''Sports;Someone;UMN;goal'' ''10.0.0.2'' 5110 sample_ps
     = Inr (False, sample_ps\<lparr>ps_out := [(''10.0.0.1'', 5110, ''Sports;Someone;UMN;goal'')]\<rparr>)"
  using publish_delivers [OF sample_ps_inv, of "''Sports;Someone;UMN;goal''" "\<lambda>_. True" "''10.0.0.2''" 5110]
  by (simp add: article_ok_def sample_ps_def article_matches_def)

text \<open>
  A subscription that was accepted and is withdrawn leaves the server as it was before.
\<close>

theorem subscribe_unsubscribe:
  assumes "subscribe_1_svc IP Port a s = (False, s')"
  shows "unsubscribe_1_svc IP Port a s' = (False, s)"
proof -
  obtain i where i: "count_list (cstr a) (CHR '';'') = 3" "find_client (cstr IP) Port (g_clientList s) = Some i"
    "find_iter (\<lambda>f. f = cstr a) (psc_filter (g_clientList s ! i)) = None"
    and s': "s' = s\<lparr>g_clientList := (g_clientList s)[i := (g_clientList s ! i)\<lparr>psc_filter := psc_filter (g_clientList s ! i) @ [cstr a]\<rparr>]\<rparr>"
    using assms by (auto simp: subscribe_1_svc_def Let_def split: if_splits option.splits)
  have l: "i < length (g_clientList s)" using find_client_SomeD [OF i(2)] by simp
  have "cstr a \<notin> set (psc_filter (g_clientList s ! i))" using i(3) by (auto simp: find_iter_None)
  then show ?thesis
    using i(1,2) l by (simp add: unsubscribe_1_svc_def Let_def s' find_iter_snoc erase_iter_def)
qed

lemma subscribe_unsubscribe_witness:
  "unsubscribe_1_svc ''10.0.0.2'' 5110 '';;UMN;'' (snd (subscribe_1_svc ''10.0.0.2'' 5110 '';;UMN;'' sample_ps)) = (False, sample_ps)"
  by (rule subscribe_unsubscribe) (simp add: subscribe_1_svc_def find_client_def sample_ps_def)

text \<open>
  A call that the RPC library sends again because its answer was lost does no harm:
  Join, Leave, Subscribe and Unsubscribe executed a second time leave the client table as
  the first left it.
\<close>

theorem ps_retransmission:
  assumes "ps_inv s" "rq_proc \<in> {1, 2, 3, 4}"
    and "communicate_prog_1 resolve rq_proc argument s = Inr (r, s')"
  shows "\<exists>r'. communicate_prog_1 resolve rq_proc argument s' = Inr (r', s')"
proof (cases argument)
  case None
  then show ?thesis using assms(2,3) by (auto simp: communicate_prog_1_def)
next
  case (Some a)
  show ?thesis
    using assms
    by (auto simp: communicate_prog_1_def Some ps_inv_def result_simps split: prod.splits)
      (blast intro: join_again leave_again subscribe_again unsubscribe_again [OF assms(1)])+
qed

lemma ps_retransmission_witness:
  "\<exists>s' r'. communicate_prog_1 (\<lambda>_. True) 1 (Some \<lparr>arg_IP = ''10.0.0.3'', arg_Port = 5110, arg_Article = []\<rparr>) sample_ps = Inr (Reply_bool False, s')
     \<and> communicate_prog_1 (\<lambda>_. True) 1 (Some \<lparr>arg_IP = ''10.0.0.3'', arg_Port = 5110, arg_Article = []\<rparr>) s' = Inr (r', s')"
proof -
  define a where "a = \<lparr>arg_IP = ''10.0.0.3'', arg_Port = 5110, arg_Article = []\<rparr>"
  have "\<exists>s'. communicate_prog_1 (\<lambda>_. True) 1 (Some a) sample_ps = Inr (Reply_bool False, s')"
    by (simp add: a_def communicate_prog_1_def join_1_svc_def sample_ps_def find_client_def strcpy_buf_def)
  then obtain s' where s': "communicate_prog_1 (\<lambda>_. True) 1 (Some a) sample_ps = Inr (Reply_bool False, s')" ..
  from ps_retransmission [OF sample_ps_inv _ s'] show ?thesis
    unfolding a_def [symmetric] using s' by auto
qed

end
