(* ===== verification/GroupServer.thy ===== *)
theory GroupServer
  imports PubSubServer Registry
begin

text \<open>
  The group server's side of the registry protocol (Project1/Server/communicate_svc.c):
  registering, asking for the server list, leaving, the console loop and the heartbeat
  echo. \<open>aton\<close> stands for \<open>inet_aton\<close>, \<open>ip\<close> is the address \<open>checkip\<close> found. A server of
  the list is known by its address only. The lemmas compose these messages with the
  registry's own loop (theory Registry).
\<close>

section \<open>State and messages\<close>

record group_server =
  g_serverList :: "string list"
  Is_live :: bool
  gs_out :: "(string \<times> int \<times> string) list"

abbreviation GS_BUFLEN :: nat where "GS_BUFLEN \<equiv> 512"
abbreviation HBPORT :: int where "HBPORT \<equiv> 8888"

fun hex_str :: "nat \<Rightarrow> string" where
  "hex_str n = (if n < 16 then [''0123456789abcdef'' ! n] else hex_str (n div 16) @ [''0123456789abcdef'' ! (n mod 16)])"

declare hex_str.simps [simp del]

definition gs_send :: "(string \<Rightarrow> bool) \<Rightarrow> string \<Rightarrow> string \<Rightarrow> group_server \<Rightarrow> group_server result" where
  "gs_send aton SERVER message s =
     (if aton SERVER then bindE (strcpy_buf GS_BUFLEN message) (\<lambda>m. Inr (s\<lparr>gs_out := gs_out s @ [(SERVER, 5105, m)]\<rparr>))
      else Inl (Exit 1))"

definition gs_Register :: "(string \<Rightarrow> bool) \<Rightarrow> string \<Rightarrow> string \<Rightarrow> group_server \<Rightarrow> group_server result" where
  "gs_Register aton SERVER ip s =
     gs_send aton SERVER
       (''Register;RPC;'' @ ip @ '';'' @ to_string HBPORT @ '';'' @ hex_str 12345678 @ '';'' @ to_string 1) s"

definition find_gserver :: "string \<Rightarrow> string list \<Rightarrow> nat option" where
  "find_gserver strIPAddress g = find_iter (\<lambda>it. strIPAddress = it) g"

text \<open>Address, program and version in turn, until the tokens end.\<close>

fun getlist_loop :: "string list \<Rightarrow> string list \<Rightarrow> string list result" where
  "getlist_loop [] g = Inr g"
| "getlist_loop (strIPAddress # ts) g =
     bindE (if find_gserver strIPAddress g = None then bindE (strcpy_buf 16 strIPAddress) (\<lambda>ip. Inr (g @ [ip])) else Inr g)
       (\<lambda>g'. getlist_loop (drop 2 ts) g')"

definition gs_GetList ::
  "(string \<Rightarrow> bool) \<Rightarrow> string \<Rightarrow> string \<Rightarrow> string option \<Rightarrow> group_server \<Rightarrow> group_server result" where
  "gs_GetList aton SERVER ip reply s =
     bindE (gs_send aton SERVER (''GetList;RPC;'' @ ip @ '';'' @ to_string HBPORT) s) (\<lambda>s1.
       case reply of None \<Rightarrow> Inl (Exit 1)
       | Some d \<Rightarrow>
           let message = take GS_BUFLEN d in
           if length message = GS_BUFLEN then Inl BufferOverflow
           else bindE (Split (cstr message) '';'') (\<lambda>t.
             bindE (getlist_loop (rest_tokens t) []) (\<lambda>g. Inr (s1\<lparr>g_serverList := g\<rparr>))))"

definition gs_Deregister :: "(string \<Rightarrow> bool) \<Rightarrow> string \<Rightarrow> string \<Rightarrow> group_server \<Rightarrow> group_server result" where
  "gs_Deregister aton SERVER ip s =
     bindE (gs_send aton SERVER (''Deregister;RPC;'' @ ip @ '';'' @ to_string HBPORT) s)
       (\<lambda>s1. Inr (s1\<lparr>Is_live := False\<rparr>))"

text \<open>One answer to a ping of the registry, and the console loop over its input lines.\<close>

definition gs_heartBeat :: "string \<Rightarrow> string" where
  "gs_heartBeat datagram = take GS_BUFLEN datagram"

fun gs_Command ::
  "(string \<Rightarrow> bool) \<Rightarrow> string \<Rightarrow> string \<Rightarrow> (string \<times> string option) list \<Rightarrow> group_server \<Rightarrow> group_server result" where
  "gs_Command aton serverIP ip [] s = Inr s"
| "gs_Command aton serverIP ip ((szUserInput, reply) # ls) s =
     (if \<not> Is_live s then Inr s
      else if szUserInput = ''Deregister'' then gs_Deregister aton serverIP ip s
      else if szUserInput = ''listS'' then
        bindE (gs_GetList aton serverIP ip reply s) (gs_Command aton serverIP ip ls)
      else gs_Command aton serverIP ip ls s)"

section \<open>Together with the registry\<close>

lemma hex_prog: "hex_str 12345678 = ''bc614e''"
  by (simp add: hex_str.simps)

lemma to_string_HBPORT: "to_string 8888 = ''8888''" "to_string 1 = ''1''"
  by code_simp+

lemma atol_hex: "atol ''bc614e'' = 0" "atol ''1'' = 1"
  by code_simp+

definition group_entry :: "string \<Rightarrow> SServerInfo" where
  "group_entry ip = \<lparr>m_szIPAddress = ip, m_rpcFormat = RPC, m_nPort = HBPORT, m_uiProgram = 0, m_uiVersion = 1\<rparr>"

lemma register_message:
  assumes "isValidIP ip" "CHR 0x00 \<notin> set ip"
  shows "listen_step g (''Register;RPC;'' @ ip @ '';'' @ to_string HBPORT @ '';'' @ hex_str 12345678 @ '';'' @ to_string 1)
     = Inr (if (ip, HBPORT) \<in> server_key ` set g then g else g @ [group_entry ip], None)"
proof -
  have l: "length ip \<le> 15" using isValidIP_length [of ip] assms by simp
  have t: "tokens '';'' (''Register;RPC;'' @ ip @ '';8888;bc614e;1'') = [''Register'', ''RPC'', ip, ''8888'', ''bc614e'', ''1'']"
    using assms isValidIP_clean [of ip] isValidIP_not_Nil [of ip]
    by (simp add: tokens_field [of "''Register''", simplified] tokens_field [of "''RPC''", simplified] tokens_field [of ip, simplified]
        tokens_field [of "''8888''", simplified] tokens_field [of "''bc614e''", simplified] tokens_last)
  have c: "cstr (take 128 (''Register;RPC;'' @ ip @ '';8888;bc614e;1'')) = ''Register;RPC;'' @ ip @ '';8888;bc614e;1''"
    using l assms by (intro take_cstr_id) auto
  have p: "isValidPort 8888" "atoi ''8888'' = 8888" by code_simp+
  show ?thesis
    using assms p
    unfolding hex_prog to_string_HBPORT listen_step_tokens
    by (simp add: c [simplified] t [simplified] Let_def atol_hex addServer_eq valid_ip_fits16 group_entry_def)
qed

lemma strcpy_short: "length m < n \<Longrightarrow> CHR 0x00 \<notin> set m \<Longrightarrow> strcpy_buf n m = Inr m"
  by (simp add: strcpy_buf_def)

lemma gs_send_eq:
  "aton SERVER \<Longrightarrow> length m < GS_BUFLEN \<Longrightarrow> CHR 0x00 \<notin> set m \<Longrightarrow>
   gs_send aton SERVER m s = Inr (s\<lparr>gs_out := gs_out s @ [(SERVER, 5105, m)]\<rparr>)"
  by (simp add: gs_send_def strcpy_short)

text \<open>
  C29: a group server's stay in the registry. Its Register message appends one RPC entry
  with its address, the heartbeat port and version 1, and its Deregister message gives
  the registry its old list back. The program number is sent in hexadecimal and read as
  a decimal number, so the registry stores 0 for every group server.
\<close>

theorem group_server_lifecycle:
  assumes "reg_inv g" "isValidIP ip" "CHR 0x00 \<notin> set ip" "(ip, 8888) \<notin> server_key ` set g" "aton SERVER"
  shows "\<exists>s1 s2 m1 m2 g1. gs_Register aton SERVER ip s = Inr s1 \<and> gs_out s1 = gs_out s @ [(SERVER, 5105, m1)]
     \<and> listen_step g m1 = Inr (g1, None)
     \<and> g1 = g @ [\<lparr>m_szIPAddress = ip, m_rpcFormat = RPC, m_nPort = 8888, m_uiProgram = 0, m_uiVersion = 1\<rparr>]
     \<and> gs_Deregister aton SERVER ip s1 = Inr s2 \<and> gs_out s2 = gs_out s1 @ [(SERVER, 5105, m2)] \<and> \<not> Is_live s2
     \<and> listen_step g1 m2 = Inr (g, None)"
proof -
  let ?m1 = "''Register;RPC;'' @ ip @ '';'' @ to_string HBPORT @ '';'' @ hex_str 12345678 @ '';'' @ to_string 1"
  let ?m2 = "''Deregister;RPC;'' @ ip @ '';'' @ to_string HBPORT"
  let ?g1 = "g @ [group_entry ip]"
  have l: "length ip \<le> 15" using isValidIP_length [of ip] assms(2,3) by simp
  have r1: "gs_Register aton SERVER ip s = Inr (s\<lparr>gs_out := gs_out s @ [(SERVER, 5105, ?m1)]\<rparr>)"
    unfolding gs_Register_def using l assms(3,5) by (intro gs_send_eq) (simp_all add: hex_prog to_string_HBPORT)
  have r2: "gs_Deregister aton SERVER ip s' = Inr (s'\<lparr>gs_out := gs_out s' @ [(SERVER, 5105, ?m2)], Is_live := False\<rparr>)" for s'
    unfolding gs_Deregister_def using l assms(3,5) by (subst gs_send_eq) (simp_all add: to_string_HBPORT)
  have p: "isValidPort 8888" by code_simp
  have "entry_ok (group_entry ip)" using assms(2,3) p by (simp add: entry_ok_def group_entry_def)
  then have i: "reg_inv ?g1"
    using assms(1,4) by (auto simp: reg_inv_def group_entry_def server_key_def)
  have "filter (\<lambda>s. server_key s \<noteq> (ip, 8888)) ?g1 = g"
    using assms(4) by (auto simp: group_entry_def server_key_def filter_id_conv)
  moreover have "listen_step ?g1 ?m2 = Inr (filter (\<lambda>s. server_key s \<noteq> (ip, 8888)) ?g1, None)"
    using listen_step_deregister [OF i assms(2,3) p, of "''Deregister''" "''RPC''"] by simp
  ultimately have "listen_step ?g1 ?m2 = Inr (g, None)" by simp
  moreover have "listen_step g ?m1 = Inr (?g1, None)"
    using register_message [OF assms(2,3), of g] assms(4) by simp
  ultimately show ?thesis
    using r1 r2 by (fastforce simp: group_entry_def)
qed

lemma group_server_lifecycle_witness:
  "\<exists>s1 m1. gs_Register (\<lambda>a. a = ''10.0.0.9'') ''10.0.0.9'' ''10.0.0.7'' \<lparr>g_serverList = [], Is_live = True, gs_out = []\<rparr> = Inr s1
     \<and> gs_out s1 = [(''10.0.0.9'', 5105, m1)] \<and> ok (listen_step [] m1)"
proof -
  have "reg_inv []" "isValidIP ''10.0.0.7''" "CHR 0x00 \<notin> set ''10.0.0.7''"
    by (simp add: reg_inv_def) code_simp+
  from group_server_lifecycle [OF this, of "\<lambda>a. a = ''10.0.0.9''" "''10.0.0.9''" "\<lparr>g_serverList = [], Is_live = True, gs_out = []\<rparr>"]
  show ?thesis by fastforce
qed

section \<open>The server list\<close>

text \<open>The first occurrence of every address.\<close>

definition firsts :: "'a list \<Rightarrow> 'a list" where
  "firsts xs = rev (remdups (rev xs))"

lemma firsts_step:
  "firsts (l @ x # xs) = firsts ((if x \<in> set l then l else l @ [x]) @ xs)"
proof (cases "x \<in> set l")
  case True
  have "remdups (rev xs @ x # rev l) = remdups (rev xs @ remdups (x # rev l))" by (rule remdups_append2 [symmetric])
  also have "\<dots> = remdups (rev xs @ rev l)" using True by (simp add: remdups_append2)
  finally show ?thesis using True by (simp add: firsts_def)
qed (simp add: firsts_def)

lemma firsts_distinct: "distinct l \<Longrightarrow> firsts l = l"
  by (simp add: firsts_def distinct_remdups_id)

lemma getlist_loop_eq:
  assumes "list_all entry_ok h" "distinct l"
  shows "getlist_loop (concat (map (entry_fields RPC) h)) l = Inr (firsts (l @ map m_szIPAddress h))"
  using assms
proof (induction h arbitrary: l)
  case Nil
  then show ?case by (simp add: firsts_distinct)
next
  case (Cons s h)
  let ?ip = "m_szIPAddress s"
  have c: "strcpy_buf 16 ?ip = Inr ?ip"
    using Cons.prems(1) by (simp add: entry_ok_def strcpy_fits16 valid_ip_fits16)
  have f: "find_gserver ?ip l = None \<longleftrightarrow> ?ip \<notin> set l" by (auto simp: find_gserver_def find_iter_None)
  have "getlist_loop (concat (map (entry_fields RPC) (s # h))) l
     = getlist_loop (concat (map (entry_fields RPC) h)) (if ?ip \<in> set l then l else l @ [?ip])"
    by (simp add: entry_fields_def c f)
  also have "\<dots> = Inr (firsts ((if ?ip \<in> set l then l else l @ [?ip]) @ map m_szIPAddress h))"
    using Cons.prems by (intro Cons.IH) auto
  also have "\<dots> = Inr (firsts (l @ map m_szIPAddress (s # h)))"
    using firsts_step [of l ?ip "map m_szIPAddress h"] by simp
  finally show ?case .
qed

lemma reply_clean: "reg_inv g \<Longrightarrow> getServerList g f = Inr reply \<Longrightarrow> CHR 0x00 \<notin> set reply"
  using entry_chars(1)
  by (auto simp: getServerList_def result_simps reg_inv_def list_all_iff dest!: getServerList_InrD in_set_butlastD split: if_splits)

text \<open>
  A group server that asks the registry for the list ends with the address of every
  RPC server registered, each once, in the order of their first registration, when the
  answer is shorter than its buffer; an answer of 512 bytes or more is terminated outside.
\<close>

theorem group_getlist:
  assumes "reg_inv g" "getServerList g RPC = Inr reply" "aton SERVER" "isValidIP ip" "CHR 0x00 \<notin> set ip"
  shows "gs_GetList aton SERVER ip (Some reply) s =
     (if length reply < 512
      then Inr (s\<lparr>gs_out := gs_out s @ [(SERVER, 5105, ''GetList;RPC;'' @ ip @ '';'' @ to_string HBPORT)],
                 g_serverList := firsts (map m_szIPAddress (filter (\<lambda>e. m_rpcFormat e = RPC) g))\<rparr>)
      else Inl BufferOverflow)"
proof -
  have l: "length ip \<le> 15" using isValidIP_length [of ip] assms(4,5) by simp
  have t: "tokens '';'' reply = concat (map (entry_fields RPC) (filter (\<lambda>e. m_rpcFormat e = RPC) g))"
    by (rule reply_tokens [OF assms(1,2)])
  have "list_all entry_ok (filter (\<lambda>e. m_rpcFormat e = RPC) g)" using assms(1) by (auto simp: reg_inv_def list_all_iff)
  then have g: "getlist_loop (tokens '';'' reply) [] = Inr (firsts (map m_szIPAddress (filter (\<lambda>e. m_rpcFormat e = RPC) g)))"
    unfolding t using getlist_loop_eq [of _ "[]"] by simp
  have send: "gs_send aton SERVER (''GetList;RPC;'' @ ip @ '';'' @ to_string HBPORT) s
      = Inr (s\<lparr>gs_out := gs_out s @ [(SERVER, 5105, ''GetList;RPC;'' @ ip @ '';'' @ to_string HBPORT)]\<rparr>)"
    using l assms(3,5) by (intro gs_send_eq) (simp_all add: to_string_HBPORT)
  have c: "cstr reply = reply" using reply_clean [OF assms(1,2)] by simp
  show ?thesis
  proof (cases "length reply < 512")
    case True
    then show ?thesis by (simp only: gs_GetList_def send bindE.simps option.case Let_def) (simp add: c g)
  next
    case False
    then show ?thesis by (simp only: gs_GetList_def send bindE.simps option.case Let_def) simp
  qed
qed

lemma group_getlist_witness:
  "\<exists>g reply s. reg_inv g \<and> getServerList g RPC = Inr reply
     \<and> gs_GetList (\<lambda>_. True) ''10.0.0.9'' ''10.0.0.7'' (Some reply) \<lparr>g_serverList = [], Is_live = True, gs_out = []\<rparr> = Inr s
     \<and> g_serverList s = [''10.0.0.7'']"
proof -
  have h: "isValidIP ''10.0.0.7''" "CHR 0x00 \<notin> set ''10.0.0.7''" "isValidPort 8888" "to_string 1 = ''1''" "to_string 0 = ''0''"
    by code_simp+
  then have inv: "reg_inv [group_entry ''10.0.0.7'']" by (simp add: reg_inv_def entry_ok_def group_entry_def)
  have r: "getServerList [group_entry ''10.0.0.7''] RPC = Inr ''10.0.0.7;0;1''"
    by (simp add: getServerList_def group_entry_def server_entry_def h strcpy_buf_def)
  show ?thesis
    using inv r group_getlist [OF inv r _ h(1,2), of "\<lambda>_. True" "''10.0.0.9''"]
    by (intro exI [of _ "[group_entry ''10.0.0.7'']"] exI [of _ "''10.0.0.7;0;1''"]) (simp add: firsts_def group_entry_def)
qed

end
