(* ===== verification/GroupProcess.thy ===== *)
theory GroupProcess
  imports GroupServer Process
begin

text \<open>
  A PubSub group server as a process (\<open>main\<close>, \<open>heartBeat\<close>, \<open>Command\<close> and \<open>print_clients\<close> of
  Project1/Server/communicate_svc.c): the RPC dispatcher, the echo of the registry's
  heartbeats and the console as threads on the client table, the server list and
  \<open>Is_live\<close>. \<open>rpc_ok\<close> says whether the transports could be created and registered.
\<close>

section \<open>The threads\<close>

text \<open>\<open>die\<close> ends the process with code 1, also when the heartbeat thread hears nothing any more.\<close>

definition group_heartBeat :: "bool \<Rightarrow> recv_event \<Rightarrow> string list \<Rightarrow> string list result" where
  "group_heartBeat live r echo = on_recv (\<lambda>d echo. Inr (echo @ [gs_heartBeat d])) 1 live r echo"

fun client_rows :: "nat \<Rightarrow> PSClient list \<Rightarrow> string list" where
  "client_rows nIndex [] = []"
| "client_rows nIndex (it # its) =
     (''-- '' @ to_string (int nIndex) @ ''. '' @ psc_IP it @ ''  : '' @ to_string (psc_Port it))
     # client_rows (nIndex + 1) its"

definition print_clients :: "PSClient list \<Rightarrow> string list" where
  "print_clients g =
     (let line = replicate 42 (CHR ''-'') in [line, ''-- active clients List ''] @ client_rows 1 g @ [line])"

record group_process =
  gp_table :: ps_server
  gp_server :: group_server
  gp_replies :: "ps_reply list"
  gp_echo :: "string list"
  gp_shell :: "string list"
  gp_screen :: "string list"

text \<open>
  One line of the console: the commands that talk to the registry are \<open>gs_Command\<close>'s, with
  \<open>reply\<close> the registry's answer to \<open>listS\<close>; \<open>listC\<close> prints the table, and what it does
  not know is given to \<open>system\<close>.
\<close>

definition group_console ::
  "(string \<Rightarrow> bool) \<Rightarrow> string \<Rightarrow> string \<Rightarrow> string \<Rightarrow> string option \<Rightarrow> group_process \<Rightarrow> group_process result" where
  "group_console aton serverIP ip szUserInput reply p =
     bindE (gs_Command aton serverIP ip [(szUserInput, reply)] (gp_server p)) (\<lambda>s.
       Inr (p\<lparr>gp_server := s,
              gp_screen := gp_screen p @ (if szUserInput = ''listC'' then print_clients (g_clientList (gp_table p)) else []),
              gp_shell := gp_shell p @ (if szUserInput \<in> {''Deregister'', ''listS'', ''listC''} then [] else [szUserInput])\<rparr>))"

definition groupserver_main ::
  "(string \<Rightarrow> bool) \<Rightarrow> bool \<Rightarrow> bool \<Rightarrow> string \<Rightarrow> string list \<Rightarrow> group_process result" where
  "groupserver_main aton sent rpc_ok ip argv =
     (case argv of
        [serverIP] \<Rightarrow>
          bindE (gs_Register aton serverIP ip \<lparr>g_serverList = [], Is_live = True, gs_out = []\<rparr>) (\<lambda>s.
            if \<not> sent then Inl (Exit (- 1))
            else if \<not> rpc_ok then Inl (Exit 1)
            else Inr \<lparr>gp_table = \<lparr>g_clientList = [], ps_out = []\<rparr>, gp_server = s, gp_replies = [], gp_echo = [],
                      gp_shell = [], gp_screen = []\<rparr>)
      | _ \<Rightarrow> Inl (Exit 1))"

datatype group_event = Call nat "ps_argument option" | Heartbeat recv_event | Input string "string option"

fun group_step ::
  "(string \<Rightarrow> bool) \<Rightarrow> (string \<Rightarrow> bool) \<Rightarrow> string \<Rightarrow> string \<Rightarrow> group_event \<Rightarrow> group_process \<Rightarrow> group_process result" where
  "group_step aton resolve serverIP ip (Call rq_proc argument) p =
     bindE (communicate_prog_1 resolve rq_proc argument (gp_table p)) (\<lambda>(reply, t).
       Inr (p\<lparr>gp_table := t, gp_replies := gp_replies p @ [reply]\<rparr>))"
| "group_step aton resolve serverIP ip (Heartbeat r) p =
     bindE (group_heartBeat (Is_live (gp_server p)) r (gp_echo p)) (\<lambda>echo. Inr (p\<lparr>gp_echo := echo\<rparr>))"
| "group_step aton resolve serverIP ip (Input szUserInput reply) p =
     (if Is_live (gp_server p) then group_console aton serverIP ip szUserInput reply p else Inr p)"

section \<open>Runs\<close>

definition group_may_end :: "(string \<Rightarrow> bool) \<Rightarrow> (string \<Rightarrow> bool) \<Rightarrow> string \<Rightarrow> group_event \<Rightarrow> group_process \<Rightarrow> fault \<Rightarrow> bool" where
  "group_may_end aton resolve serverIP e p f \<longleftrightarrow>
     (case e of
        Call rq_proc argument \<Rightarrow> (\<exists>a. argument = Some a \<and>
          (rq_proc = 1 \<and> f = BufferOverflow \<and> 16 \<le> length (cstr (arg_IP a))
           \<or> rq_proc = 5 \<and> f = OutOfBounds \<and> (\<exists>c\<in>set (g_clientList (gp_table p)). wants (cstr (arg_Article a)) c \<and> \<not> resolve (psc_IP c))))
      | Heartbeat r \<Rightarrow> r = Silence \<and> f = Exit 1 \<and> \<not> Is_live (gp_server p)
      | Input l reply \<Rightarrow> l \<in> {''Deregister'', ''listS''} \<and> (f = BufferOverflow \<or> f = Exit 1 \<and> (aton serverIP \<longrightarrow> l = ''listS'' \<and> reply = None)))"

definition group_stop :: "group_event \<Rightarrow> bool" where
  "group_stop e \<longleftrightarrow> (\<exists>reply. e = Input ''Deregister'' reply)"

definition group_silent :: "group_event \<Rightarrow> bool" where
  "group_silent e \<longleftrightarrow> e = Heartbeat Silence"

definition group_inv :: "group_process \<Rightarrow> bool" where
  "group_inv p \<longleftrightarrow> ps_inv (gp_table p)"

lemma getlist_loop_fault: "getlist_loop ts g = Inl f \<Longrightarrow> f = BufferOverflow"
  by (induction ts g rule: getlist_loop.induct) (auto simp: bindE_Inl_iff strcpy_buf_def split: if_splits)

lemma gs_Command_cases:
  assumes "Is_live s"
  shows "gs_Command aton serverIP ip [(l, reply)] s = Inr s' \<Longrightarrow> Is_live s' \<longleftrightarrow> l \<noteq> ''Deregister''"
    "gs_Command aton serverIP ip [(l, reply)] s = Inl f \<Longrightarrow> l \<in> {''Deregister'', ''listS''}
       \<and> (f = BufferOverflow \<or> f = Exit 1 \<and> (aton serverIP \<longrightarrow> l = ''listS'' \<and> reply = None))"
proof -
  have n: "''Deregister'' \<noteq> ''listS''" by simp
  show "gs_Command aton serverIP ip [(l, reply)] s = Inr s' \<Longrightarrow> Is_live s' \<longleftrightarrow> l \<noteq> ''Deregister''"
    using assms n
    by (auto simp: gs_Deregister_def gs_GetList_def gs_send_def bindE_Inr_iff Let_def split: if_splits option.splits)
  show "gs_Command aton serverIP ip [(l, reply)] s = Inl f \<Longrightarrow> l \<in> {''Deregister'', ''listS''}
       \<and> (f = BufferOverflow \<or> f = Exit 1 \<and> (aton serverIP \<longrightarrow> l = ''listS'' \<and> reply = None))"
    using assms n getlist_loop_fault
    by (auto simp: gs_Deregister_def gs_GetList_def gs_send_def bindE_Inl_iff strcpy_buf_def Split_tz Let_def split: if_splits option.splits)
qed

lemma group_step_cases:
  assumes "group_inv p"
  shows "group_step aton resolve serverIP ip e p = Inr p' \<Longrightarrow> group_inv p'"
    "group_step aton resolve serverIP ip e p = Inl f \<Longrightarrow> group_may_end aton resolve serverIP e p f"
    "group_step aton resolve serverIP ip e p = Inr p' \<Longrightarrow> Is_live (gp_server p') \<longleftrightarrow> Is_live (gp_server p) \<and> \<not> group_stop e"
    "group_silent e \<Longrightarrow> group_step aton resolve serverIP ip e p = (if Is_live (gp_server p) then Inr p else Inl (Exit 1))"
proof -
  note I = assms [unfolded group_inv_def]
  note h = gs_Command_cases [of "gp_server p" aton serverIP ip]
  have keep: "ps_inv t" if "communicate_prog_1 resolve n a (gp_table p) = Inr (r, t)" for n a r t
    using ps_dispatch_invariant [OF I, where resolve = resolve and rq_proc = n and argument = a] that by simp
  have fault: "group_may_end aton resolve serverIP (Call n a) p f" if "communicate_prog_1 resolve n a (gp_table p) = Inl f" for n a
    using ps_dispatch_invariant [OF I, where resolve = resolve and rq_proc = n and argument = a] that by (simp add: group_may_end_def)
  show "group_step aton resolve serverIP ip e p = Inr p' \<Longrightarrow> group_inv p'"
    using I by (cases e) (auto simp: group_inv_def group_console_def bindE_Inr_iff dest: keep split: if_splits)
  show "group_step aton resolve serverIP ip e p = Inl f \<Longrightarrow> group_may_end aton resolve serverIP e p f"
  proof (cases e)
    case (Input l reply)
    then show "group_step aton resolve serverIP ip e p = Inl f \<Longrightarrow> group_may_end aton resolve serverIP e p f"
      using h(2) [of l reply f] by (auto simp: group_may_end_def group_console_def bindE_Inl_iff split: if_splits)
  qed (auto simp: bindE_Inl_iff fault, auto simp: group_may_end_def group_heartBeat_def on_recv_Inl)
  show "group_step aton resolve serverIP ip e p = Inr p' \<Longrightarrow> Is_live (gp_server p') \<longleftrightarrow> Is_live (gp_server p) \<and> \<not> group_stop e"
  proof (cases e)
    case (Input l reply)
    then show "group_step aton resolve serverIP ip e p = Inr p' \<Longrightarrow> Is_live (gp_server p') \<longleftrightarrow> Is_live (gp_server p) \<and> \<not> group_stop e"
      using h(1) [of l reply] by (auto simp: group_stop_def group_console_def bindE_Inr_iff simp del: gs_Command.simps split: if_splits)
  qed (auto simp: bindE_Inr_iff group_stop_def)
  show "group_silent e \<Longrightarrow> group_step aton resolve serverIP ip e p = (if Is_live (gp_server p) then Inr p else Inl (Exit 1))"
    by (simp add: group_silent_def group_heartBeat_def)
qed

interpretation gserver: stoppable "group_step aton resolve serverIP ip" group_inv "group_may_end aton resolve serverIP"
  "\<lambda>p. Is_live (gp_server p)" group_stop group_silent 1
  by unfold_locales (rule group_step_cases; assumption)+

text \<open>
  C23: every run of a group server, whatever calls, heartbeats and lines come in whatever
  order. The client table stays within its capacity, duplicate free and well formed, and
  the server is live until \<open>Deregister\<close> is typed. From then on it still answers calls until
  the heartbeat thread hears nothing for its timeout, which ends the process with code 1.
  Before, a run ends only at a Join with an overlong address, at a Publish for a client
  that cannot be resolved, or at a command to a registry that cannot be reached, does not
  answer, or answers more than the buffers hold.
\<close>

theorem group_runs:
  assumes "ps_inv (gp_table p)" "Is_live (gp_server p)"
  shows "case run_events (group_step aton resolve serverIP ip) es p of
      Inr p' \<Rightarrow> ps_inv (gp_table p') \<and> (Is_live (gp_server p') \<longleftrightarrow> (\<forall>reply. Input ''Deregister'' reply \<notin> set es))
        \<and> (\<forall>es1 reply es2. es = es1 @ Input ''Deregister'' reply # es2 \<longrightarrow> Heartbeat Silence \<notin> set es2)
    | Inl f \<Rightarrow> \<exists>es1 e es2 p1. es = es1 @ e # es2 \<and> run_events (group_step aton resolve serverIP ip) es1 p = Inr p1
        \<and> (case e of
             Call n argument \<Rightarrow> \<exists>a. argument = Some a \<and>
               (n = 1 \<and> f = BufferOverflow \<and> 16 \<le> length (cstr (arg_IP a))
                \<or> n = 5 \<and> f = OutOfBounds \<and> (\<exists>c\<in>set (g_clientList (gp_table p1)). wants (cstr (arg_Article a)) c \<and> \<not> resolve (psc_IP c)))
           | Heartbeat r \<Rightarrow> r = Silence \<and> f = Exit 1 \<and> (\<exists>reply. Input ''Deregister'' reply \<in> set es1)
           | Input l reply \<Rightarrow> l \<in> {''Deregister'', ''listS''}
               \<and> (f = BufferOverflow \<or> f = Exit 1 \<and> (aton serverIP \<longrightarrow> l = ''listS'' \<and> reply = None)))"
proof -
  let ?run = "run_events (group_step aton resolve serverIP ip)"
  have i: "group_inv p" using assms(1) by (simp add: group_inv_def)
  note o = gserver.run_outcome [OF i assms(2), of aton resolve serverIP ip es, unfolded gserver.outcome_def]
  show ?thesis
  proof (cases "?run es p")
    case (Inl f)
    with o obtain es1 e es2 p1 where r: "es = es1 @ e # es2" "?run es1 p = Inr p1"
      "if group_silent e then f = Exit 1 \<and> (\<exists>e'\<in>set es1. group_stop e') else group_may_end aton resolve serverIP e p1 f"
      by auto
    from r(3) show ?thesis unfolding Inl sum.case
      by (intro exI [of _ es1] exI [of _ e] exI [of _ es2] exI [of _ p1] conjI r(1,2))
        (cases e; auto simp: group_may_end_def group_silent_def group_stop_def split: if_splits)
  next
    case (Inr p')
    with o show ?thesis by (auto simp: group_inv_def group_stop_def group_silent_def)
  qed
qed

definition sample_group :: group_process where
  "sample_group = \<lparr>gp_table = sample_ps, gp_server = \<lparr>g_serverList = [], Is_live = True, gs_out = []\<rparr>,
     gp_replies = [], gp_echo = [], gp_shell = [], gp_screen = []\<rparr>"

lemma group_runs_witness:
  "case run_events (group_step (\<lambda>_. True) (\<lambda>_. True) ''10.0.0.9'' ''10.0.0.7'')
       [Call 6 (Some \<lparr>arg_IP = ''10.0.0.1'', arg_Port = 5110, arg_Article = []\<rparr>), Input ''Deregister'' None, Heartbeat (Datagram ''heartbeat'')]
       sample_group of
     Inr p' \<Rightarrow> ps_inv (gp_table p') \<and> \<not> Is_live (gp_server p') \<and> gp_echo p' = [''heartbeat'']
   | Inl f \<Rightarrow> False"
proof -
  have i: "ps_inv (gp_table sample_group)" "Is_live (gp_server sample_group)"
    using sample_ps_inv by (simp_all add: sample_group_def)
  obtain p' where p': "run_events (group_step (\<lambda>_. True) (\<lambda>_. True) ''10.0.0.9'' ''10.0.0.7'')
       [Call 6 (Some \<lparr>arg_IP = ''10.0.0.1'', arg_Port = 5110, arg_Article = []\<rparr>), Input ''Deregister'' None, Heartbeat (Datagram ''heartbeat'')]
       sample_group = Inr p'" "gp_echo p' = [''heartbeat'']"
    by (simp add: communicate_prog_1_def ping_1_svc_def group_console_def gs_Deregister_def gs_send_def strcpy_buf_def to_string_HBPORT
        sample_group_def group_heartBeat_def gs_heartBeat_def)
  with group_runs [OF i, where aton = "\<lambda>_. True" and resolve = "\<lambda>_. True" and serverIP = "''10.0.0.9''" and ip = "''10.0.0.7''"
      and es = "[Call 6 (Some \<lparr>arg_IP = ''10.0.0.1'', arg_Port = 5110, arg_Article = []\<rparr>), Input ''Deregister'' None, Heartbeat (Datagram ''heartbeat'')]"]
  show ?thesis by simp
qed

end
