(* ===== verification/PubSubClient.thy ===== *)
theory PubSubClient
  imports GroupServer
begin

text \<open>
  The PubSub client (Project1/Client/communicate_client.cpp): validation of articles, the
  query of the registry, the remote calls, the fail-over when a ping is not answered, and
  the console loop. \<open>aton\<close> stands for \<open>inet_aton\<close>, \<open>connect\<close> for \<open>clnt_create\<close> (false when
  it returns NULL), \<open>ip\<close> for the result of \<open>checkip\<close>. \<open>pc_calls\<close> records the remote
  calls with their host, in order; \<open>rpc_request\<close> gives procedure number and arguments as
  the group server's dispatcher receives them. Console lines are given as read; lines of
  120 characters or more, at which \<open>getline\<close> stops for good, are not considered.
\<close>

section \<open>Articles\<close>

datatype ARTICLE_TYPE = SUBSCRIBE | PUBLISH

datatype RPC_TYPE = JOIN | LEAVE | SUBS | UNSUBS | PUB | PING

definition isValidField :: "string \<Rightarrow> bool" where
  "isValidField field = (if field = [] then False else True)"

definition isValidType :: "string \<Rightarrow> bool" where
  "isValidType field = (field \<in> set [''Sports'', ''Lifestyle'', ''Entertainment'', ''Busniess'',
     ''Technology'', ''Science'', ''Politics'', ''Health''])"

text \<open>\<open>article[k]\<close> of a vector that is too short is an undefined read.\<close>

definition isValidArticle :: "string \<Rightarrow> ARTICLE_TYPE \<Rightarrow> bool result" where
  "isValidArticle s_article type =
     (if count_list s_article (CHR '';'') \<noteq> 3 then Inr False
      else
        let items = getline_items (CHR '';'') s_article;
            article = (if length items = 3 then items @ [[]] else items)
        in if length article < 4 then Inl OutOfBounds
           else if isValidField (article ! 0) \<and> \<not> isValidType (article ! 0) then Inr False
           else case type of
             SUBSCRIBE \<Rightarrow> Inr ((isValidField (article ! 0) \<or> isValidField (article ! 1) \<or> isValidField (article ! 2))
                            \<and> \<not> isValidField (article ! 3))
           | PUBLISH \<Rightarrow> Inr ((isValidField (article ! 0) \<or> isValidField (article ! 1) \<or> isValidField (article ! 2))
                            \<and> isValidField (article ! 3)))"

section \<open>State and remote calls\<close>

abbreviation PC_BUFLEN :: nat where "PC_BUFLEN \<equiv> 120"
abbreviation UDP_PORT :: int where "UDP_PORT \<equiv> 5110"
abbreviation REGISTRY_PORT :: int where "REGISTRY_PORT \<equiv> 5105"

record ps_client =
  IP_host :: string
  REG_host :: string
  REG_BUFFER :: string
  Is_client_live :: bool
  pc_calls :: "(string \<times> RPC_TYPE \<times> string) list"
  pc_out :: "(string \<times> int \<times> string) list"

definition rpc_request :: "RPC_TYPE \<Rightarrow> string \<Rightarrow> string \<Rightarrow> nat \<times> ps_argument" where
  "rpc_request type ip article =
     (case type of
        JOIN \<Rightarrow> (1, \<lparr>arg_IP = ip, arg_Port = UDP_PORT, arg_Article = []\<rparr>)
      | LEAVE \<Rightarrow> (2, \<lparr>arg_IP = ip, arg_Port = UDP_PORT, arg_Article = []\<rparr>)
      | SUBS \<Rightarrow> (3, \<lparr>arg_IP = ip, arg_Port = UDP_PORT, arg_Article = article\<rparr>)
      | UNSUBS \<Rightarrow> (4, \<lparr>arg_IP = ip, arg_Port = UDP_PORT, arg_Article = article\<rparr>)
      | PUB \<Rightarrow> (5, \<lparr>arg_IP = ip, arg_Port = UDP_PORT, arg_Article = article\<rparr>)
      | PING \<Rightarrow> (6, \<lparr>arg_IP = [], arg_Port = 0, arg_Article = []\<rparr>))"

definition communicate_call ::
  "(string \<Rightarrow> bool) \<Rightarrow> string \<Rightarrow> string \<Rightarrow> RPC_TYPE \<Rightarrow> ps_client \<Rightarrow> ps_client result" where
  "communicate_call connect host article type s =
     (if connect host then Inr (s\<lparr>pc_calls := pc_calls s @ [(host, type, article)]\<rparr>) else Inl (Exit 1))"

section \<open>The registry's answer\<close>

text \<open>The rows \<open>printServerList\<close> prints: every token with its column.\<close>

fun print_rows :: "nat \<Rightarrow> string list \<Rightarrow> (nat \<times> string) list" where
  "print_rows counter [] = []"
| "print_rows counter (p_buffer # ts) = (counter, p_buffer) # print_rows ((counter + 1) mod 3) ts"

definition printServerList :: "string \<Rightarrow> (nat \<times> string) list" where
  "printServerList buffer = print_rows 0 (tokens '';'' buffer)"

text \<open>
  The token \<open>strtok\<close> finds first and its offset in the buffer, \<open>None\<close> for NULL.
\<close>

definition getIPfromList :: "string \<Rightarrow> (nat \<times> string) option" where
  "getIPfromList buffer =
     (case tokens '';'' buffer of [] \<Rightarrow> None
      | t # _ \<Rightarrow> Some (length (takeWhile (\<lambda>c. c = CHR '';'') buffer), t))"

definition pc_getServerList ::
  "(string \<Rightarrow> bool) \<Rightarrow> string \<Rightarrow> int \<Rightarrow> string \<Rightarrow> string option \<Rightarrow> ps_client \<Rightarrow> ps_client result" where
  "pc_getServerList aton host port ip reply s =
     (if \<not> aton host then Inl (Exit 1)
      else
        let command = snprintf_buf 127 (''GetList'' @ '';'' @ ''RPC'' @ '';'' @ ip @ '';'' @ to_string port);
            s1 = s\<lparr>pc_out := pc_out s @ [(host, port, command)]\<rparr>
        in case reply of None \<Rightarrow> Inl (Exit 1)
           | Some d \<Rightarrow>
               if PC_BUFLEN \<le> length d then Inl BufferOverflow
               else Inr (s1\<lparr>REG_BUFFER := cstr d\<rparr>))"

section \<open>Fail-over\<close>

text \<open>
  One round of \<open>ping\<close>: \<open>answered\<close> says whether the call came back. If not, the list is
  fetched and the client joins the first server of it; \<open>memcpy\<close> reads 120 bytes from the
  token on, which is outside the buffer unless the token is at its start. The result says
  whether this thread goes on.
\<close>

definition ping_round ::
  "(string \<Rightarrow> bool) \<Rightarrow> (string \<Rightarrow> bool) \<Rightarrow> string \<Rightarrow> bool \<Rightarrow> string option \<Rightarrow> ps_client \<Rightarrow> (bool \<times> ps_client) result" where
  "ping_round aton connect ip answered reply s =
     (if \<not> Is_client_live s then Inr (False, s)
      else if answered then Inr (True, s)
      else bindE (pc_getServerList aton (REG_host s) REGISTRY_PORT ip reply (s\<lparr>REG_BUFFER := []\<rparr>)) (\<lambda>s1.
        case getIPfromList (REG_BUFFER s1) of
          None \<Rightarrow> Inl (Exit 1)
        | Some (off, newIP) \<Rightarrow>
            if off \<noteq> 0 then Inl OutOfBounds
            else bindE (communicate_call connect newIP [] JOIN (s1\<lparr>IP_host := newIP\<rparr>)) (\<lambda>s2. Inr (False, s2))))"

section \<open>The console\<close>

text \<open>
  Commands and their argument lines, in order. \<open>pings\<close> of the result counts the ping
  threads that were started.
\<close>

fun pc_main ::
  "(string \<Rightarrow> bool) \<Rightarrow> string list \<Rightarrow> nat \<Rightarrow> ps_client \<Rightarrow> (nat \<times> ps_client) result" where
  "pc_main connect [] pings s = Inr (pings, s)"
| "pc_main connect [buffer] pings s =
     (if buffer = ''leave'' then
        bindE (communicate_call connect (IP_host s) buffer LEAVE s) (\<lambda>s'. Inr (pings, s'\<lparr>Is_client_live := False\<rparr>))
      else Inr (pings, s))"
| "pc_main connect (buffer # arg # ls) pings s =
     (if buffer = ''join'' then
        if isValidIP arg then
          bindE (communicate_call connect arg arg JOIN (s\<lparr>IP_host := arg\<rparr>)) (pc_main connect ls (pings + 1))
        else pc_main connect ls pings s
      else if buffer = ''publish'' then
        bindE (isValidArticle arg PUBLISH) (\<lambda>v.
          if \<not> v then pc_main connect ls pings s
          else bindE (communicate_call connect (IP_host s) arg PUB s) (pc_main connect ls pings))
      else if buffer = ''subs'' then
        bindE (isValidArticle arg SUBSCRIBE) (\<lambda>v.
          if \<not> v then pc_main connect ls pings s
          else bindE (communicate_call connect (IP_host s) arg SUBS s) (pc_main connect ls pings))
      else if buffer = ''unsubs'' then
        bindE (isValidArticle arg SUBSCRIBE) (\<lambda>v.
          if \<not> v then pc_main connect ls pings s
          else bindE (communicate_call connect (IP_host s) arg UNSUBS s) (pc_main connect ls pings))
      else if buffer = ''leave'' then
        bindE (communicate_call connect (IP_host s) buffer LEAVE s) (\<lambda>s'. Inr (pings, s'\<lparr>Is_client_live := False\<rparr>))
      else pc_main connect (arg # ls) pings s)"

section \<open>Validation\<close>

lemma count_three:
  assumes "count_list a (CHR '';'') = 3"
  obtains t org r c where "split_on (CHR '';'') a = [t, org, r, c]"
proof -
  have "length (split_on (CHR '';'') a) = Suc (Suc (Suc (Suc 0)))" using assms by (simp add: length_split_on)
  then show thesis using that by (auto simp: length_Suc_conv)
qed

lemma isValidArticle_eq:
  assumes "split_on (CHR '';'') a = [t, org, r, c]"
  shows "isValidArticle a type = Inr ((t = [] \<or> isValidType t) \<and> (t \<noteq> [] \<or> org \<noteq> [] \<or> r \<noteq> [])
     \<and> ((c \<noteq> []) = (type = PUBLISH)))"
proof -
  have "count_list a (CHR '';'') = 3" using length_split_on [of "CHR '';''" a] assms by simp
  then show ?thesis
    using assms by (cases type) (auto simp: isValidArticle_def getline_items_def Let_def isValidField_def)
qed

lemma valid_article_ok: "isValidArticle a type = Inr True \<Longrightarrow> count_list a (CHR '';'') = 3"
  by (auto simp: isValidArticle_def split: if_splits)

text \<open>
  C33: the client's validation reads no field that is not there and accepts exactly the
  articles of four fields whose first is empty or one of the eight types, with a field
  before the content that is not empty, and with a content exactly when it is published.
\<close>

theorem isValidArticle_spec:
  "isValidArticle a type = Inr
     (\<exists>t org r c. split_on (CHR '';'') a = [t, org, r, c] \<and> (t = [] \<or> isValidType t)
        \<and> (t \<noteq> [] \<or> org \<noteq> [] \<or> r \<noteq> []) \<and> ((c \<noteq> []) = (type = PUBLISH)))"
proof (cases "count_list a (CHR '';'') = 3")
  case True
  then obtain t org r c where s: "split_on (CHR '';'') a = [t, org, r, c]" by (rule count_three)
  show ?thesis using isValidArticle_eq [OF s, of type] by (auto simp: s)
next
  case False
  then have "length (split_on (CHR '';'') a) \<noteq> 4" by (simp add: length_split_on)
  then show ?thesis using False by (auto simp: isValidArticle_def)
qed

lemma isValidArticle_spec_witness: "isValidArticle ''Sports;;;'' SUBSCRIBE = Inr True"
proof -
  have "split_on (CHR '';'') ''Sports;;;'' = [''Sports'', [], [], []]" "isValidType ''Sports''" by code_simp+
  then show ?thesis by (simp add: isValidArticle_spec)
qed

section \<open>From subscription to delivery\<close>

definition serve ::
  "(string \<Rightarrow> bool) \<Rightarrow> RPC_TYPE \<Rightarrow> string \<Rightarrow> string \<Rightarrow> ps_server \<Rightarrow> (ps_reply \<times> ps_server) result" where
  "serve resolve type ip article s =
     (let (rq_proc, a) = rpc_request type ip article in communicate_prog_1 resolve rq_proc (Some a) s)"

lemma article_matches_fields:
  assumes "split_on (CHR '';'') f = [t, org, r, c]" "split_on (CHR '';'') a = [t', org', r', c']"
  shows "article_matches f a \<longleftrightarrow> (t \<noteq> [] \<or> org \<noteq> [] \<or> r \<noteq> [] \<or> c \<noteq> []) \<and> (t = [] \<or> t = t')
     \<and> (org = [] \<or> org = org') \<and> (r = [] \<or> r = r') \<and> (c = [] \<or> c = c')"
  using assms by (auto simp: article_matches_def)

lemma join_new:
  assumes "ps_inv s" "length (g_clientList s) < MAXCLIENT" "(ip, p) \<notin> psc_key ` set (g_clientList s)" "fits16 ip"
  shows "join_1_svc ip p s =
     Inr (False, s\<lparr>g_clientList := g_clientList s @ [\<lparr>psc_IP = ip, psc_Port = p, psc_filter = []\<rparr>]\<rparr>)"
  using assms by (simp add: join_1_svc_def find_client_None fits16_def strcpy_buf_def)

lemma find_client_new:
  "(ip, p) \<notin> psc_key ` set g \<Longrightarrow> find_client ip p (g @ [\<lparr>psc_IP = ip, psc_Port = p, psc_filter = fs\<rparr>]) = Some (length g)"
  by (induction g) (auto simp: find_client_def)

lemma subscribe_new:
  assumes "(ip, p) \<notin> psc_key ` set (g_clientList s)" "CHR 0x00 \<notin> set ip" "article_ok f"
  shows "subscribe_1_svc ip p f (s\<lparr>g_clientList := g_clientList s @ [\<lparr>psc_IP = ip, psc_Port = p, psc_filter = []\<rparr>]\<rparr>)
     = (False, s\<lparr>g_clientList := g_clientList s @ [\<lparr>psc_IP = ip, psc_Port = p, psc_filter = [f]\<rparr>]\<rparr>)"
  using assms by (simp add: subscribe_1_svc_def Let_def find_client_new article_ok_def nth_append list_update_append)

text \<open>
  C7: from subscription to delivery. When a server that is not full takes a new client, the
  client's validated subscription and then anybody's validated article, all three calls
  succeed, the article goes to those who wanted it before, and the new client is sent it exactly when type, originator and
  organisation agree with the subscription wherever it names one: validated subscriptions
  never constrain the content and never match everything.
\<close>

theorem pubsub_delivery:
  assumes "ps_inv s" "length (g_clientList s) < 5" "(ip, 5110) \<notin> psc_key ` set (g_clientList s)" "fits16 ip"
    and "isValidArticle f SUBSCRIBE = Inr True" "isValidArticle a PUBLISH = Inr True"
    and "CHR 0x00 \<notin> set f" "CHR 0x00 \<notin> set a"
    and "\<forall>c\<in>set (g_clientList s). resolve (psc_IP c)" "resolve ip"
  shows "\<exists>s1 s2 s3. serve resolve JOIN ip [] s = Inr (Reply_bool False, s1)
     \<and> serve resolve SUBS ip f s1 = Inr (Reply_bool False, s2)
     \<and> serve resolve PUB ip' a s2 = Inr (Reply_bool False, s3)
     \<and> ps_out s3 = ps_out s
         @ map (\<lambda>c. (psc_IP c, psc_Port c mod 65536, a)) (filter (wants a) (g_clientList s))
         @ (if \<forall>k<3. split_on (CHR '';'') f ! k = [] \<or> split_on (CHR '';'') f ! k = split_on (CHR '';'') a ! k
            then [(ip, 5110, a)] else [])"
proof -
  let ?g = "g_clientList s"
  let ?c = "\<lparr>psc_IP = ip, psc_Port = 5110, psc_filter = [f]\<rparr>"
  have f3: "count_list f (CHR '';'') = 3" and a3: "count_list a (CHR '';'') = 3"
    using valid_article_ok assms(5,6) by blast+
  obtain t og r c where fs: "split_on (CHR '';'') f = [t, og, r, c]" using f3 by (rule count_three)
  obtain t' og' r' c' where as: "split_on (CHR '';'') a = [t', og', r', c']" using a3 by (rule count_three)
  have v: "(t \<noteq> [] \<or> og \<noteq> [] \<or> r \<noteq> []) \<and> c = []"
    using assms(5) isValidArticle_eq [OF fs, of SUBSCRIBE] by simp
  have ok: "article_ok f" "article_ok a" using f3 a3 assms(7,8) by (simp_all add: article_ok_def)
  have m: "article_matches f a \<longleftrightarrow>
      (\<forall>k<3. split_on (CHR '';'') f ! k = [] \<or> split_on (CHR '';'') f ! k = split_on (CHR '';'') a ! k)"
    unfolding article_matches_fields [OF fs as] using v by (auto simp: fs as eval_nat_numeral less_Suc_eq)
  define s2 where "s2 = s\<lparr>g_clientList := ?g @ [?c]\<rparr>"
  have nul: "CHR 0x00 \<notin> set ip" using assms(4) by (simp add: fits16_def)
  have flt: "\<forall>c\<in>set (g_clientList s2). \<forall>f\<in>set (psc_filter c). count_list f (CHR '';'') = 3"
    using assms(1) f3 by (auto simp: s2_def ps_inv_def list_all_iff psc_ok_def article_ok_def)
  let ?sent = "map (\<lambda>c. (psc_IP c, psc_Port c mod 65536, a)) (filter (wants a) (g_clientList s2))"
  have pub: "publish_1_svc resolve a ip' 5110 s2 = Inr (False, s2\<lparr>ps_out := ps_out s2 @ ?sent\<rparr>)"
    using clients_loop_eq [OF flt a3, of resolve] assms(9,10) ok(2)
    by (simp add: publish_1_svc_def Let_def fill_buffer_fields article_ok_def s2_def)
  have "?sent = map (\<lambda>c. (psc_IP c, psc_Port c mod 65536, a)) (filter (wants a) ?g)
      @ (if article_matches f a then [(ip, 5110, a)] else [])"
    by (simp add: s2_def wants_def)
  then show ?thesis
    using pub m join_new [OF assms(1-4)] subscribe_new [OF assms(3) nul ok(1)]
    by (simp add: serve_def rpc_request_def communicate_prog_1_def s2_def)
qed

lemma pubsub_delivery_witness:
  "\<exists>s1 s2 s3. serve (\<lambda>_. True) JOIN ''10.0.0.3'' [] sample_ps = Inr (Reply_bool False, s1)
     \<and> serve (\<lambda>_. True) SUBS ''10.0.0.3'' ''Science;;UMN;'' s1 = Inr (Reply_bool False, s2)
     \<and> serve (\<lambda>_. True) PUB ''10.0.0.2'' ''Science;Someone;UMN;text'' s2 = Inr (Reply_bool False, s3)
     \<and> ps_out s3 = [(''10.0.0.1'', 5110, ''Science;Someone;UMN;text''), (''10.0.0.2'', 5110, ''Science;Someone;UMN;text''),
                   (''10.0.0.3'', 5110, ''Science;Someone;UMN;text'')]"
proof -
  have h: "isValidArticle ''Science;;UMN;'' SUBSCRIBE = Inr True" "isValidArticle ''Science;Someone;UMN;text'' PUBLISH = Inr True"
    by code_simp+
  have n: "length (g_clientList sample_ps) < 5" "(''10.0.0.3'', 5110) \<notin> psc_key ` set (g_clientList sample_ps)" "fits16 ''10.0.0.3''"
    by (simp_all add: sample_ps_def fits16_def)
  have w: "map (\<lambda>c. (psc_IP c, psc_Port c mod 65536, ''Science;Someone;UMN;text'')) (filter (wants ''Science;Someone;UMN;text'') (g_clientList sample_ps))
      = [(''10.0.0.1'', 5110, ''Science;Someone;UMN;text''), (''10.0.0.2'', 5110, ''Science;Someone;UMN;text'')]"
    by (simp add: sample_ps_def wants_def article_matches_def)
  have k: "\<forall>k<3. split_on (CHR '';'') ''Science;;UMN;'' ! k = [] \<or> split_on (CHR '';'') ''Science;;UMN;'' ! k = split_on (CHR '';'') ''Science;Someone;UMN;text'' ! k"
    by (simp add: less_Suc_eq eval_nat_numeral)
  have o: "ps_out sample_ps = []" by (simp add: sample_ps_def)
  from pubsub_delivery [OF sample_ps_inv n h, of "\<lambda>_. True" "''10.0.0.2''"]
  show ?thesis unfolding w o if_P [OF k] by simp
qed

section \<open>Fail-over to another server\<close>

lemma reply_head:
  assumes "reg_inv g" "getServerList g RPC = Inr reply" "reply \<noteq> []"
  shows "hd reply \<noteq> CHR '';''"
proof -
  let ?h = "filter (\<lambda>s. m_rpcFormat s = RPC) g"
  have ok: "list_all entry_ok g" using assms(1) by (simp add: reg_inv_def)
  have r: "reply = butlast (concat (map (server_entry RPC) ?h))"
    using assms(2,3) getServerList_InrD [of RPC g "[]", OF _ ok]
    by (auto simp: getServerList_def result_simps split: if_splits)
  then obtain s h where h: "?h = s # h" using assms(3) by (cases ?h) auto
  then have "entry_ok s" using ok by (metis Cons_eq_filterD in_set_conv_decomp list_all_iff)
  then have ip: "m_szIPAddress s \<noteq> []" "CHR '';'' \<notin> set (m_szIPAddress s)"
    using entry_chars(2,3) by auto
  then have "hd (server_entry RPC s) \<noteq> CHR '';''" "server_entry RPC s \<noteq> []"
    by (cases "m_szIPAddress s"; auto simp: server_entry_def)+
  moreover have "hd reply = hd (concat (map (server_entry RPC) ?h))"
    using assms(3) unfolding r by (metis append_butlast_last_id butlast.simps(1) hd_append2)
  ultimately show ?thesis by (simp add: h)
qed

text \<open>
  C28: fail-over. When the group server stops answering and the registry's answer fits the
  client's buffer, the client joins the first RPC server the registry lists and ends this
  ping thread, or exits when there is none. Join is the only call it makes: what it had
  subscribed to at the old server is not subscribed to at the new one.
\<close>

theorem client_failover:
  assumes "reg_inv g" "getServerList g RPC = Inr reply" "length reply < 120"
    and "Is_client_live s" "aton (REG_host s)" "\<forall>e\<in>set g. connect (m_szIPAddress e)"
  shows "case filter (\<lambda>e. m_rpcFormat e = RPC) g of
      [] \<Rightarrow> ping_round aton connect ip False (Some reply) s = Inl (Exit 1)
    | e # es \<Rightarrow> \<exists>s'. ping_round aton connect ip False (Some reply) s = Inr (False, s')
        \<and> IP_host s' = m_szIPAddress e \<and> pc_calls s' = pc_calls s @ [(m_szIPAddress e, JOIN, [])]"
proof -
  have t: "tokens '';'' reply = concat (map (entry_fields RPC) (filter (\<lambda>e. m_rpcFormat e = RPC) g))"
    by (rule reply_tokens [OF assms(1,2)])
  have c: "cstr reply = reply" using reply_clean [OF assms(1,2)] by simp
  show ?thesis
  proof (cases "filter (\<lambda>e. m_rpcFormat e = RPC) g")
    case Nil
    then show ?thesis using assms(3-5) t c
      by (simp add: ping_round_def pc_getServerList_def getIPfromList_def del: filter_empty_conv)
  next
    case (Cons e es)
    then have e: "e \<in> set g" by (metis Cons_eq_filterD in_set_conv_decomp)
    have "reply \<noteq> []" using t Cons by (auto simp: entry_fields_def)
    then have "takeWhile (\<lambda>c. c = CHR '';'') reply = []"
      using reply_head [OF assms(1,2)] by (cases reply) auto
    then show ?thesis using assms(3-6) t c Cons e
      by (simp add: ping_round_def pc_getServerList_def getIPfromList_def entry_fields_def communicate_call_def)
  qed
qed

lemma client_failover_witness:
  "\<exists>s'. ping_round (\<lambda>_. True) (\<lambda>_. True) ''10.0.0.3'' False (Some ''10.0.0.7;0;1'')
       \<lparr>IP_host = ''10.0.0.8'', REG_host = ''10.0.0.9'', REG_BUFFER = [], Is_client_live = True, pc_calls = [], pc_out = []\<rparr>
     = Inr (False, s') \<and> IP_host s' = ''10.0.0.7''"
proof -
  have h: "isValidIP ''10.0.0.7''" "isValidPort 8888" "to_string 1 = ''1''" "to_string 0 = ''0''"
    by code_simp+
  then have inv: "reg_inv [group_entry ''10.0.0.7'']" by (simp add: reg_inv_def entry_ok_def group_entry_def)
  have r: "getServerList [group_entry ''10.0.0.7''] RPC = Inr ''10.0.0.7;0;1''"
    by (simp add: getServerList_def group_entry_def server_entry_def h strcpy_buf_def)
  from client_failover [OF inv r, of "\<lparr>IP_host = ''10.0.0.8'', REG_host = ''10.0.0.9'', REG_BUFFER = [], Is_client_live = True, pc_calls = [], pc_out = []\<rparr>"
      "\<lambda>_. True" "\<lambda>_. True" "''10.0.0.3''"]
  show ?thesis by (auto simp: group_entry_def)
qed

end
