(* ===== verification/SubscriberProcess.thy ===== *)
theory SubscriberProcess
  imports PubSubClient Process
begin

text \<open>
  A PubSub client as a process (Project1/Client/communicate_client.cpp): the thread that
  receives articles (\<open>listen\<close>), the ping threads and the console of \<open>main\<close>, on the client's
  globals and \<open>Is_client_live\<close>. \<open>sp_shown\<close> are the articles printed.
\<close>

section \<open>The threads\<close>

text \<open>The buffer has 120 bytes, and so many are received; the NUL is written behind them.\<close>

definition show_article :: "string \<Rightarrow> string list \<Rightarrow> string list result" where
  "show_article datagram shown =
     (let buf = take PC_BUFLEN datagram in
      if length buf = PC_BUFLEN then Inl BufferOverflow else Inr (shown @ [cstr buf]))"

definition pc_listen :: "bool \<Rightarrow> recv_event \<Rightarrow> string list \<Rightarrow> string list result" where
  "pc_listen live r shown = on_recv show_article 1 live r shown"

record sub_process =
  sp_client :: ps_client
  sp_pings :: nat
  sp_shown :: "string list"

text \<open>
  \<open>main\<close> fetches and prints the registry's list before it starts the listener. \<open>Command\<close> is
  a line of the console with the line it asks for, if any; a ping round belongs to one of
  the threads that were started.
\<close>

definition subscriber_main ::
  "(string \<Rightarrow> bool) \<Rightarrow> string \<Rightarrow> string option \<Rightarrow> string list \<Rightarrow> sub_process result" where
  "subscriber_main aton ip reply argv =
     (case argv of
        [] \<Rightarrow> Inl (Exit 1)
      | registry_host # _ \<Rightarrow>
          bindE (pc_getServerList aton registry_host REGISTRY_PORT ip reply
                   \<lparr>IP_host = [], REG_host = registry_host, REG_BUFFER = [], Is_client_live = True, pc_calls = [], pc_out = []\<rparr>)
            (\<lambda>s. Inr \<lparr>sp_client = s, sp_pings = 0, sp_shown = []\<rparr>))"

datatype sub_event = Article recv_event | Ping bool "string option" | Command string string

definition takes_argument :: "string \<Rightarrow> bool" where
  "takes_argument buffer \<longleftrightarrow> buffer \<in> {''join'', ''publish'', ''subs'', ''unsubs''}"

definition command_lines :: "string \<Rightarrow> string \<Rightarrow> string list" where
  "command_lines buffer arg = (if takes_argument buffer then [buffer, arg] else [buffer])"

fun sub_step ::
  "(string \<Rightarrow> bool) \<Rightarrow> (string \<Rightarrow> bool) \<Rightarrow> string \<Rightarrow> sub_event \<Rightarrow> sub_process \<Rightarrow> sub_process result" where
  "sub_step aton connect ip (Article r) p =
     bindE (pc_listen (Is_client_live (sp_client p)) r (sp_shown p)) (\<lambda>shown. Inr (p\<lparr>sp_shown := shown\<rparr>))"
| "sub_step aton connect ip (Ping answered reply) p =
     (if sp_pings p = 0 then Inr p
      else bindE (ping_round aton connect ip answered reply (sp_client p)) (\<lambda>(goes_on, s).
             let rejoined = Is_client_live (sp_client p) \<and> \<not> answered
             in Inr (p\<lparr>sp_client := s, sp_pings := (if goes_on \<or> rejoined then sp_pings p else sp_pings p - 1)\<rparr>)))"
| "sub_step aton connect ip (Command buffer arg) p =
     (if Is_client_live (sp_client p)
      then bindE (pc_main connect (command_lines buffer arg) (sp_pings p) (sp_client p)) (\<lambda>(n, s).
             Inr (p\<lparr>sp_client := s, sp_pings := n\<rparr>))
      else Inr p)"

section \<open>Runs\<close>

definition sub_stop :: "sub_event \<Rightarrow> bool" where
  "sub_stop e \<longleftrightarrow> (\<exists>arg. e = Command ''leave'' arg)"

definition sub_silent :: "sub_event \<Rightarrow> bool" where
  "sub_silent e \<longleftrightarrow> e = Article Silence"

definition sub_may_end :: "(string \<Rightarrow> bool) \<Rightarrow> sub_event \<Rightarrow> sub_process \<Rightarrow> fault \<Rightarrow> bool" where
  "sub_may_end connect e p f \<longleftrightarrow>
     (case e of
        Article (Datagram d) \<Rightarrow> f = BufferOverflow \<and> 120 \<le> length d
      | Article Silence \<Rightarrow> f = Exit 1 \<and> \<not> Is_client_live (sp_client p)
      | Ping answered reply \<Rightarrow> \<not> answered \<and> Is_client_live (sp_client p)
      | Command buffer arg \<Rightarrow> f = Exit 1 \<and> (\<exists>host. \<not> connect host))"

lemma isValidArticle_total: "isValidArticle a t \<noteq> Inl f"
proof (cases "count_list a (CHR '';'') = 3")
  case True
  then obtain x y z w where "split_on (CHR '';'') a = [x, y, z, w]" by (rule count_three)
  then show ?thesis by (simp add: isValidArticle_eq)
qed (simp add: isValidArticle_def)

lemma sub_command:
  "pc_main connect (command_lines buffer arg) n s = Inr (n', s') \<Longrightarrow> Is_client_live s' \<longleftrightarrow> Is_client_live s \<and> buffer \<noteq> ''leave''"
  "pc_main connect (command_lines buffer arg) n s = Inl f \<Longrightarrow> f = Exit 1 \<and> (\<exists>host. \<not> connect host)"
  by (auto simp: command_lines_def takes_argument_def communicate_call_def bindE_Inr_iff bindE_Inl_iff isValidArticle_total split: if_splits)

lemma ping_round_flag:
  "ping_round aton connect ip answered reply s = Inr (b, s') \<Longrightarrow> Is_client_live s' = Is_client_live s"
  by (auto simp: ping_round_def pc_getServerList_def communicate_call_def bindE_Inr_iff Let_def split: if_splits option.splits)

lemma ping_round_fault:
  "ping_round aton connect ip answered reply s = Inl f \<Longrightarrow> \<not> answered \<and> Is_client_live s"
  by (auto simp: ping_round_def split: if_splits)

lemma sub_step_cases:
  "sub_step aton connect ip e p = Inr p' \<Longrightarrow> Is_client_live (sp_client p') \<longleftrightarrow> Is_client_live (sp_client p) \<and> \<not> sub_stop e"
  "sub_step aton connect ip e p = Inl f \<Longrightarrow> sub_may_end connect e p f"
  "sub_silent e \<Longrightarrow> sub_step aton connect ip e p = (if Is_client_live (sp_client p) then Inr p else Inl (Exit 1))"
proof -
  show "sub_step aton connect ip e p = Inr p' \<Longrightarrow> Is_client_live (sp_client p') \<longleftrightarrow> Is_client_live (sp_client p) \<and> \<not> sub_stop e"
    by (cases e) (auto simp: sub_stop_def bindE_Inr_iff Let_def simp del: pc_main.simps split: if_splits
      dest: sub_command(1) ping_round_flag)
  show "sub_step aton connect ip e p = Inl f \<Longrightarrow> sub_may_end connect e p f"
    by (cases e) (auto simp: sub_may_end_def pc_listen_def on_recv_Inl show_article_def Let_def bindE_Inl_iff min_def simp del: pc_main.simps
      split: if_splits dest: sub_command(2) ping_round_fault)
  show "sub_silent e \<Longrightarrow> sub_step aton connect ip e p = (if Is_client_live (sp_client p) then Inr p else Inl (Exit 1))"
    by (simp add: sub_silent_def pc_listen_def)
qed

interpretation subscriber: stoppable "sub_step aton connect ip" "\<lambda>_. True" "sub_may_end connect"
  "\<lambda>p. Is_client_live (sp_client p)" sub_stop sub_silent 1
  by unfold_locales (simp_all add: sub_step_cases)

text \<open>
  C40: every run of a subscriber. It is live until \<open>leave\<close> is typed, after which the first
  silence of its listener ends it with code 1. Before, a run ends only at an article of 120
  bytes or more, which overruns the buffer, at a ping no server answers, or at a command
  when the server cannot be reached. A group server sends articles of any length: the
  client's own console limits what it publishes, the remote procedure does not.
\<close>

theorem subscriber_runs:
  assumes "Is_client_live (sp_client p)"
  shows "case run_events (sub_step aton connect ip) es p of
      Inr p' \<Rightarrow> (Is_client_live (sp_client p') \<longleftrightarrow> (\<forall>arg. Command ''leave'' arg \<notin> set es))
        \<and> (\<forall>es1 arg es2. es = es1 @ Command ''leave'' arg # es2 \<longrightarrow> Article Silence \<notin> set es2)
        \<and> (\<forall>d. Article (Datagram d) \<in> set es \<longrightarrow> length d < 120)
    | Inl f \<Rightarrow> \<exists>es1 e es2 p1. es = es1 @ e # es2 \<and> run_events (sub_step aton connect ip) es1 p = Inr p1
        \<and> (case e of
             Article (Datagram d) \<Rightarrow> f = BufferOverflow \<and> 120 \<le> length d
           | Article Silence \<Rightarrow> f = Exit 1 \<and> (\<exists>arg. Command ''leave'' arg \<in> set es1)
           | Ping answered reply \<Rightarrow> \<not> answered
           | Command buffer arg \<Rightarrow> f = Exit 1 \<and> (\<exists>host. \<not> connect host))"
proof -
  let ?run = "run_events (sub_step aton connect ip)"
  note o = subscriber.run_outcome [OF TrueI, of p, OF assms, of aton connect ip es, unfolded subscriber.outcome_def]
  have short: "length d < 120" if r: "?run es p = Inr p'" and m: "Article (Datagram d) \<in> set es" for d p'
  proof -
    obtain es1 es2 where es: "es = es1 @ Article (Datagram d) # es2" using m by (meson split_list)
    then show ?thesis using r
      by (auto simp: run_events_append bindE_Inr_iff pc_listen_def show_article_def Let_def split: if_splits)
  qed
  show ?thesis
  proof (cases "?run es p")
    case (Inl f)
    with o obtain es1 e es2 p1 where r: "es = es1 @ e # es2" "?run es1 p = Inr p1"
      "if sub_silent e then f = Exit 1 \<and> (\<exists>e'\<in>set es1. sub_stop e') else sub_may_end connect e p1 f"
      by auto
    from r(3) show ?thesis unfolding Inl sum.case
      by (intro exI [of _ es1] exI [of _ e] exI [of _ es2] exI [of _ p1] conjI r(1,2))
        (auto simp: sub_may_end_def sub_silent_def sub_stop_def split: if_splits sub_event.splits recv_event.splits)
  next
    case (Inr p')
    with o have "Is_client_live (sp_client p') \<longleftrightarrow> (\<forall>e\<in>set es. \<not> sub_stop e)"
      "\<forall>es1 e es2. es = es1 @ e # es2 \<and> sub_stop e \<longrightarrow> \<not> (\<exists>e'\<in>set es2. sub_silent e')"
      unfolding Inr sum.case by blast+
    then have "Is_client_live (sp_client p') \<longleftrightarrow> (\<forall>arg. Command ''leave'' arg \<notin> set es)"
      "es = es1 @ Command ''leave'' arg # es2 \<Longrightarrow> Article Silence \<notin> set es2" for es1 arg es2
      unfolding sub_stop_def sub_silent_def by blast+
    with Inr short [OF Inr] show ?thesis by simp
  qed
qed

lemma subscriber_runs_witness:
  "\<exists>p. Is_client_live (sp_client p) \<and> (\<exists>p'. run_events (sub_step (\<lambda>_. True) (\<lambda>_. True) ''10.0.0.3'')
       [Article (Datagram ''Science;A;UMN;text''), Command ''leave'' [], Article (Datagram ''Science;B;UMN;text'')] p = Inr p'
     \<and> \<not> Is_client_live (sp_client p') \<and> sp_shown p' = [''Science;A;UMN;text'', ''Science;B;UMN;text''])"
proof -
  let ?p = "\<lparr>sp_client = \<lparr>IP_host = ''10.0.0.1'', REG_host = [], REG_BUFFER = [], Is_client_live = True, pc_calls = [], pc_out = []\<rparr>,
     sp_pings = 0, sp_shown = []\<rparr>"
  let ?es = "[Article (Datagram ''Science;A;UMN;text''), Command ''leave'' [], Article (Datagram ''Science;B;UMN;text'')]"
  obtain p' where p': "run_events (sub_step (\<lambda>_. True) (\<lambda>_. True) ''10.0.0.3'') ?es ?p = Inr p'"
    "sp_shown p' = [''Science;A;UMN;text'', ''Science;B;UMN;text'']"
    by (simp add: pc_listen_def show_article_def command_lines_def takes_argument_def communicate_call_def Let_def)
  have "Is_client_live (sp_client ?p)" by simp
  from subscriber_runs [OF this, where aton = "\<lambda>_. True" and connect = "\<lambda>_. True" and ip = "''10.0.0.3''" and es = ?es] p'
  show ?thesis by (intro exI [of _ ?p] conjI exI [of _ p']) auto
qed

end
