(* ===== verification/BBSystem.thy ===== *)
theory BBSystem
  imports StringTokenizer AddrTable "HOL-Library.Word" "HOL-Library.Multiset"
begin

text \<open>
  The base class of the bulletin board servers (Project2/Server/BB_system.h,
  BB_system.cpp). \<open>bb_server\<close> is the object of class \<open>Server\<close> together with what the
  process sees of the network: \<open>local_ip\<close> is what \<open>checkip()\<close> reads from the
  interface, \<open>inbox\<close> holds the datagrams that wait at the local ports, \<open>outbox\<close> the
  datagrams handed to \<open>sendto\<close> in order (target address, target port, payload). The
  derived classes extend the record. The virtual handlers are the fields of \<open>vtable\<close>,
  an argument of the listen loop.

  UDP may lose, delay or reorder what is in \<open>outbox\<close>; a failing socket call counts as a
  lost datagram. Delays and console output are not modelled. \<open>std::sort\<close> is modelled by
  a stable sort; the lemmas about its result ask for distinct IDs, where every sort agrees.
\<close>

section \<open>Data\<close>

record SAddr =
  sa_ip :: string
  sa_port :: int

record Article =
  art_ID :: "32 word"
  art_primaryIP :: string
  art_content :: "string list"
  art_hierachy :: "32 word"

record bb_server =
  local_ip :: string
  inbox :: "int \<Rightarrow> string list"
  outbox :: "(string \<times> int \<times> string) list"
  coordinatorIP :: string
  IsCoordinator :: bool
  SIPs :: "SAddr list"
  CIPs :: "SAddr list"
  articles :: "Article list"

abbreviation SERVERPORT :: int where "SERVERPORT \<equiv> 5105"
abbreviation CLIENTPORT :: int where "CLIENTPORT \<equiv> 5106"
abbreviation BB_BUFLEN :: nat where "BB_BUFLEN \<equiv> 8000"

section \<open>The UDP layer\<close>

text \<open>
  \<open>UDP_send\<close>: the port parameter is an \<open>unsigned short\<close>, the payload ends at its first
  NUL (\<open>strlen\<close>). \<open>UDP_receive\<close> is \<open>receive\<close>: it blocks until a datagram is there; the
  buffer has BUFLEN bytes and the terminating NUL is stored behind the last byte read, so
  a datagram of BUFLEN bytes or more writes one past the end.
\<close>

definition UDP_send :: "string \<Rightarrow> int \<Rightarrow> string \<Rightarrow> 'a bb_server_scheme \<Rightarrow> 'a bb_server_scheme" where
  "UDP_send target targetport message s =
     s\<lparr>outbox := outbox s @ [(target, targetport mod 65536, cstr message)]\<rparr>"

definition UDP_receive :: "int \<Rightarrow> 'a bb_server_scheme \<Rightarrow> (string \<times> 'a bb_server_scheme) result" where
  "UDP_receive targetport s =
     (case inbox s targetport of
        [] \<Rightarrow> Inl Blocked
      | d # ds \<Rightarrow>
          if BB_BUFLEN \<le> length d then Inl OutOfBounds
          else Inr (cstr d, s\<lparr>inbox := (inbox s)(targetport := ds)\<rparr>))"

definition checkip :: "'a bb_server_scheme \<Rightarrow> string" where
  "checkip s = local_ip s"

section \<open>Address vectors\<close>

definition findIPs :: "string \<Rightarrow> int \<Rightarrow> SAddr list \<Rightarrow> nat option" where
  "findIPs strIPAddress nPort IPs =
     find_iter (\<lambda>it. strIPAddress = sa_ip it \<and> nPort = sa_port it) IPs"

definition removeIP :: "string \<Rightarrow> int \<Rightarrow> SAddr list \<Rightarrow> SAddr list" where
  "removeIP strIPAddress nPort IPs =
     (case findIPs strIPAddress nPort IPs of None \<Rightarrow> IPs | Some it \<Rightarrow> erase_iter it IPs)"

definition add_addr :: "string \<Rightarrow> int \<Rightarrow> SAddr list \<Rightarrow> SAddr list result" where
  "add_addr strIPAddress nPort IPs =
     (if findIPs strIPAddress nPort IPs = None
      then bindE (strcpy_buf 16 strIPAddress)
             (\<lambda>ip. Inr (IPs @ [\<lparr>sa_ip = ip, sa_port = nPort\<rparr>]))
      else Inr IPs)"

definition bb_addServer :: "string \<Rightarrow> int \<Rightarrow> 'a bb_server_scheme \<Rightarrow> 'a bb_server_scheme result" where
  "bb_addServer ip p s = bindE (add_addr ip p (SIPs s)) (\<lambda>l. Inr (s\<lparr>SIPs := l\<rparr>))"

definition bb_addClient :: "string \<Rightarrow> int \<Rightarrow> 'a bb_server_scheme \<Rightarrow> 'a bb_server_scheme result" where
  "bb_addClient ip p s = bindE (add_addr ip p (CIPs s)) (\<lambda>l. Inr (s\<lparr>CIPs := l\<rparr>))"

definition findArticlebyID :: "32 word \<Rightarrow> 'a bb_server_scheme \<Rightarrow> nat option" where
  "findArticlebyID inID s = find_iter (\<lambda>it. art_ID it = inID) (articles s)"

definition addr_entry :: "SAddr \<Rightarrow> string" where
  "addr_entry it = sa_ip it @ '';'' @ to_string (sa_port it) @ '';''"

fun bb_getServerList_loop :: "SAddr list \<Rightarrow> string \<Rightarrow> string result" where
  "bb_getServerList_loop [] strServerList = Inr strServerList"
| "bb_getServerList_loop (it # its) strServerList =
     bindE (strcpy_buf 32 (addr_entry it))
       (\<lambda>szInfo. bb_getServerList_loop its (strServerList @ szInfo))"

definition bb_getServerList :: "'a bb_server_scheme \<Rightarrow> string result" where
  "bb_getServerList s =
     bindE (bb_getServerList_loop (SIPs s) [])
       (\<lambda>l. Inr (if length l > 0 then butlast l else l))"

section \<open>Start and end of a server\<close>

text \<open>The constructor: a coordinator enters itself as the first server.\<close>

definition Server_init :: "string \<Rightarrow> (int \<Rightarrow> string list) \<Rightarrow> bool \<Rightarrow> bb_server result" where
  "Server_init ip inb Coord =
     (let s = \<lparr>local_ip = ip, inbox = inb, outbox = [], coordinatorIP = [], IsCoordinator = Coord,
               SIPs = [], CIPs = [], articles = []\<rparr>
      in if Coord then bb_addServer (checkip s) SERVERPORT (s\<lparr>coordinatorIP := checkip s\<rparr>)
         else Inr s)"

text \<open>\<open>sent\<close> is whether \<open>UDP_send\<close> succeeds; only here does a caller look at it.\<close>

definition RegisterS :: "bool \<Rightarrow> string \<Rightarrow> 'a bb_server_scheme \<Rightarrow> int \<times> 'a bb_server_scheme" where
  "RegisterS sent coordIP s =
     (let message = ''RegisterS;'' @ checkip s @ '';'' @ to_string SERVERPORT @ '';''
      in if \<not> IsCoordinator s
         then let s' = s\<lparr>coordinatorIP := coordIP\<rparr>
              in if sent then (0, UDP_send coordIP SERVERPORT message s') else (- 1, s')
         else (- 1, s))"

definition DeregisterS :: "'a bb_server_scheme \<Rightarrow> 'a bb_server_scheme" where
  "DeregisterS s =
     (let message = ''LeaveS;'' @ checkip s @ '';'' @ to_string SERVERPORT @ '';''
      in if coordinatorIP s \<noteq> [] then
           (if IsCoordinator s then s\<lparr>SIPs := removeIP (coordinatorIP s) SERVERPORT (SIPs s)\<rparr>
            else UDP_send (coordinatorIP s) SERVERPORT message s)
         else s)"

section \<open>Sending the articles\<close>

text \<open>
  The articles are sorted by ID in place, then printed as \<open>content;hierachy$\<close>. Reading
  \<open>content[0]\<close> of an article without content is out of bounds.
\<close>

fun article_list :: "Article list \<Rightarrow> string \<Rightarrow> string result" where
  "article_list [] acc = Inr acc"
| "article_list (it # its) acc =
     (case art_content it of
        [] \<Rightarrow> Inl OutOfBounds
      | c # _ \<Rightarrow> article_list its (acc @ c @ '';'' @ to_string (uint (art_hierachy it)) @ ''$''))"

definition sendArticle ::
  "string \<Rightarrow> int \<Rightarrow> 'a bb_server_scheme \<Rightarrow> 'a bb_server_scheme result" where
  "sendArticle targetIP targetport s =
     (let sorted_articles = sort_key art_ID (articles s);
          s' = s\<lparr>articles := sorted_articles\<rparr>
      in bindE (article_list sorted_articles [])
           (\<lambda>strContentList.
              Inr (UDP_send targetIP targetport
                     (if length strContentList > 0 then butlast strContentList else strContentList) s')))"

section \<open>The listen loop\<close>

datatype bb_command =
    BB_UNKNOWN | REGISTERS | DEREGISTERS | REGISTERC | DEREGISTERC | BB_GETLIST | FRESHIPS
  | POST | READ | CHOOSE | REPLY

record 's vtable =
  Post_handler :: "SAddr \<Rightarrow> string \<Rightarrow> 's \<Rightarrow> 's result"
  Read_handler :: "SAddr \<Rightarrow> 's \<Rightarrow> 's result"
  Choose_handler :: "SAddr \<Rightarrow> string \<Rightarrow> 's \<Rightarrow> 's result"
  Reply_handler :: "SAddr \<Rightarrow> string \<Rightarrow> 's \<Rightarrow> 's result"

definition bb_command_of :: "bool \<Rightarrow> string \<Rightarrow> bb_command" where
  "bb_command_of coord strCommand =
     (if coord \<and> strcaseeq strCommand ''RegisterS'' then REGISTERS
      else if \<not> coord \<and> strcaseeq strCommand ''FreshIPs'' then FRESHIPS
      else if strcaseeq strCommand ''RegisterC'' then REGISTERC
      else if coord \<and> strcaseeq strCommand ''LeaveS'' then DEREGISTERS
      else if strcaseeq strCommand ''LeaveC'' then DEREGISTERC
      else if strcaseeq strCommand ''GetList'' then BB_GETLIST
      else if strcaseeq strCommand ''POST'' then POST
      else if strcaseeq strCommand ''READ'' then READ
      else if strcaseeq strCommand ''CHOOSE'' then CHOOSE
      else if strcaseeq strCommand ''REPLY'' then REPLY
      else BB_UNKNOWN)"

text \<open>Broadcast of the new server list to every server but the first.\<close>

definition fresh_message :: "'a bb_server_scheme \<Rightarrow> string result" where
  "fresh_message s =
     (case SIPs s of
        [] \<Rightarrow> Inl OutOfBounds
      | first # _ \<Rightarrow>
          bindE (bb_getServerList s)
            (\<lambda>l. Inr (''FreshIPs;'' @ sa_ip first @ '';'' @ to_string (sa_port first) @ '';'' @ l)))"

definition bb_register_server ::
  "string \<Rightarrow> int \<Rightarrow> 'a bb_server_scheme \<Rightarrow> 'a bb_server_scheme result" where
  "bb_register_server ip p s =
     bindE (bb_addServer ip p s) (\<lambda>s1.
       bindE (fresh_message s1) (\<lambda>m.
         Inr (fold (\<lambda>it. UDP_send (sa_ip it) (sa_port it) m) (tl (SIPs s1)) s1)))"

text \<open>The loop that reads the list back: an address, a port, until no token is left.\<close>

fun fresh_loop :: "string list \<Rightarrow> 'a bb_server_scheme \<Rightarrow> 'a bb_server_scheme result" where
  "fresh_loop [] s = Inr s"
| "fresh_loop [sIP] s = bindE (bb_addServer sIP (atoi []) s) (fresh_loop [])"
| "fresh_loop (sIP # sPort # ts) s = bindE (bb_addServer sIP (atoi sPort) s) (fresh_loop ts)"

text \<open>Dropping a field of a request; without a \<open>;\<close> nothing is left.\<close>

definition drop_request_field :: "string \<Rightarrow> string" where
  "drop_request_field d = (case find_first_of d '';'' 0 of None \<Rightarrow> [] | Some pos \<Rightarrow> drop (Suc pos) d)"

text \<open>One datagram of the SERVERPORT loop; \<open>src\<close> is where it came from.\<close>

definition bb_listen_step ::
  "'a bb_server_scheme vtable \<Rightarrow> string \<times> int \<Rightarrow> string \<Rightarrow> 'a bb_server_scheme \<Rightarrow>
   'a bb_server_scheme result" where
  "bb_listen_step vt src datagram s =
     (let ReceivedData = cstr (take BB_BUFLEN datagram) in
      bindE (Split ReceivedData '';'') (\<lambda>t0.
        let (strCommand, t1) = GetNext t0;
            command_type = bb_command_of (IsCoordinator s) strCommand;
            (strIPAddress, t2) = GetNext t1;
            (strPort, t3) = GetNext t2;
            nPort = atoi strPort
        in if command_type \<in> {REGISTERS, REGISTERC, DEREGISTERS, DEREGISTERC, BB_GETLIST, FRESHIPS} then
             (if isValidIP strIPAddress \<and> isValidPort nPort then
                (case command_type of
                   REGISTERS \<Rightarrow> bb_register_server strIPAddress nPort s
                 | REGISTERC \<Rightarrow> bb_addClient strIPAddress nPort s
                 | DEREGISTERS \<Rightarrow> Inr (s\<lparr>SIPs := removeIP strIPAddress nPort (SIPs s)\<rparr>)
                 | DEREGISTERC \<Rightarrow> Inr (s\<lparr>CIPs := removeIP strIPAddress nPort (CIPs s)\<rparr>)
                 | BB_GETLIST \<Rightarrow>
                     bindE (bb_getServerList s)
                       (\<lambda>l. Inr (s\<lparr>outbox := outbox s @ [(fst src, snd src, l)]\<rparr>))
                 | _ \<Rightarrow> fresh_loop (rest_tokens t3) (s\<lparr>SIPs := []\<rparr>))
              else Inr s)
           else
             bindE (strcpy_buf 16 strIPAddress) (\<lambda>ip.
               let clientAddr = \<lparr>sa_ip = ip, sa_port = nPort\<rparr> in
               if isValidIP strIPAddress \<and> isValidPort nPort then
                 (let request = (drop_request_field ^^ 3) ReceivedData in
                  case command_type of
                    POST \<Rightarrow> Post_handler vt clientAddr request s
                  | READ \<Rightarrow> Read_handler vt clientAddr s
                  | CHOOSE \<Rightarrow> Choose_handler vt clientAddr request s
                  | REPLY \<Rightarrow> Reply_handler vt clientAddr request s
                  | _ \<Rightarrow> Inr s)
               else Inr s)))"

text \<open>
  The command thread: lines of the console until \<open>exit\<close>, which deregisters and clears
  \<open>Is_live\<close>; other lines go to the shell and leave the server alone.
\<close>

fun bb_Command :: "string list \<Rightarrow> 'a bb_server_scheme \<Rightarrow> bool \<times> 'a bb_server_scheme" where
  "bb_Command [] s = (True, s)"
| "bb_Command (szUserInput # ls) s =
     (if szUserInput = ''exit'' then (False, DeregisterS s) else bb_Command ls s)"

section \<open>Address vectors as an address table\<close>

definition bb_key :: "SAddr \<Rightarrow> string \<times> int" where
  "bb_key a = (sa_ip a, sa_port a)"

lemma findIPs_key: "findIPs ip p l = find_iter (\<lambda>it. bb_key it = (ip, p)) l"
  unfolding findIPs_def by (rule arg_cong [where f = "\<lambda>P. find_iter P l"]) (auto simp: bb_key_def)

lemma findIPs_None: "findIPs ip p l = None \<longleftrightarrow> (ip, p) \<notin> bb_key ` set l"
  by (auto simp: findIPs_def find_iter_None bb_key_def)

lemma add_addr_eq:
  "fits16 ip \<Longrightarrow> add_addr ip p l =
     Inr (if (ip, p) \<in> bb_key ` set l then l else l @ [\<lparr>sa_ip = ip, sa_port = p\<rparr>])"
  by (simp add: add_addr_def findIPs_None strcpy_fits16)

lemma removeIP_filter:
  "distinct (map bb_key l) \<Longrightarrow> removeIP ip p l = filter (\<lambda>a. bb_key a \<noteq> (ip, p)) l"
  unfolding removeIP_def findIPs_key by (rule erase_find_iter_filter)

interpretation bb_addrs: addr_table bb_key "\<lambda>l ip p. findIPs ip p l"
  "\<lambda>e l. add_addr (sa_ip e) (sa_port e) l" "\<lambda>l ip p. removeIP ip p l"
proof (unfold_locales, goal_cases)
  case (1 l ip p)
  show ?case by (rule findIPs_None)
next
  case (2 l ip p i)
  then show ?case unfolding findIPs_key by (blast dest: find_iter_SomeD)
next
  case (3 e l)
  then show ?case by (simp add: add_addr_eq bb_key_def)
next
  case (4 l ip p)
  then show ?case by (rule removeIP_filter)
qed

definition addr_ok :: "SAddr \<Rightarrow> bool" where
  "addr_ok a \<longleftrightarrow> isValidIP (sa_ip a) \<and> CHR 0x00 \<notin> set (sa_ip a) \<and> isValidPort (sa_port a)"

definition addrs_ok :: "SAddr list \<Rightarrow> bool" where
  "addrs_ok l \<longleftrightarrow> distinct (map bb_key l) \<and> list_all addr_ok l"

lemma addr_ok_fits: "isValidIP ip \<Longrightarrow> CHR 0x00 \<notin> set ip \<Longrightarrow> fits16 ip"
  using isValidIP_length [of ip] by (simp add: fits16_def)

lemma addr_ok_clean:
  assumes "addr_ok a"
  shows "CHR '';'' \<notin> set (sa_ip a)" "sa_ip a \<noteq> []" "CHR 0x00 \<notin> set (addr_entry a)"
    "length (addr_entry a) \<le> 22"
  using assms isValidIP_clean [of "sa_ip a"] isValidIP_not_Nil [of "sa_ip a"]
    isValidIP_length [of "sa_ip a"] length_to_string_port [of "sa_port a"]
  by (auto simp: addr_ok_def addr_entry_def)

lemma addrs_ok_add:
  assumes "addrs_ok l" "isValidIP ip" "CHR 0x00 \<notin> set ip" "isValidPort p"
  shows "\<exists>l'. add_addr ip p l = Inr l' \<and> addrs_ok l' \<and> l' \<noteq> []"
  using assms by (auto simp: add_addr_eq addr_ok_fits addrs_ok_def addr_ok_def bb_key_def)

lemma addrs_ok_remove: "addrs_ok l \<Longrightarrow> addrs_ok (removeIP ip p l)"
  by (auto simp: addrs_ok_def removeIP_filter distinct_map_filter list_all_iff)

lemma bb_getServerList_loop_ok:
  "list_all addr_ok l \<Longrightarrow> bb_getServerList_loop l acc = Inr (acc @ concat (map addr_entry l))"
proof (induction l arbitrary: acc)
  case Nil
  then show ?case by simp
next
  case (Cons a l)
  then show ?case using addr_ok_clean [of a] by (simp add: strcpy_buf_def)
qed

definition list_text :: "SAddr list \<Rightarrow> string" where
  "list_text l = butlast (concat (map addr_entry l))"

lemma bb_getServerList_ok:
  "list_all addr_ok (SIPs s) \<Longrightarrow> bb_getServerList s = Inr (list_text (SIPs s))"
  by (simp only: bb_getServerList_def bb_getServerList_loop_ok list_text_def trim_last bindE.simps
      append_Nil)

definition addr_fields :: "SAddr \<Rightarrow> string list" where
  "addr_fields a = [sa_ip a, to_string (sa_port a)]"

lemma tokens_addr_entry:
  "addr_ok a \<Longrightarrow> tokens '';'' (addr_entry a @ r) = addr_fields a @ tokens '';'' r"
  by (simp add: addr_entry_def addr_fields_def tokens_field addr_ok_clean)

lemma tokens_list_text:
  assumes "list_all addr_ok l"
  shows "tokens '';'' (list_text l) = concat (map addr_fields l)"
proof (cases "l = []")
  case True
  then show ?thesis by (simp add: list_text_def)
next
  case False
  then obtain l' a where l: "l = l' @ [a]" by (metis rev_exhaust)
  have "list_text l @ '';'' @ [] = concat (map addr_entry l)"
    by (simp add: list_text_def l butlast_append addr_entry_def)
  then have "tokens '';'' (concat (map addr_entry l)) = tokens '';'' (list_text l)"
    by (metis append.right_neutral append_Cons append_Nil tokens_Nil tokens_app)
  moreover have "tokens '';'' (concat (map addr_entry l)) = concat (map addr_fields l)"
    using assms by (induction l) (simp_all add: tokens_addr_entry)
  ultimately show ?thesis by simp
qed

text \<open>Reading a server list back gives the list.\<close>

lemma fresh_loop_fields:
  assumes "addrs_ok (l0 @ l)" "SIPs s = l0"
  shows "fresh_loop (concat (map addr_fields l)) s = Inr (s\<lparr>SIPs := l0 @ l\<rparr>)"
  using assms
proof (induction l arbitrary: l0 s)
  case Nil
  then show ?case by simp
next
  case (Cons a l)
  then have a: "addr_ok a" "(sa_ip a, sa_port a) \<notin> bb_key ` set l0"
    by (auto simp: addrs_ok_def bb_key_def)
  have "\<lparr>sa_ip = sa_ip a, sa_port = sa_port a\<rparr> = a" by simp
  with a have "bb_addServer (sa_ip a) (sa_port a) s = Inr (s\<lparr>SIPs := l0 @ [a]\<rparr>)"
    using Cons.prems(2)
    by (simp add: bb_addServer_def add_addr_eq addr_ok_def addr_ok_fits)
  moreover have "fresh_loop (concat (map addr_fields l)) (s\<lparr>SIPs := l0 @ [a]\<rparr>)
      = Inr (s\<lparr>SIPs := (l0 @ [a]) @ l\<rparr>)"
    using Cons.IH [of "l0 @ [a]" "s\<lparr>SIPs := l0 @ [a]\<rparr>"] Cons.prems by simp
  ultimately show ?case using a(1) by (simp add: addr_fields_def [of a] atoi_to_string addr_ok_def)
qed

lemma bb_listen_step_tokens:
  "bb_listen_step vt src d s =
     (let R = cstr (take BB_BUFLEN d); ts = tokens '';'' R;
          cmd = bb_command_of (IsCoordinator s) (tok_at ts 0);
          ip = tok_at ts (Suc 0); port = atoi (tok_at ts (Suc (Suc 0))); valid = (isValidIP ip \<and> isValidPort port);
          request = (drop_request_field ^^ 3) R; client = \<lparr>sa_ip = ip, sa_port = port\<rparr>
      in if cmd \<in> {REGISTERS, REGISTERC, DEREGISTERS, DEREGISTERC, BB_GETLIST, FRESHIPS} then
           (if valid then
              (case cmd of
                 REGISTERS \<Rightarrow> bb_register_server ip port s
               | REGISTERC \<Rightarrow> bb_addClient ip port s
               | DEREGISTERS \<Rightarrow> Inr (s\<lparr>SIPs := removeIP ip port (SIPs s)\<rparr>)
               | DEREGISTERC \<Rightarrow> Inr (s\<lparr>CIPs := removeIP ip port (CIPs s)\<rparr>)
               | BB_GETLIST \<Rightarrow>
                   bindE (bb_getServerList s)
                     (\<lambda>l. Inr (s\<lparr>outbox := outbox s @ [(fst src, snd src, l)]\<rparr>))
               | _ \<Rightarrow> fresh_loop (drop (Suc (Suc (Suc 0))) ts) (s\<lparr>SIPs := []\<rparr>))
            else Inr s)
         else
           bindE (strcpy_buf 16 ip) (\<lambda>ip'.
             if valid then
               (case cmd of
                  POST \<Rightarrow> Post_handler vt \<lparr>sa_ip = ip', sa_port = port\<rparr> request s
                | READ \<Rightarrow> Read_handler vt \<lparr>sa_ip = ip', sa_port = port\<rparr> s
                | CHOOSE \<Rightarrow> Choose_handler vt \<lparr>sa_ip = ip', sa_port = port\<rparr> request s
                | REPLY \<Rightarrow> Reply_handler vt \<lparr>sa_ip = ip', sa_port = port\<rparr> request s
                | _ \<Rightarrow> Inr s)
             else Inr s))"
  unfolding bb_listen_step_def Let_def Split_tz bindE.simps GetNext_tz rest_tokens_tz prod.case
  by (rule refl)

lemma bb_command_simps [simp]:
  "bb_command_of False ''FreshIPs'' = FRESHIPS" "bb_command_of True ''RegisterS'' = REGISTERS"
  by code_simp+

lemma bb_command_request_simps [simp]:
  "bb_command_of c ''POST'' = POST" "bb_command_of c ''READ'' = READ"
  "bb_command_of c ''REPLY'' = REPLY" "bb_command_of c ''CHOOSE'' = CHOOSE"
  by (simp_all add: bb_command_of_def strcaseeq_def tolower_def upper_letters_def lower_letters_def)

lemma fresh_message_eq:
  assumes "SIPs s = a # l" "addrs_ok (SIPs s)"
  shows "fresh_message s =
         Inr (''FreshIPs;'' @ sa_ip a @ '';'' @ to_string (sa_port a) @ '';'' @ list_text (SIPs s))"
  using assms bb_getServerList_ok [of s] by (simp add: fresh_message_def addrs_ok_def)

lemma list_text_no_nul:
  assumes "list_all addr_ok l"
  shows "CHR 0x00 \<notin> set (list_text l)"
proof -
  have "CHR 0x00 \<notin> set (concat (map addr_entry l))"
    using assms addr_ok_clean(3) by (induction l) auto
  then show ?thesis unfolding list_text_def by (meson in_set_butlastD)
qed

text \<open>
  The server list the coordinator broadcasts is the list its peers install: when the
  message fits the receive buffer, a non-coordinator that handles a FreshIPs message ends
  with exactly the sender's server vector, same entries in the same order, and nothing
  else of its state changes.
\<close>

theorem fresh_roundtrip:
  assumes "addrs_ok (SIPs coord)" and "fresh_message coord = Inr m" and "length m \<le> BB_BUFLEN"
    and "\<not> IsCoordinator peer"
  shows "bb_listen_step vt src m peer = Inr (peer\<lparr>SIPs := SIPs coord\<rparr>)"
proof -
  obtain a l where al: "SIPs coord = a # l"
    using assms(2) by (cases "SIPs coord") (auto simp: fresh_message_def)
  have m: "m = ''FreshIPs;'' @ sa_ip a @ '';'' @ to_string (sa_port a) @ '';'' @ list_text (SIPs coord)"
    using fresh_message_eq [OF al assms(1)] assms(2) by simp
  have ok: "list_all addr_ok (SIPs coord)" and a: "addr_ok a"
    using assms(1) al by (auto simp: addrs_ok_def)
  have t: "tokens '';'' m = ''FreshIPs'' # sa_ip a # to_string (sa_port a) # concat (map addr_fields (SIPs coord))"
    using tokens_join_app [of "[''FreshIPs'', sa_ip a, to_string (sa_port a)]" "CHR '';''" "list_text (SIPs coord)"]
      addr_ok_clean [OF a] tokens_list_text [OF ok] by (simp add: m)
  have c: "cstr (take BB_BUFLEN m) = m"
    using assms(3) list_text_no_nul [OF ok] a by (simp add: m addr_ok_def)
  have "fresh_loop (concat (map addr_fields (SIPs coord))) (peer\<lparr>SIPs := []\<rparr>)
      = Inr (peer\<lparr>SIPs := SIPs coord\<rparr>)"
    using fresh_loop_fields [of "[]" "SIPs coord" "peer\<lparr>SIPs := []\<rparr>"] assms(1) by simp
  then show ?thesis
    using a assms(4)
    by (simp add: bb_listen_step_tokens c t atoi_to_string addr_ok_def)
qed

text \<open>
  A coordinator that handles RegisterS of a new valid address appends it and sends the
  new list to every registered server but itself (the first entry), the newcomer included,
  and to nobody else; a known address changes nothing in the vector but is announced again.
\<close>

theorem register_broadcast:
  assumes "addrs_ok (SIPs s)" "isValidIP ip" "CHR 0x00 \<notin> set ip" "isValidPort p"
  shows "\<exists>m s1. bb_addServer ip p s = Inr s1 \<and> fresh_message s1 = Inr m \<and> addrs_ok (SIPs s1)
     \<and> SIPs s1 = (if (ip, p) \<in> bb_key ` set (SIPs s) then SIPs s else SIPs s @ [\<lparr>sa_ip = ip, sa_port = p\<rparr>])
     \<and> bb_register_server ip p s =
         Inr (s1\<lparr>outbox := outbox s @ map (\<lambda>a. (sa_ip a, sa_port a mod 65536, m)) (tl (SIPs s1))\<rparr>)"
proof -
  obtain l' where l': "add_addr ip p (SIPs s) = Inr l'" "addrs_ok l'" "l' \<noteq> []"
    using addrs_ok_add [OF assms] by blast
  define s1 where "s1 = s\<lparr>SIPs := l'\<rparr>"
  have s1: "bb_addServer ip p s = Inr s1" "SIPs s1 = l'" "outbox s1 = outbox s"
    using l' by (simp_all add: bb_addServer_def s1_def)
  obtain a r where ar: "l' = a # r" using l' by (cases l') auto
  define m where
    "m = ''FreshIPs;'' @ sa_ip a @ '';'' @ to_string (sa_port a) @ '';'' @ list_text l'"
  have m: "fresh_message s1 = Inr m"
    using fresh_message_eq [of s1 a r] s1 l' ar by (simp add: m_def)
  have nul: "CHR 0x00 \<notin> set m"
    using l'(2) ar list_text_no_nul [of l'] by (simp add: m_def addrs_ok_def addr_ok_def)
  have fold: "fold (\<lambda>it. UDP_send (sa_ip it) (sa_port it) m) xs st =
      st\<lparr>outbox := outbox st @ map (\<lambda>a. (sa_ip a, sa_port a mod 65536, m)) xs\<rparr>" for xs and st :: "'a bb_server_scheme"
    using nul by (induction xs arbitrary: st) (simp_all add: UDP_send_def)
  have "bb_register_server ip p s =
      Inr (s1\<lparr>outbox := outbox s @ map (\<lambda>a. (sa_ip a, sa_port a mod 65536, m)) (tl (SIPs s1))\<rparr>)"
    by (simp add: bb_register_server_def s1 m fold)
  moreover have "l' = (if (ip, p) \<in> bb_key ` set (SIPs s) then SIPs s else SIPs s @ [\<lparr>sa_ip = ip, sa_port = p\<rparr>])"
    using l'(1) add_addr_eq [OF addr_ok_fits [OF assms(2,3)], of p "SIPs s"] by simp
  ultimately show ?thesis
    using s1(1,2) m l'(2) by (intro exI [of _ m] exI [of _ s1]) (simp only: simp_thms)
qed

text \<open>
  Every bulletin board server can be crashed by one datagram: the address field of a
  request is copied into a 16-byte array before it is validated, so a request whose second
  field has sixteen characters or more overflows it, in every state and for every handler.
\<close>

theorem request_address_overflow:
  assumes "16 \<le> length ip" "length ip \<le> 7000" "CHR '';'' \<notin> set ip" "CHR 0x00 \<notin> set ip"
  shows "bb_listen_step vt src (''READ;'' @ ip @ '';5106'') s = Inl BufferOverflow"
proof -
  have "ip \<noteq> []" using assms(1) by auto
  then have "tokens '';'' (''READ;'' @ ip @ '';5106'') = [''READ'', ip, ''5106'']"
    using tokens_join [of "[''READ'', ip, ''5106'']" "CHR '';''"] assms by simp
  moreover have "cstr (take BB_BUFLEN (''READ;'' @ ip @ '';5106'')) = ''READ;'' @ ip @ '';5106''"
    using assms by simp
  ultimately show ?thesis
    using assms by (simp add: bb_listen_step_tokens strcpy_buf_def)
qed

section \<open>Witnesses and invariants of the listen loop\<close>

text \<open>The state a coordinator at 10.0.0.1 starts in.\<close>

definition sample_coordinator :: bb_server where
  "sample_coordinator = \<lparr>local_ip = ''10.0.0.1'', inbox = (\<lambda>_. []), outbox = [], coordinatorIP = ''10.0.0.1'',
     IsCoordinator = True, SIPs = [\<lparr>sa_ip = ''10.0.0.1'', sa_port = 5105\<rparr>], CIPs = [], articles = []\<rparr>"

lemma Server_init_sample: "Server_init ''10.0.0.1'' (\<lambda>_. []) True = Inr sample_coordinator"
  by (simp add: Server_init_def sample_coordinator_def checkip_def bb_addServer_def add_addr_def
      findIPs_def strcpy_buf_def Let_def)

lemma fresh_roundtrip_witness:
  "\<forall>vt src. bb_listen_step vt src ''FreshIPs;10.0.0.1;5105;10.0.0.1;5105;10.0.0.2;5105''
     (\<lparr>local_ip = ''10.0.0.2'', inbox = (\<lambda>_. []), outbox = [], coordinatorIP = ''10.0.0.1'',
       IsCoordinator = False, SIPs = [\<lparr>sa_ip = ''10.0.0.9'', sa_port = 1\<rparr>], CIPs = [], articles = []\<rparr>)
   = Inr \<lparr>local_ip = ''10.0.0.2'', inbox = (\<lambda>_. []), outbox = [], coordinatorIP = ''10.0.0.1'',
       IsCoordinator = False, SIPs = [\<lparr>sa_ip = ''10.0.0.1'', sa_port = 5105\<rparr>, \<lparr>sa_ip = ''10.0.0.2'', sa_port = 5105\<rparr>],
       CIPs = [], articles = []\<rparr>"
proof (intro allI)
  fix vt :: "bb_server vtable" and src
  let ?l = "[\<lparr>sa_ip = ''10.0.0.1'', sa_port = 5105\<rparr>, \<lparr>sa_ip = ''10.0.0.2'', sa_port = 5105\<rparr>]"
  let ?c = "\<lparr>local_ip = ''10.0.0.1'', inbox = (\<lambda>_. []), outbox = [], coordinatorIP = ''10.0.0.1'',
       IsCoordinator = True, SIPs = ?l, CIPs = [], articles = []\<rparr>"
  have "addrs_ok ?l" by code_simp
  moreover have "fresh_message ?c = Inr ''FreshIPs;10.0.0.1;5105;10.0.0.1;5105;10.0.0.2;5105''"
    by code_simp
  ultimately show "bb_listen_step vt src ''FreshIPs;10.0.0.1;5105;10.0.0.1;5105;10.0.0.2;5105''
     (\<lparr>local_ip = ''10.0.0.2'', inbox = (\<lambda>_. []), outbox = [], coordinatorIP = ''10.0.0.1'',
       IsCoordinator = False, SIPs = [\<lparr>sa_ip = ''10.0.0.9'', sa_port = 1\<rparr>], CIPs = [], articles = []\<rparr>)
   = Inr \<lparr>local_ip = ''10.0.0.2'', inbox = (\<lambda>_. []), outbox = [], coordinatorIP = ''10.0.0.1'',
       IsCoordinator = False, SIPs = ?l, CIPs = [], articles = []\<rparr>"
    using fresh_roundtrip [of ?c "''FreshIPs;10.0.0.1;5105;10.0.0.1;5105;10.0.0.2;5105''"
      "\<lparr>local_ip = ''10.0.0.2'', inbox = (\<lambda>_. []), outbox = [], coordinatorIP = ''10.0.0.1'',
       IsCoordinator = False, SIPs = [\<lparr>sa_ip = ''10.0.0.9'', sa_port = 1\<rparr>], CIPs = [], articles = []\<rparr>" vt src]
    by simp
qed

lemma register_broadcast_witness:
  "\<exists>m s1. bb_addServer ''10.0.0.2'' 5105 sample_coordinator = Inr s1 \<and> fresh_message s1 = Inr m \<and> addrs_ok (SIPs s1)
     \<and> SIPs s1 = [\<lparr>sa_ip = ''10.0.0.1'', sa_port = 5105\<rparr>, \<lparr>sa_ip = ''10.0.0.2'', sa_port = 5105\<rparr>]
     \<and> bb_register_server ''10.0.0.2'' 5105 sample_coordinator =
         Inr (s1\<lparr>outbox := [(''10.0.0.2'', 5105, m)]\<rparr>)"
proof -
  have a: "addrs_ok (SIPs sample_coordinator)" "isValidIP ''10.0.0.2''" "isValidPort 5105"
    by code_simp+
  obtain m s1 where m: "bb_addServer ''10.0.0.2'' 5105 sample_coordinator = Inr s1" "fresh_message s1 = Inr m"
    "addrs_ok (SIPs s1)"
    "SIPs s1 = (if (''10.0.0.2'', 5105) \<in> bb_key ` set (SIPs sample_coordinator) then SIPs sample_coordinator
       else SIPs sample_coordinator @ [\<lparr>sa_ip = ''10.0.0.2'', sa_port = 5105\<rparr>])"
    "bb_register_server ''10.0.0.2'' 5105 sample_coordinator =
       Inr (s1\<lparr>outbox := outbox sample_coordinator @ map (\<lambda>a. (sa_ip a, sa_port a mod 65536, m)) (tl (SIPs s1))\<rparr>)"
    using register_broadcast [OF a(1) a(2) _ a(3)] by auto
  then show ?thesis
    by (intro exI [of _ m] exI [of _ s1]) (simp add: sample_coordinator_def bb_key_def)
qed

lemma request_address_overflow_witness:
  "\<forall>(vt :: bb_server vtable) src s. bb_listen_step vt src ''READ;1234567890123456;5106'' s = Inl BufferOverflow"
  using request_address_overflow [of "''1234567890123456''"] by (intro allI) simp

text \<open>Handlers of a derived class keep the address vectors, whatever they return.\<close>

definition addrs_inv :: "'a bb_server_scheme \<Rightarrow> bool" where
  "addrs_inv s \<longleftrightarrow> IsCoordinator s \<and> addrs_ok (SIPs s) \<and> addrs_ok (CIPs s)"

definition keeps_addrs :: "'a bb_server_scheme vtable \<Rightarrow> bool" where
  "keeps_addrs vt \<longleftrightarrow> (\<forall>a r s s'. addrs_inv s \<longrightarrow>
     (Post_handler vt a r s = Inr s' \<longrightarrow> addrs_inv s') \<and> (Read_handler vt a s = Inr s' \<longrightarrow> addrs_inv s')
     \<and> (Choose_handler vt a r s = Inr s' \<longrightarrow> addrs_inv s') \<and> (Reply_handler vt a r s = Inr s' \<longrightarrow> addrs_inv s'))"

definition is_request :: "string \<Rightarrow> bool" where
  "is_request d \<longleftrightarrow> bb_command_of True (tok_at (tokens '';'' (cstr (take BB_BUFLEN d))) 0) \<in> {POST, READ, CHOOSE, REPLY, BB_UNKNOWN}"

lemma addrs_inv_simps [simp]:
  "addrs_inv (s\<lparr>outbox := o'\<rparr>) = addrs_inv s"
  "addrs_inv (s\<lparr>inbox := i'\<rparr>) = addrs_inv s"
  "addrs_inv (s\<lparr>articles := a'\<rparr>) = addrs_inv s"
  "addrs_inv (UDP_send ip p m s) = addrs_inv s"
  by (simp_all add: addrs_inv_def UDP_send_def)

lemma addrs_inv_addClient:
  assumes "addrs_inv s" "isValidIP ip" "CHR 0x00 \<notin> set ip" "isValidPort p"
  shows "\<exists>s'. bb_addClient ip p s = Inr s' \<and> addrs_inv s'"
  using assms addrs_ok_add [of "CIPs s" ip p] by (auto simp: bb_addClient_def addrs_inv_def)

lemma addrs_inv_fold_send:
  "addrs_inv s \<Longrightarrow> addrs_inv (fold (\<lambda>it. UDP_send (f it) (g it) m) l s)"
  by (induction l arbitrary: s) simp_all

lemma addrs_inv_register:
  assumes "addrs_inv s" "isValidIP ip" "CHR 0x00 \<notin> set ip" "isValidPort p"
  shows "\<exists>s'. bb_register_server ip p s = Inr s' \<and> addrs_inv s'"
proof -
  obtain l' where l': "add_addr ip p (SIPs s) = Inr l'" "addrs_ok l'" "l' \<noteq> []"
    using addrs_ok_add [of "SIPs s" ip p] assms by (auto simp: addrs_inv_def)
  let ?s = "s\<lparr>SIPs := l'\<rparr>"
  have i: "addrs_inv ?s" using assms(1) l'(2) by (simp add: addrs_inv_def)
  obtain a r where ar: "l' = a # r" using l'(3) by (cases l') auto
  have "\<exists>m. fresh_message ?s = Inr m" using fresh_message_eq [of ?s a r] l'(2) ar by simp
  then show ?thesis
    using l'(1) i by (auto simp: bb_register_server_def bb_addServer_def addrs_inv_fold_send)
qed

lemma addrs_inv_remove:
  "addrs_inv s \<Longrightarrow> addrs_inv (s\<lparr>SIPs := removeIP ip p (SIPs s)\<rparr>)"
  "addrs_inv s \<Longrightarrow> addrs_inv (s\<lparr>CIPs := removeIP ip p (CIPs s)\<rparr>)"
  by (simp_all add: addrs_inv_def addrs_ok_remove)

lemma tok_at_cstr_no_nul: "CHR 0x00 \<notin> set (tok_at (tokens [d] (cstr s)) k)"
  using tok_at_chars [of d "cstr s" k] cstr_no_nul [of s] by blast

lemma handlers_keep_addrs:
  assumes "keeps_addrs vt" "addrs_inv s"
  shows "Post_handler vt a r s = Inr s' \<Longrightarrow> addrs_inv s'" "Read_handler vt a s = Inr s' \<Longrightarrow> addrs_inv s'"
    "Choose_handler vt a r s = Inr s' \<Longrightarrow> addrs_inv s'" "Reply_handler vt a r s = Inr s' \<Longrightarrow> addrs_inv s'"
  using assms(1) [unfolded keeps_addrs_def, rule_format, OF assms(2)] by blast+

text \<open>
  A coordinator keeps its address book sound: whatever datagram arrives from whomever,
  a step that returns leaves both vectors free of duplicates and full of valid addresses
  only, and a step on a control message (register, leave, list) always returns; only
  a request can fault.
\<close>

theorem coordinator_step_invariant:
  assumes "addrs_inv s" "keeps_addrs vt"
  shows "case bb_listen_step vt src d s of Inl _ \<Rightarrow> is_request d | Inr s' \<Rightarrow> addrs_inv s'"
proof -
  define ts where "ts = tokens '';'' (cstr (take BB_BUFLEN d))"
  have nul: "CHR 0x00 \<notin> set (tok_at ts k)" for k by (simp add: ts_def tok_at_cstr_no_nul)
  have c: "IsCoordinator s" and sok: "list_all addr_ok (SIPs s)"
    using assms(1) by (auto simp: addrs_inv_def addrs_ok_def)
  have fresh: "bb_command_of True x \<noteq> FRESHIPS" for x by (simp add: bb_command_of_def)
  note step = bb_listen_step_tokens [of vt src d s, unfolded Let_def, folded ts_def]
  show ?thesis
  proof (cases "bb_command_of True (tok_at ts 0) \<in> {POST, READ, CHOOSE, REPLY, BB_UNKNOWN}")
    case True
    then have r: "is_request d" by (simp add: is_request_def ts_def)
    let ?m = "bb_listen_step vt src d s"
    have "addrs_inv s'" if "?m = Inr s'" for s'
      using that True handlers_keep_addrs [OF assms(2,1)] assms(1)
      by (cases "bb_command_of True (tok_at ts 0)")
        (auto simp only: step c bindE_Inr_iff bb_command.case bb_command.distinct insert_iff
          empty_iff simp_thms sum.inject if_True if_False split: if_splits)
    with r show ?thesis by (cases ?m) simp_all
  next
    case False
    note reg = addrs_inv_register [OF assms(1) _ nul [of "Suc 0"], of "atoi (tok_at ts (Suc (Suc 0)))"]
    note cli = addrs_inv_addClient [OF assms(1) _ nul [of "Suc 0"], of "atoi (tok_at ts (Suc (Suc 0)))"]
    show ?thesis
      using False fresh [of "tok_at ts 0"] reg cli assms(1)
      by (cases "bb_command_of True (tok_at ts 0)")
        (auto simp: step c addrs_inv_remove bb_getServerList_ok [OF sok])
  qed
qed

text \<open>
  What a reader gets does not depend on the order in which articles arrived: two
  replicas that hold the same articles with distinct IDs send the same datagram and keep
  the same vector, whatever order each stored them in.
\<close>

theorem sendArticle_order_independent:
  assumes "mset as = mset bs" "distinct (map art_ID as)"
  shows "sendArticle ip p (s\<lparr>articles := as\<rparr>) = sendArticle ip p (s\<lparr>articles := bs\<rparr>)"
proof -
  have "inj_on art_ID (set as)" using assms(2) by (simp add: distinct_map)
  then have "sort_key art_ID as = sort_key art_ID bs"
    using assms(1) by (intro sort_key_inj_key_eq) simp_all
  then show ?thesis by (simp add: sendArticle_def Let_def)
qed

lemma sendArticle_order_independent_witness:
  "let a = \<lparr>art_ID = 1, art_primaryIP = [], art_content = [''x''], art_hierachy = 0\<rparr>;
       b = \<lparr>art_ID = 2, art_primaryIP = [], art_content = [''y''], art_hierachy = 1\<rparr>
   in sendArticle ''10.0.0.7'' 5106 (sample_coordinator\<lparr>articles := [a, b]\<rparr>)
      = sendArticle ''10.0.0.7'' 5106 (sample_coordinator\<lparr>articles := [b, a]\<rparr>)"
  unfolding Let_def
  by (rule sendArticle_order_independent) (simp_all add: add_mset_commute)

lemma coordinator_step_invariant_witness:
  "case bb_listen_step \<lparr>Post_handler = (\<lambda>_ _ s. Inr s), Read_handler = (\<lambda>_ s. Inr s),
       Choose_handler = (\<lambda>_ _ s. Inr s), Reply_handler = (\<lambda>_ _ s. Inr s)\<rparr>
     (''10.0.0.2'', 5105) ''RegisterC;10.0.0.2;5106'' sample_coordinator of
     Inl _ \<Rightarrow> is_request ''RegisterC;10.0.0.2;5106'' | Inr s' \<Rightarrow> addrs_inv s'"
proof (rule coordinator_step_invariant)
  show "addrs_inv sample_coordinator" by code_simp
qed (simp add: keeps_addrs_def)

end
