(* ===== verification/Messages.thy ===== *)
theory Messages
  imports BBSystem
begin

text \<open>
  The shape the bulletin board's messages share: fields closed by \<open>;\<close>, the frame
  [command;ip;port;request] that every message between servers starts with, and what the
  receiving loop reads from it.
\<close>

abbreviation PRIMARYPORT :: int where "PRIMARYPORT \<equiv> 5100"
abbreviation BACKUPPORT :: int where "BACKUPPORT \<equiv> 5101"

text \<open>\<open>string::append\<close> of a field and its separator.\<close>

definition field :: "string \<Rightarrow> string" where
  "field s = s @ '';''"

text \<open>[command;ip;port;request], the frame of every message between servers.\<close>

definition frame :: "string \<Rightarrow> string \<Rightarrow> int \<Rightarrow> string \<Rightarrow> string" where
  "frame cmd ip p r = field cmd @ field ip @ field (to_string p) @ r"

definition frame_ok :: "string \<Rightarrow> string \<Rightarrow> int \<Rightarrow> string \<Rightarrow> bool" where
  "frame_ok cmd ip p r \<longleftrightarrow> cmd \<noteq> [] \<and> CHR '';'' \<notin> set cmd \<and> CHR 0x00 \<notin> set cmd \<and> isValidIP ip
     \<and> CHR 0x00 \<notin> set ip \<and> isValidPort p \<and> CHR 0x00 \<notin> set r"

lemma frame_no_nul: "frame_ok cmd ip p r \<Longrightarrow> CHR 0x00 \<notin> set (frame cmd ip p r)"
  by (simp add: frame_ok_def frame_def field_def)

lemma tokens_frame:
  assumes "frame_ok cmd ip p r"
  shows "tokens '';'' (frame cmd ip p r) = cmd # ip # to_string p # tokens '';'' r"
proof -
  have "ip \<noteq> []" "CHR '';'' \<notin> set ip"
    using assms isValidIP_not_Nil [of ip] isValidIP_clean [of ip] by (auto simp: frame_ok_def)
  then show ?thesis
    using assms by (simp add: frame_def field_def frame_ok_def tokens_field)
qed

lemma skip_frame:
  assumes "frame_ok cmd ip p r"
  shows "(skip_field ^^ 3) (frame cmd ip p r) = r"
proof -
  have "CHR '';'' \<notin> set ip" using assms isValidIP_clean [of ip] by (auto simp: frame_ok_def)
  then show ?thesis
    using assms by (simp add: frame_def field_def frame_ok_def numeral_3_eq_3 skip_field_app)
qed

lemma length_field [simp]: "length (field s) = Suc (length s)"
  by (simp add: field_def)

lemma fold_UDP_send:
  "CHR 0x00 \<notin> set m \<Longrightarrow> fold (\<lambda>it. UDP_send (sa_ip it) p m) xs st =
     st\<lparr>outbox := outbox st @ map (\<lambda>a. (sa_ip a, p mod 65536, m)) xs\<rparr>"
  by (induction xs arbitrary: st) (simp_all add: UDP_send_def)

lemma to_string_ports: "to_string 5100 = ''5100''" "to_string 5101 = ''5101''"
  by code_simp+

section \<open>Parts the protocols share\<close>

text \<open>The level of a new article: one more than that of the article replied to.\<close>

definition reply_hierachy :: "int \<Rightarrow> 'a bb_server_scheme \<Rightarrow> 32 word option" where
  "reply_hierachy repID s =
     (if repID \<noteq> - 1 then
        (case findArticlebyID (word_of_int repID) s of
           None \<Rightarrow> None
         | Some it \<Rightarrow> Some (art_hierachy (articles s ! it) + 1))
      else Some 0)"

lemma reply_hierachy_cong: "articles s = articles t \<Longrightarrow> reply_hierachy n s = reply_hierachy n t"
  by (auto simp: reply_hierachy_def findArticlebyID_def split: option.split)

lemma reply_hierachy_post [simp]: "reply_hierachy (- 1) s = Some 0"
  by (simp add: reply_hierachy_def)

lemma atoi_minus_one [simp]: "atoi ''-1'' = - 1"
  by code_simp

text \<open>The first free slot of \<open>ack_num\<close>, or a new one at the end.\<close>

definition free_slot :: "int list \<Rightarrow> nat \<times> int list" where
  "free_slot v = (case find_iter (\<lambda>n. n = 0) v of None \<Rightarrow> (length v, v @ [0]) | Some i \<Rightarrow> (i, v))"

lemma free_slot_spec: "free_slot v = (k, v') \<Longrightarrow> k < length v' \<and> v' ! k = 0"
  using find_iter_SomeD [of "\<lambda>n. n = 0" v] by (auto simp: free_slot_def split: option.splits)

lemma set_skip_field: "set (skip_field s) \<subseteq> set s"
  by (auto simp: skip_field_def dest: in_set_dropD)

lemma set_field_ops: "set (first_field s) \<subseteq> set s" "set (drop_last_field s) \<subseteq> set s" "set (last_field s) \<subseteq> set s"
  by (auto simp: first_field_def drop_last_field_def last_field_def dest: in_set_takeD in_set_dropD
      split: option.splits)

section \<open>The loop that reads framed messages\<close>

text \<open>
  What the PRIMARYPORT loops of the servers have in common: the datagram is cut at 8000
  bytes and at its first NUL, three fields are read as tokens, an invalid address or port
  ends the round, and the request is what follows the third \<open>;\<close>. \<open>handle\<close> gets the
  command, the address, the port and the request.
\<close>

locale frame_loop =
  fixes step :: "string \<Rightarrow> 's \<Rightarrow> 's result"
    and handle :: "string \<Rightarrow> string \<Rightarrow> int \<Rightarrow> string \<Rightarrow> 's \<Rightarrow> 's result"
  assumes step_tokens: "step d s =
     (let R = cstr (take BB_BUFLEN d); ts = tokens '';'' R; ip = tok_at ts (Suc 0);
          port = atoi (tok_at ts (Suc (Suc 0)))
      in if isValidIP ip \<and> isValidPort port then handle (tok_at ts 0) ip port ((skip_field ^^ 3) R) s
         else Inr s)"
begin

lemma step_frame:
  assumes "frame_ok cmd ip p r" "length (frame cmd ip p r) \<le> BB_BUFLEN"
  shows "step (frame cmd ip p r) s = handle cmd ip p r s"
proof -
  have c: "cstr (take BB_BUFLEN (frame cmd ip p r)) = frame cmd ip p r"
    using assms frame_no_nul by simp
  have "isValidIP ip" "isValidPort p" using assms(1) by (auto simp: frame_ok_def)
  then show ?thesis
    by (simp add: step_tokens Let_def c tokens_frame [OF assms(1)] skip_frame [OF assms(1)] atoi_to_string)
qed

lemma step_bad_address:
  "\<not> isValidIP (tok_at (tokens '';'' (cstr (take BB_BUFLEN d))) (Suc 0)) \<Longrightarrow> step d s = Inr s"
  by (simp add: step_tokens Let_def)

lemma step_keeps:
  assumes "P s" "\<And>cmd ip p r. isValidIP ip \<Longrightarrow> isValidPort p \<Longrightarrow> handle cmd ip p r s = Inr s' \<Longrightarrow> P s'"
    and "step d s = Inr s'"
  shows "P s'"
  using assms by (auto simp: step_tokens Let_def split: if_splits)

end

section \<open>The article list as a message\<close>

definition article_text :: "Article \<Rightarrow> string" where
  "article_text a = hd (art_content a) @ '';'' @ to_string (uint (art_hierachy a))"

definition article_clean :: "Article \<Rightarrow> bool" where
  "article_clean a \<longleftrightarrow> (\<exists>c. art_content a = [c] \<and> CHR ''$'' \<notin> set c \<and> CHR 0x00 \<notin> set c)
     \<and> uint (art_hierachy a) < 2 ^ 31"

lemma article_list_eq:
  "list_all article_clean as \<Longrightarrow>
   article_list as acc = Inr (acc @ concat (map (\<lambda>f. f @ ''$'') (map article_text as)))"
  by (induction as arbitrary: acc) (auto simp: article_clean_def article_text_def)

lemma butlast_concat_join: "butlast (concat (map (\<lambda>f. f @ [d]) fs)) = join_fields d fs"
  by (induction fs rule: induct_list012) (auto simp: butlast_append)

lemma article_text_clean:
  assumes "article_clean a"
  shows "article_text a \<noteq> []" "CHR ''$'' \<notin> set (article_text a)" "CHR 0x00 \<notin> set (article_text a)"
    "[drop_last_field (article_text a)] = art_content a"
    "word_of_int (atoi (last_field (article_text a))) = art_hierachy a"
proof -
  have "is_int32 (uint (art_hierachy a))"
    using assms order_trans [OF _ uint_ge_0, of "- (2 ^ 31)" "art_hierachy a"]
    by (simp add: article_clean_def is_int32_def)
  then show "article_text a \<noteq> []" "CHR ''$'' \<notin> set (article_text a)" "CHR 0x00 \<notin> set (article_text a)"
    "[drop_last_field (article_text a)] = art_content a"
    "word_of_int (atoi (last_field (article_text a))) = art_hierachy a"
    using assms by (auto simp: article_clean_def article_text_def clib_simps atoi_to_string)
qed

lemma set_join_fields: "set (join_fields d fs) \<subseteq> insert d (\<Union>(set ` set fs))"
  by (induction fs rule: induct_list012) auto

definition article_message :: "Article list \<Rightarrow> string" where
  "article_message as = join_fields (CHR ''$'') (map article_text as)"

lemma article_message_no_nul: "list_all article_clean as \<Longrightarrow> CHR 0x00 \<notin> set (article_message as)"
  using set_join_fields [of "CHR ''$''" "map article_text as"] article_text_clean(3)
  by (fastforce simp: article_message_def list_all_iff)

lemma tokens_article_message:
  "list_all article_clean as \<Longrightarrow> tokens ''$'' (article_message as) = map article_text as"
  unfolding article_message_def by (rule tokens_join) (auto simp: list_all_iff article_text_clean)

lemma article_message_empty_iff: "list_all article_clean as \<Longrightarrow> article_message as = [] \<longleftrightarrow> as = []"
  using tokens_article_message [of as] by (cases as) (auto simp: article_message_def)

text \<open>A read sorts the articles and sends the list.\<close>

lemma sendArticle_eq:
  assumes "list_all article_clean (articles s)"
  shows "sendArticle ip p s = Inr (s\<lparr>articles := sort_key art_ID (articles s),
     outbox := outbox s @ [(ip, p mod 65536, article_message (sort_key art_ID (articles s)))]\<rparr>)"
proof -
  have c: "list_all article_clean (sort_key art_ID (articles s))"
    using assms by (simp add: list_all_iff)
  have "(if length m > 0 then butlast m else m) = butlast m" for m :: string by (cases m) simp_all
  then show ?thesis
    using article_message_no_nul [OF c]
    by (simp add: sendArticle_def Let_def article_list_eq [OF c] butlast_concat_join article_message_def
        UDP_send_def del: map_map)
qed

section \<open>Articles as the clients write them\<close>

text \<open>Five fields, none empty, without \<open>;\<close> or \<open>$\<close>: [Version;Title;author;Time;content].\<close>

definition word_ok :: "string \<Rightarrow> bool" where
  "word_ok f \<longleftrightarrow> f \<noteq> [] \<and> CHR '';'' \<notin> set f \<and> CHR ''$'' \<notin> set f \<and> CHR 0x00 \<notin> set f"

definition five_fields :: "Article \<Rightarrow> bool" where
  "five_fields a \<longleftrightarrow>
     (\<exists>v t w m c. list_all word_ok [v, t, w, m, c] \<and> art_content a = [join_fields (CHR '';'') [v, t, w, m, c]])
     \<and> uint (art_hierachy a) < 2 ^ 31"

lemma word_uint_int32: "uint (h :: 32 word) < 2 ^ 31 \<Longrightarrow> is_int32 (uint h)"
  using order_trans [OF _ uint_ge_0, of "- (2 ^ 31)" h] by (simp add: is_int32_def)

lemma five_fieldsI:
  "list_all word_ok [v, t, w, m, c] \<Longrightarrow> art_content a = [join_fields (CHR '';'') [v, t, w, m, c]] \<Longrightarrow>
   uint (art_hierachy a) < 2 ^ 31 \<Longrightarrow> five_fields a"
  unfolding five_fields_def by blast

lemma five_fieldsE:
  assumes "five_fields a"
  obtains v t w m c where "list_all word_ok [v, t, w, m, c]"
    "art_content a = [join_fields (CHR '';'') [v, t, w, m, c]]"
    "tokens '';'' (hd (art_content a)) = [v, t, w, m, c]"
    "tokens '';'' (article_text a) = [v, t, w, m, c, to_string (uint (art_hierachy a))]"
    "is_int32 (uint (art_hierachy a))"
proof -
  obtain v t w m c where f: "list_all word_ok [v, t, w, m, c]"
    "art_content a = [join_fields (CHR '';'') [v, t, w, m, c]]" "uint (art_hierachy a) < 2 ^ 31"
    using assms unfolding five_fields_def by blast
  have "tokens '';'' (hd (art_content a)) = [v, t, w, m, c]"
    using f(1) unfolding f(2) list.sel by (intro tokens_join) (auto simp: word_ok_def)
  moreover have "article_text a = join_fields (CHR '';'') [v, t, w, m, c, to_string (uint (art_hierachy a))]"
    by (simp add: article_text_def f(2))
  then have "tokens '';'' (article_text a) = [v, t, w, m, c, to_string (uint (art_hierachy a))]"
    using f(1) by (simp only:) (intro tokens_join, auto simp: word_ok_def)
  ultimately show ?thesis using that f word_uint_int32 by blast
qed

lemma five_fields_clean: "five_fields a \<Longrightarrow> article_clean a"
  by (auto simp: five_fields_def article_clean_def word_ok_def)

lemma list_five_fields_clean: "list_all five_fields as \<Longrightarrow> list_all article_clean as"
  using five_fields_clean by (auto simp: list_all_iff)

end
