(* ===== verification/SeqServer.thy ===== *)
theory SeqServer
  imports Messages
begin

text \<open>
  The bulletin board with sequential consistency (\<open>seq_server\<close> in
  Project2/Server/Server.cpp), a primary-backup protocol. A backup forwards a post or reply
  to the primary (\<open>forward_req\<close>, W2), the primary gives it the next article ID and
  broadcasts it (\<open>update\<close>, W3), every server stores it and answers (\<open>ACK_up\<close>, W4), and
  when the count of answers reaches the number of servers the primary tells the backup
  (\<open>ACK_comp\<close>, W5), which passes it on to the client. \<open>seq_server\<close> extends the base
  record with the static members \<open>ID\<close> and \<open>requestQ\<close> and with \<open>ack_num\<close>, the vector
  the listen loop of PRIMARYPORT keeps.
\<close>

section \<open>State and operations\<close>

record seq_server = bb_server +
  seq_ID :: int
  requestQ :: "string list"
  ack_num :: "int list"

definition seq_init :: "string \<Rightarrow> (int \<Rightarrow> string list) \<Rightarrow> bool \<Rightarrow> seq_server result" where
  "seq_init ip inb Coord =
     bindE (Server_init ip inb Coord) (\<lambda>b. Inr (bb_server.extend b
       \<lparr>seq_ID = 0, requestQ = [], ack_num = replicate 100 0\<rparr>))"

text \<open>W3: [update;primary ip;port;req_ID;article ID;rep_ID;request], to every server.\<close>

definition seq_forward_update :: "string \<Rightarrow> int \<Rightarrow> seq_server \<Rightarrow> seq_server" where
  "seq_forward_update request req_num s =
     (let s1 = s\<lparr>requestQ := requestQ s @ [request]\<rparr>;
          articeID = seq_ID s1 + 1;
          commd = ''update;'' @ field (checkip s) @ field (to_string PRIMARYPORT)
                  @ field (to_string req_num) @ field (to_string articeID);
          req = hd (requestQ s1);
          s2 = s1\<lparr>seq_ID := articeID, requestQ := tl (requestQ s1)\<rparr>
      in fold (\<lambda>it. UDP_send (sa_ip it) PRIMARYPORT (commd @ req)) (SIPs s2) s2)"

text \<open>
  Storing an update. The request still ends with the origin's address and port, cut off
  from the right; the second cut also drops the character before the \<open>;\<close>.
\<close>

definition seq_update_backup :: "string \<Rightarrow> seq_server \<Rightarrow> (bool \<times> seq_server) result" where
  "seq_update_backup request s =
     bindE (Split request '';'') (\<lambda>t0.
       let (_, t1) = GetNext t0;
           (_, t2) = GetNext t1;
           (tok, t3) = GetNext t2;
           repID = atoi tok
       in case reply_hierachy repID s of
            None \<Rightarrow> Inr (False, s)
          | Some h \<Rightarrow>
              bindE (substr request (pos_succ (find_first_of request '';'' 0)) None) (\<lambda>content.
              bindE (substr content 0 (find_first_of content '';'' 0)) (\<lambda>ID.
              bindE (substr content (pos_succ (find_first_of content '';'' 0)) None) (\<lambda>content.
              bindE (substr content 0 (find_last_of content '';'')) (\<lambda>content.
              bindE (substr content 0 (pos_pred (find_last_of content '';''))) (\<lambda>content.
              bindE (substr content (pos_succ (find_first_of content '';'' 0)) None) (\<lambda>text.
                Inr (True, s\<lparr>articles := articles s @
                  [\<lparr>art_ID = word_of_int (atoi ID), art_primaryIP = [], art_content = [text],
                    art_hierachy = h\<rparr>]\<rparr>))))))))"

text \<open>W2: [forward_req;ip;port;request], to the primary.\<close>

definition seq_forwardW2 :: "string \<Rightarrow> seq_server \<Rightarrow> seq_server" where
  "seq_forwardW2 request s =
     UDP_send (coordinatorIP s) PRIMARYPORT
       (''forward_req;'' @ field (checkip s) @ field (to_string BACKUPPORT) @ request) s"

definition seq_Post_handler :: "SAddr \<Rightarrow> string \<Rightarrow> seq_server \<Rightarrow> seq_server result" where
  "seq_Post_handler client_addr request s =
     (let request1 = request @ '';'' @ field (checkip s) @ to_string BACKUPPORT;
          s1 = seq_forwardW2 (''-1;'' @ request1) s
      in bindE (UDP_receive BACKUPPORT s1) (\<lambda>(ReceivedData, s2).
           Inr (UDP_send (sa_ip client_addr) (sa_port client_addr) ReceivedData s2)))"

definition seq_Read_handler :: "SAddr \<Rightarrow> seq_server \<Rightarrow> seq_server result" where
  "seq_Read_handler client_addr s = sendArticle (sa_ip client_addr) (sa_port client_addr) s"

definition seq_Choose_handler :: "SAddr \<Rightarrow> string \<Rightarrow> seq_server \<Rightarrow> seq_server result" where
  "seq_Choose_handler client_addr request s = Inr s"

definition seq_Reply_handler :: "SAddr \<Rightarrow> string \<Rightarrow> seq_server \<Rightarrow> seq_server result" where
  "seq_Reply_handler client_addr request s =
     (let request1 = request @ '';'' @ field (checkip s) @ to_string BACKUPPORT;
          s1 = seq_forwardW2 request1 s
      in bindE (UDP_receive BACKUPPORT s1) (\<lambda>(ReceivedData, s2).
           Inr (UDP_send (sa_ip client_addr) (sa_port client_addr) ReceivedData s2)))"

definition seq_vtable :: "seq_server vtable" where
  "seq_vtable = \<lparr>Post_handler = seq_Post_handler, Read_handler = seq_Read_handler,
     Choose_handler = seq_Choose_handler, Reply_handler = seq_Reply_handler\<rparr>"

section \<open>The listen loop of PRIMARYPORT\<close>

datatype seq_command = SEQ_UNKNOWN | SEQ_FORWARD | SEQ_UPDATE | SEQ_ACKUP

definition seq_command_of :: "bool \<Rightarrow> string \<Rightarrow> seq_command" where
  "seq_command_of coord strCommand =
     (if coord \<and> strcaseeq strCommand ''forward_req'' then SEQ_FORWARD
      else if coord \<and> strcaseeq strCommand ''ACK_up'' then SEQ_ACKUP
      else if strcaseeq strCommand ''update'' then SEQ_UPDATE
      else SEQ_UNKNOWN)"

definition seq_forward_step :: "string \<Rightarrow> seq_server \<Rightarrow> seq_server" where
  "seq_forward_step request s =
     (let (req_num, v) = free_slot (ack_num s)
      in seq_forward_update request (int req_num) (s\<lparr>ack_num := v\<rparr>))"

text \<open>\<open>ack_num[req_ID]++\<close>: an index outside the vector is an undefined access.\<close>

definition seq_ack_step :: "string \<Rightarrow> seq_server \<Rightarrow> seq_server result" where
  "seq_ack_step request s =
     (let req_ID = atoi (first_field request);
          request1 = skip_field request
      in if req_ID < 0 \<or> int (length (ack_num s)) \<le> req_ID then Inl OutOfBounds
         else
           let k = nat req_ID;
               n = ack_num s ! k + 1;
               s1 = s\<lparr>ack_num := (ack_num s)[k := n]\<rparr>
           in if n = int (length (SIPs s)) then
                (let succ = first_field request1;
                     strReturn = ''ACK_comp'' @ '';'' @ succ;
                     s2 = (if atoi succ = 0 then s1\<lparr>seq_ID := seq_ID s1 - 1\<rparr> else s1);
                     request2 = skip_field request1;
                     backupIP = first_field request2;
                     backupPort = atoi (skip_field request2);
                     s3 = UDP_send backupIP backupPort strReturn s2
                 in Inr (s3\<lparr>ack_num := (ack_num s3)[k := 0]\<rparr>))
              else Inr s1)"

text \<open>W4: [ACK_up;ip;port;req_ID;0/1;origin ip;origin port], to the primary.\<close>

definition seq_update_step :: "string \<Rightarrow> string \<Rightarrow> seq_server \<Rightarrow> seq_server result" where
  "seq_update_step strIPAddress request s =
     bindE (seq_update_backup request s) (\<lambda>(exist, s1).
       let req_ID = first_field request;
           port = last_field request;
           content = drop_last_field request;
           ip = last_field content;
           commd = ''ACK_up;'' @ field (checkip s) @ field (to_string PRIMARYPORT) @ field req_ID
                   @ (if exist then ''1;'' else ''0;'') @ field ip @ port
       in Inr (UDP_send strIPAddress PRIMARYPORT commd s1))"

definition seq_listen_step :: "string \<Rightarrow> seq_server \<Rightarrow> seq_server result" where
  "seq_listen_step datagram s =
     (let ReceivedData = cstr (take BB_BUFLEN datagram) in
      bindE (Split ReceivedData '';'') (\<lambda>t0.
        let (strCommand, t1) = GetNext t0;
            command_type = seq_command_of (IsCoordinator s) strCommand;
            (strIPAddress, t2) = GetNext t1;
            (strPort, t3) = GetNext t2;
            nPort = atoi strPort
        in if isValidIP strIPAddress \<and> isValidPort nPort then
             (let request = (skip_field ^^ 3) ReceivedData in
              case command_type of
                SEQ_FORWARD \<Rightarrow> Inr (seq_forward_step request s)
              | SEQ_ACKUP \<Rightarrow> seq_ack_step request s
              | SEQ_UPDATE \<Rightarrow> seq_update_step strIPAddress request s
              | SEQ_UNKNOWN \<Rightarrow> Inr s)
           else Inr s))"

section \<open>Messages of the protocol\<close>

lemma seq_listen_step_tokens:
  "seq_listen_step d s =
     (let R = cstr (take BB_BUFLEN d); ts = tokens '';'' R;
          ip = tok_at ts (Suc 0); request = (skip_field ^^ 3) R
      in if isValidIP ip \<and> isValidPort (atoi (tok_at ts (Suc (Suc 0)))) then
           (case seq_command_of (IsCoordinator s) (tok_at ts 0) of
              SEQ_FORWARD \<Rightarrow> Inr (seq_forward_step request s)
            | SEQ_ACKUP \<Rightarrow> seq_ack_step request s
            | SEQ_UPDATE \<Rightarrow> seq_update_step ip request s
            | SEQ_UNKNOWN \<Rightarrow> Inr s)
         else Inr s)"
  unfolding seq_listen_step_def Let_def Split_tz bindE.simps GetNext_tz prod.case by (rule refl)

definition seq_handle :: "string \<Rightarrow> string \<Rightarrow> int \<Rightarrow> string \<Rightarrow> seq_server \<Rightarrow> seq_server result" where
  "seq_handle cmd ip p request s =
     (case seq_command_of (IsCoordinator s) cmd of
        SEQ_FORWARD \<Rightarrow> Inr (seq_forward_step request s)
      | SEQ_ACKUP \<Rightarrow> seq_ack_step request s
      | SEQ_UPDATE \<Rightarrow> seq_update_step ip request s
      | SEQ_UNKNOWN \<Rightarrow> Inr s)"

interpretation seq: frame_loop seq_listen_step seq_handle
  by unfold_locales (simp only: seq_listen_step_tokens Let_def seq_handle_def)

lemmas seq_listen_frame = seq.step_frame [unfolded seq_handle_def]

lemma seq_command_simps [simp]:
  "seq_command_of True ''forward_req'' = SEQ_FORWARD" "seq_command_of False ''forward_req'' = SEQ_UNKNOWN"
  "seq_command_of True ''ACK_up'' = SEQ_ACKUP" "seq_command_of False ''ACK_up'' = SEQ_UNKNOWN"
  "seq_command_of c ''update'' = SEQ_UPDATE" "seq_command_of c ''ACK_comp'' = SEQ_UNKNOWN"
  by (simp_all add: seq_command_of_def strcaseeq_def tolower_def upper_letters_def lower_letters_def)

section \<open>Storing an update\<close>

text \<open>The update the primary sends, after the frame: [req_ID;article ID;rep_ID;text;ip;port].\<close>

lemma seq_update_backup_fields:
  assumes "CHR '';'' \<notin> set k" "CHR '';'' \<notin> set ip" "CHR '';'' \<notin> set port" "k \<noteq> []" "t \<noteq> []"
  shows "seq_update_backup (field k @ field (to_string ID) @ field (to_string rep) @ t @ '';'' @ field ip @ port) s =
     (case reply_hierachy (atoi (to_string rep)) s of
        None \<Rightarrow> Inr (False, s)
      | Some h \<Rightarrow> Inr (True, s\<lparr>articles := articles s @
          [\<lparr>art_ID = word_of_int (atoi (to_string ID)), art_primaryIP = [], art_content = [butlast t],
             art_hierachy = h\<rparr>]\<rparr>))"
proof -
  let ?r = "t @ '';'' @ field ip @ port"
  let ?m = "field k @ field (to_string ID) @ field (to_string rep) @ ?r"
  have toks: "tokens '';'' ?m = k # to_string ID # to_string rep # tokens '';'' ?r"
    using assms by (simp add: field_def tokens_field)
  have s1: "skip_field ?m = field (to_string ID) @ field (to_string rep) @ ?r"
    using assms(1) by (simp add: field_def skip_field_app)
  have f1: "first_field (field (to_string ID) @ field (to_string rep) @ ?r) = to_string ID"
    by (simp add: field_def first_field_app)
  have s2: "skip_field (field (to_string ID) @ field (to_string rep) @ ?r) = field (to_string rep) @ ?r"
    by (simp add: field_def skip_field_app)
  have d1: "drop_last_field (field (to_string rep) @ ?r) = (field (to_string rep) @ t) @ '';'' @ ip"
    using drop_last_field_app [of port "(field (to_string rep) @ t) @ '';'' @ ip"] assms(3)
    by (simp add: field_def)
  have l1: "find_last_of ((field (to_string rep) @ t) @ '';'' @ ip) '';'' = Some (length (field (to_string rep) @ t))"
    using find_last_of_semicolon [of ip "field (to_string rep) @ t"] assms(2) by simp
  have l2: "pos_pred (Some (length (field (to_string rep) @ t))) = Some (length (field (to_string rep)) + (length t - 1))"
    using assms(5) by (cases t) (simp_all add: pos_pred_def)
  have l3: "substr ((field (to_string rep) @ t) @ '';'' @ ip) 0 (Some (length (field (to_string rep)) + (length t - 1)))
      = Inr (field (to_string rep) @ butlast t)"
    by (simp add: substr_def butlast_conv_take)
  have s3: "skip_field (field (to_string rep) @ butlast t) = butlast t"
    by (simp add: field_def skip_field_app)
  show ?thesis
    unfolding seq_update_backup_def Split_tz bindE.simps GetNext_tz prod.case Let_def substr_skip_field
      substr_first_field substr_drop_last_field toks s1 f1 s2 d1 l1 l2 l3 s3 tok_at_simps
    by (rule refl)
qed

section \<open>One step of the protocol\<close>

text \<open>W3 and W4 of a transaction.\<close>

definition update_msg :: "string \<Rightarrow> int \<Rightarrow> int \<Rightarrow> string \<Rightarrow> string" where
  "update_msg pip k ID req =
     frame ''update'' pip PRIMARYPORT (field (to_string k) @ field (to_string ID) @ req)"

definition ack_msg :: "string \<Rightarrow> int \<Rightarrow> bool \<Rightarrow> string \<Rightarrow> string \<Rightarrow> string" where
  "ack_msg ip k success oip oport =
     frame ''ACK_up'' ip PRIMARYPORT
       (field (to_string k) @ (if success then ''1;'' else ''0;'') @ field oip @ oport)"

lemma seq_forward_step_eq:
  assumes "requestQ s = []" "CHR 0x00 \<notin> set req" "CHR 0x00 \<notin> set (local_ip s)"
  shows "seq_forward_step req s =
     (let (k, v) = free_slot (ack_num s)
      in s\<lparr>ack_num := v, seq_ID := seq_ID s + 1,
           outbox := outbox s @ map (\<lambda>a. (sa_ip a, PRIMARYPORT, update_msg (local_ip s) (int k) (seq_ID s + 1) req))
             (SIPs s)\<rparr>)"
proof -
  obtain k v where kv: "free_slot (ack_num s) = (k, v)" by fastforce
  have "CHR 0x00 \<notin> set (update_msg (local_ip s) (int k) (seq_ID s + 1) req)"
    using assms by (simp add: update_msg_def frame_def field_def)
  moreover have "''update;'' @ field (local_ip s) @ field (to_string PRIMARYPORT) @ field (to_string (int k))
      @ field (to_string (seq_ID s + 1)) @ req = update_msg (local_ip s) (int k) (seq_ID s + 1) req"
    by (simp add: update_msg_def frame_def field_def)
  ultimately show ?thesis
    using assms by (simp add: seq_forward_step_def kv seq_forward_update_def Let_def checkip_def fold_UDP_send)
qed

lemma seq_update_step_eq:
  assumes "CHR '';'' \<notin> set oip" "CHR 0x00 \<notin> set oip" "t \<noteq> []" "is_int32 ID" "is_int32 rep"
    "CHR 0x00 \<notin> set (local_ip s)"
  shows "seq_update_step pip (field (to_string k) @ field (to_string ID) @ field (to_string rep) @ t @ '';'' @ field oip
           @ to_string BACKUPPORT) s =
     Inr (case reply_hierachy rep s of
            None \<Rightarrow> s\<lparr>outbox := outbox s @ [(pip, PRIMARYPORT, ack_msg (local_ip s) k False oip (to_string BACKUPPORT))]\<rparr>
          | Some h \<Rightarrow> s\<lparr>articles := articles s @ [\<lparr>art_ID = word_of_int ID, art_primaryIP = [],
                art_content = [butlast t], art_hierachy = h\<rparr>],
              outbox := outbox s @ [(pip, PRIMARYPORT, ack_msg (local_ip s) k True oip (to_string BACKUPPORT))]\<rparr>)"
proof -
  let ?q = "field (to_string ID) @ field (to_string rep) @ t @ '';'' @ field oip @ to_string BACKUPPORT"
  have 1: "first_field (field (to_string k) @ ?q) = to_string k"
    by (simp add: field_def first_field_app)
  have 2: "last_field (field (to_string k) @ ?q) = to_string BACKUPPORT"
    using last_field_app [of "to_string BACKUPPORT" "field (to_string k) @ field (to_string ID) @ field (to_string rep) @ t @ '';'' @ oip"]
    by (simp add: field_def)
  have 3: "drop_last_field (field (to_string k) @ ?q) = (field (to_string k) @ field (to_string ID) @ field (to_string rep) @ t) @ '';'' @ oip"
    using drop_last_field_app [of "to_string BACKUPPORT" "field (to_string k) @ field (to_string ID) @ field (to_string rep) @ t @ '';'' @ oip"]
    by (simp add: field_def)
  have 4: "last_field ((field (to_string k) @ field (to_string ID) @ field (to_string rep) @ t) @ '';'' @ oip) = oip"
    using last_field_app [of oip "field (to_string k) @ field (to_string ID) @ field (to_string rep) @ t"] assms(1) by simp
  have 5: "CHR 0x00 \<notin> set (ack_msg (local_ip s) k b oip (to_string BACKUPPORT))" for b
    using assms by (simp add: ack_msg_def frame_def field_def)
  have 6: "''ACK_up;'' @ field (local_ip s) @ field (to_string PRIMARYPORT) @ field (to_string k)
     @ (if b then ''1;'' else ''0;'') @ field oip @ to_string BACKUPPORT = ack_msg (local_ip s) k b oip (to_string BACKUPPORT)" for b
    by (simp add: ack_msg_def frame_def field_def)
  note up = seq_update_backup_fields [of "to_string k" oip "to_string BACKUPPORT" t ID rep s]
  show ?thesis
    using assms
    by (simp only: seq_update_step_def up atoi_to_string to_string_no_semicolon to_string_not_Nil not_False_eq_True
        1 2 3 4 Let_def checkip_def 6 split: option.split)
      (simp add: UDP_send_def 5)
qed

lemma seq_ack_step_eq:
  assumes "k < length (ack_num s)" "is_int32 (int k)" "CHR '';'' \<notin> set oip" "is_int32 p"
  shows "seq_ack_step (field (to_string (int k)) @ (if b then ''1;'' else ''0;'') @ field oip @ to_string p) s =
     Inr (if ack_num s ! k + 1 = int (length (SIPs s))
          then s\<lparr>ack_num := (ack_num s)[k := 0], seq_ID := (if b then seq_ID s else seq_ID s - 1),
                 outbox := outbox s @ [(oip, p mod 65536, if b then ''ACK_comp;1'' else ''ACK_comp;0'')]\<rparr>
          else s\<lparr>ack_num := (ack_num s)[k := ack_num s ! k + 1]\<rparr>)"
proof -
  let ?f = "if b then ''1'' else ''0''"
  have m: "field (to_string (int k)) @ (if b then ''1;'' else ''0;'') @ field oip @ to_string p
      = field (to_string (int k)) @ field ?f @ field oip @ to_string p"
    by (simp add: field_def)
  have 1: "first_field (field (to_string (int k)) @ field ?f @ field oip @ to_string p) = to_string (int k)"
    "skip_field (field (to_string (int k)) @ field ?f @ field oip @ to_string p) = field ?f @ field oip @ to_string p"
    "first_field (field ?f @ field oip @ to_string p) = ?f"
    "skip_field (field ?f @ field oip @ to_string p) = field oip @ to_string p"
    "first_field (field oip @ to_string p) = oip" "skip_field (field oip @ to_string p) = to_string p"
    using assms(3) by (simp_all add: field_def first_field_app skip_field_app del: if_split_asm)
  have 2: "atoi ?f = (if b then 1 else 0)" by (cases b; simp only: if_True if_False; code_simp)
  show ?thesis
    unfolding seq_ack_step_def Let_def m 1 2 using assms
    by (simp add: atoi_to_string Let_def UDP_send_def)
qed

text \<open>A run of datagrams at PRIMARYPORT.\<close>

fun seq_run :: "string list \<Rightarrow> seq_server \<Rightarrow> seq_server result" where
  "seq_run [] s = Inr s"
| "seq_run (d # ds) s = bindE (seq_listen_step d s) (seq_run ds)"

definition ack_ok :: "nat \<Rightarrow> string \<Rightarrow> string \<Rightarrow> bool" where
  "ack_ok k ip oip \<longleftrightarrow> is_int32 (int k) \<and> isValidIP ip \<and> CHR 0x00 \<notin> set ip \<and> isValidIP oip \<and> CHR 0x00 \<notin> set oip"

lemma seq_listen_ack:
  assumes "ack_ok k ip oip" "IsCoordinator s"
  shows "seq_listen_step (ack_msg ip (int k) b oip (to_string BACKUPPORT)) s =
         seq_ack_step (field (to_string (int k)) @ (if b then ''1;'' else ''0;'') @ field oip @ to_string BACKUPPORT) s"
proof -
  have f: "frame_ok ''ACK_up'' ip PRIMARYPORT
      (field (to_string (int k)) @ (if b then ''1;'' else ''0;'') @ field oip @ to_string BACKUPPORT)"
    using assms by (simp add: frame_ok_def ack_ok_def isValidPort_def field_def)
  have "length ip \<le> 15" "length oip \<le> 15" "length (to_string (int k)) \<le> 11"
    using assms isValidIP_length [of ip] isValidIP_length [of oip] length_to_string_int32 [of "int k"]
    by (auto simp: ack_ok_def)
  then have "length (ack_msg ip (int k) b oip (to_string BACKUPPORT)) \<le> BB_BUFLEN"
    by (simp add: ack_msg_def frame_def to_string_ports)
  then show ?thesis
    using seq_listen_frame [OF f, of s] assms(2) by (simp add: ack_msg_def)
qed

lemma seq_acks_run:
  assumes "IsCoordinator s" "k < length (ack_num s)" "\<forall>(ip, b)\<in>set as. ack_ok k ip oip" "is_int32 (int k)"
    "ack_num s ! k + int (length as) \<le> int (length (SIPs s))" "CHR '';'' \<notin> set oip"
  shows "seq_run (map (\<lambda>(ip, b). ack_msg ip (int k) b oip (to_string BACKUPPORT)) as) s =
     Inr (if as \<noteq> [] \<and> ack_num s ! k + int (length as) = int (length (SIPs s))
          then s\<lparr>ack_num := (ack_num s)[k := 0],
                 seq_ID := (if snd (last as) then seq_ID s else seq_ID s - 1),
                 outbox := outbox s @ [(oip, BACKUPPORT, if snd (last as) then ''ACK_comp;1'' else ''ACK_comp;0'')]\<rparr>
          else s\<lparr>ack_num := (ack_num s)[k := ack_num s ! k + int (length as)]\<rparr>)"
  using assms
proof (induction as arbitrary: s)
  case Nil
  then show ?case by simp
next
  case (Cons a as)
  obtain ip b where a: "a = (ip, b)" by fastforce
  note step = seq_listen_ack [of k ip oip s b] seq_ack_step_eq [of k s oip BACKUPPORT b]
  show ?case
  proof (cases "as = []")
    case True
    with Cons.prems step a show ?thesis by (simp add: is_int32_def)
  next
    case False
    then have n: "ack_num s ! k + 1 < int (length (SIPs s))"
      using Cons.prems(5) by (cases as) auto
    let ?s = "s\<lparr>ack_num := (ack_num s)[k := ack_num s ! k + 1]\<rparr>"
    have "seq_listen_step (ack_msg ip (int k) b oip (to_string BACKUPPORT)) s = Inr ?s"
      using Cons.prems step a n by (simp add: is_int32_def)
    then show ?thesis
      using Cons.IH [of ?s] Cons.prems a False by (auto simp: algebra_simps)
  qed
qed

section \<open>Correctness of a transaction\<close>

lemma seq_update_eq:
  assumes "isValidIP pip" "CHR 0x00 \<notin> set pip" "isValidIP oip" "CHR 0x00 \<notin> set oip"
    and "t \<noteq> []" "CHR 0x00 \<notin> set t" "length t \<le> 7000" "CHR 0x00 \<notin> set (local_ip s)"
    and "is_int32 k" "is_int32 ID" "is_int32 rep"
  shows "seq_listen_step (update_msg pip k ID (field (to_string rep) @ t @ '';'' @ field oip @ to_string BACKUPPORT)) s =
     Inr (case reply_hierachy rep s of
            None \<Rightarrow> s\<lparr>outbox := outbox s @ [(pip, PRIMARYPORT, ack_msg (local_ip s) k False oip (to_string BACKUPPORT))]\<rparr>
          | Some h \<Rightarrow> s\<lparr>articles := articles s @ [\<lparr>art_ID = word_of_int ID, art_primaryIP = [],
                art_content = [butlast t], art_hierachy = h\<rparr>],
              outbox := outbox s @ [(pip, PRIMARYPORT, ack_msg (local_ip s) k True oip (to_string BACKUPPORT))]\<rparr>)"
proof -
  let ?r = "field (to_string k) @ field (to_string ID) @ field (to_string rep) @ t @ '';'' @ field oip @ to_string BACKUPPORT"
  have f: "frame_ok ''update'' pip PRIMARYPORT ?r"
    using assms by (simp add: frame_ok_def isValidPort_def field_def)
  have "length pip \<le> 15" "length oip \<le> 15"
    using assms isValidIP_length [of pip] isValidIP_length [of oip] by auto
  then have l: "length (frame ''update'' pip PRIMARYPORT ?r) \<le> BB_BUFLEN"
    using assms(7,9-11) length_to_string_int32 [of k] length_to_string_int32 [of ID] length_to_string_int32 [of rep]
    by (simp add: frame_def to_string_ports)
  have "CHR '';'' \<notin> set oip" using isValidIP_clean [OF assms(3)] assms(4) by simp
  then show ?thesis
    using seq_listen_frame [OF f l, of s] seq_update_step_eq [of oip t ID rep s pip k] assms
    by (simp add: update_msg_def)
qed

text \<open>
  A server that receives an update answers with exactly one ACK_up to the primary,
  carrying the request's slot and the address of the server the client talked to. A post,
  or a reply to an article it holds, is stored once, under the ID the primary chose, one
  level below the article replied to; a reply to an article it does not hold is refused
  and changes no article. But the stored text lacks the last character the client wrote.
\<close>

theorem seq_update_stores:
  assumes "isValidIP pip" "CHR 0x00 \<notin> set pip" "isValidIP oip" "CHR 0x00 \<notin> set oip"
    and "t \<noteq> []" "CHR 0x00 \<notin> set t" "length t \<le> 7000" "CHR 0x00 \<notin> set (local_ip s)"
    and "is_int32 k" "is_int32 ID" "is_int32 rep"
  shows "seq_listen_step (update_msg pip k ID (field (to_string rep) @ t @ '';'' @ field oip @ to_string BACKUPPORT)) s =
     Inr (case reply_hierachy rep s of
            None \<Rightarrow> s\<lparr>outbox := outbox s @ [(pip, PRIMARYPORT, ack_msg (local_ip s) k False oip (to_string BACKUPPORT))]\<rparr>
          | Some h \<Rightarrow> s\<lparr>articles := articles s @ [\<lparr>art_ID = word_of_int ID, art_primaryIP = [],
                art_content = [butlast t], art_hierachy = h\<rparr>],
              outbox := outbox s @ [(pip, PRIMARYPORT, ack_msg (local_ip s) k True oip (to_string BACKUPPORT))]\<rparr>)"
  using assms by (rule seq_update_eq)

lemma seq_update_stores_witness:
  "\<exists>s. seq_listen_step ''update;10.0.0.1;5100;0;7;-1;1;T;A;hello;10.0.0.2;5101'' s
     = Inr (s\<lparr>articles := [\<lparr>art_ID = 7, art_primaryIP = [], art_content = [''1;T;A;hell''], art_hierachy = 0\<rparr>],
              outbox := [(''10.0.0.1'', 5100, ''ACK_up;10.0.0.3;5100;0;1;10.0.0.2;5101'')]\<rparr>)
     \<and> articles s = []"
proof -
  define s where "s = \<lparr>local_ip = ''10.0.0.3'', inbox = (\<lambda>_. []), outbox = [], coordinatorIP = ''10.0.0.1'',
     IsCoordinator = False, SIPs = [], CIPs = [], articles = [], seq_ID = 0, requestQ = [], ack_num = []\<rparr>"
  have v: "isValidIP ''10.0.0.1''" "isValidIP ''10.0.0.2''" by code_simp+
  have m: "update_msg ''10.0.0.1'' 0 7 (field (to_string (- 1)) @ ''1;T;A;hello'' @ '';'' @ field ''10.0.0.2'' @ to_string BACKUPPORT)
      = ''update;10.0.0.1;5100;0;7;-1;1;T;A;hello;10.0.0.2;5101''"
    and a: "ack_msg ''10.0.0.3'' 0 True ''10.0.0.2'' (to_string BACKUPPORT) = ''ACK_up;10.0.0.3;5100;0;1;10.0.0.2;5101''"
    by code_simp+
  have "reply_hierachy (- 1) s = Some 0" by (simp add: reply_hierachy_def)
  then have "seq_listen_step ''update;10.0.0.1;5100;0;7;-1;1;T;A;hello;10.0.0.2;5101'' s
     = Inr (s\<lparr>articles := [\<lparr>art_ID = 7, art_primaryIP = [], art_content = [''1;T;A;hell''], art_hierachy = 0\<rparr>],
              outbox := [(''10.0.0.1'', 5100, ''ACK_up;10.0.0.3;5100;0;1;10.0.0.2;5101'')]\<rparr>)"
    using seq_update_stores [of "''10.0.0.1''" "''10.0.0.2''" "''1;T;A;hello''" s 0 7 "- 1"] v
    unfolding m by (simp add: is_int32_def s_def a)
  then show ?thesis by (intro exI [of _ s]) (simp add: s_def)
qed

text \<open>
  C17: a transaction without interleaving: when the primary handles a forwarded request and
  then one answer from each of its servers, it broadcasts the request once to every server
  under the next article ID, reports to the origin exactly once, after the last answer,
  with the flag of that answer, and gives the slot back. A failure gives the ID back too.
\<close>

theorem seq_transaction:
  assumes "IsCoordinator P" "requestQ P = []" "isValidIP (local_ip P)" "CHR 0x00 \<notin> set (local_ip P)"
    and "free_slot (ack_num P) = (k, v)" "is_int32 (int k)"
    and "isValidIP bip" "CHR 0x00 \<notin> set bip" "CHR 0x00 \<notin> set req" "length req \<le> 7900"
    and "length as = length (SIPs P)" "as \<noteq> []"
    and "\<forall>(ip, b)\<in>set as. isValidIP ip \<and> CHR 0x00 \<notin> set ip"
  shows "seq_run (frame ''forward_req'' bip BACKUPPORT req
            # map (\<lambda>(ip, b). ack_msg ip (int k) b bip (to_string BACKUPPORT)) as) P =
     Inr (P\<lparr>ack_num := v, seq_ID := (if snd (last as) then seq_ID P + 1 else seq_ID P),
            outbox := outbox P
              @ map (\<lambda>a. (sa_ip a, PRIMARYPORT, update_msg (local_ip P) (int k) (seq_ID P + 1) req)) (SIPs P)
              @ [(bip, BACKUPPORT, if snd (last as) then ''ACK_comp;1'' else ''ACK_comp;0'')]\<rparr>)"
proof -
  have f: "frame_ok ''forward_req'' bip BACKUPPORT req"
    using assms by (simp add: frame_ok_def isValidPort_def)
  have "length bip \<le> 15" using assms(7,8) isValidIP_length [of bip] by simp
  then have l: "length (frame ''forward_req'' bip BACKUPPORT req) \<le> BB_BUFLEN"
    using assms(10) by (simp add: frame_def to_string_ports)
  let ?s = "P\<lparr>ack_num := v, seq_ID := seq_ID P + 1,
     outbox := outbox P @ map (\<lambda>a. (sa_ip a, PRIMARYPORT, update_msg (local_ip P) (int k) (seq_ID P + 1) req)) (SIPs P)\<rparr>"
  have 1: "seq_listen_step (frame ''forward_req'' bip BACKUPPORT req) P = Inr ?s"
    using seq_listen_frame [OF f l, of P] seq_forward_step_eq [of P req] assms(1-5,9) by simp
  have k: "k < length v" "v ! k = 0" using free_slot_spec [OF assms(5)] by auto
  then have v: "v[k := 0] = v" by (metis list_update_id)
  have "\<forall>(ip, b)\<in>set as. ack_ok k ip bip" using assms by (auto simp: ack_ok_def)
  moreover have "CHR '';'' \<notin> set bip" using isValidIP_clean [OF assms(7)] assms(8) by simp
  ultimately show ?thesis
    using seq_acks_run [of ?s k as bip] k v 1 assms(1,6,11,12) by simp
qed

lemma seq_transaction_witness:
  "let P = \<lparr>local_ip = ''10.0.0.1'', inbox = (\<lambda>_. []), outbox = [], coordinatorIP = ''10.0.0.1'',
     IsCoordinator = True, SIPs = [\<lparr>sa_ip = ''10.0.0.1'', sa_port = 5105\<rparr>, \<lparr>sa_ip = ''10.0.0.2'', sa_port = 5105\<rparr>],
     CIPs = [], articles = [], seq_ID = 4, requestQ = [], ack_num = [1, 0]\<rparr>
   in seq_run [frame ''forward_req'' ''10.0.0.2'' BACKUPPORT ''-1;hi'',
        ack_msg ''10.0.0.2'' 1 True ''10.0.0.2'' (to_string BACKUPPORT), ack_msg ''10.0.0.1'' 1 True ''10.0.0.2'' (to_string BACKUPPORT)] P
      = Inr (P\<lparr>seq_ID := 5,
          outbox := [(''10.0.0.1'', 5100, update_msg ''10.0.0.1'' 1 5 ''-1;hi''), (''10.0.0.2'', 5100, update_msg ''10.0.0.1'' 1 5 ''-1;hi''),
                     (''10.0.0.2'', 5101, ''ACK_comp;1'')]\<rparr>)"
proof -
  let ?P = "\<lparr>local_ip = ''10.0.0.1'', inbox = (\<lambda>_. []), outbox = [], coordinatorIP = ''10.0.0.1'',
     IsCoordinator = True, SIPs = [\<lparr>sa_ip = ''10.0.0.1'', sa_port = 5105\<rparr>, \<lparr>sa_ip = ''10.0.0.2'', sa_port = 5105\<rparr>],
     CIPs = [], articles = [], seq_ID = 4, requestQ = [], ack_num = [1, 0]\<rparr> :: seq_server"
  have v: "isValidIP ''10.0.0.1''" "isValidIP ''10.0.0.2''" by code_simp+
  have "free_slot (ack_num ?P) = (1, [1, 0])" by (simp add: free_slot_def)
  then show ?thesis
    using seq_transaction [of ?P 1 "[1, 0]" "''10.0.0.2''" "''-1;hi''" "[(''10.0.0.2'', True), (''10.0.0.1'', True)]"] v
    by (simp add: is_int32_def)
qed

text \<open>
  With two requests in flight the count is wrong: the slot the primary takes is not
  marked as used, so two requests forwarded before any answer share slot 0, and the answers
  of one server to both updates complete the second request although the other server has
  answered nothing.
\<close>

theorem seq_slot_shared:
  "\<exists>P P'. IsCoordinator P \<and> map sa_ip (SIPs P) = [''10.0.0.1'', ''10.0.0.2''] \<and> ack_num P = replicate 100 0
     \<and> seq_run [''forward_req;10.0.0.2;5101;-1;one;10.0.0.2;5101'', ''forward_req;10.0.0.1;5101;-1;two;10.0.0.1;5101'',
         ''ACK_up;10.0.0.1;5100;0;1;10.0.0.2;5101'', ''ACK_up;10.0.0.1;5100;0;1;10.0.0.1;5101''] P = Inr P'
     \<and> outbox P' = [(''10.0.0.1'', 5100, ''update;10.0.0.1;5100;0;1;-1;one;10.0.0.2;5101''),
                    (''10.0.0.2'', 5100, ''update;10.0.0.1;5100;0;1;-1;one;10.0.0.2;5101''),
                    (''10.0.0.1'', 5100, ''update;10.0.0.1;5100;0;2;-1;two;10.0.0.1;5101''),
                    (''10.0.0.2'', 5100, ''update;10.0.0.1;5100;0;2;-1;two;10.0.0.1;5101''),
                    (''10.0.0.1'', 5101, ''ACK_comp;1'')]"
proof -
  define P where "P = \<lparr>local_ip = ''10.0.0.1'', inbox = (\<lambda>_. []), outbox = [], coordinatorIP = ''10.0.0.1'',
     IsCoordinator = True, SIPs = [\<lparr>sa_ip = ''10.0.0.1'', sa_port = 5105\<rparr>, \<lparr>sa_ip = ''10.0.0.2'', sa_port = 5105\<rparr>],
     CIPs = [], articles = [], seq_ID = 0, requestQ = [], ack_num = replicate 100 0\<rparr>"
  define P' where "P' = (case seq_run [''forward_req;10.0.0.2;5101;-1;one;10.0.0.2;5101'', ''forward_req;10.0.0.1;5101;-1;two;10.0.0.1;5101'',
         ''ACK_up;10.0.0.1;5100;0;1;10.0.0.2;5101'', ''ACK_up;10.0.0.1;5100;0;1;10.0.0.1;5101''] P of Inr x \<Rightarrow> x | Inl _ \<Rightarrow> P)"
  have 1: "ok (seq_run [''forward_req;10.0.0.2;5101;-1;one;10.0.0.2;5101'', ''forward_req;10.0.0.1;5101;-1;two;10.0.0.1;5101'',
         ''ACK_up;10.0.0.1;5100;0;1;10.0.0.2;5101'', ''ACK_up;10.0.0.1;5100;0;1;10.0.0.1;5101''] P)"
    unfolding P_def by code_simp
  have 2: "outbox P' = [(''10.0.0.1'', 5100, ''update;10.0.0.1;5100;0;1;-1;one;10.0.0.2;5101''),
                    (''10.0.0.2'', 5100, ''update;10.0.0.1;5100;0;1;-1;one;10.0.0.2;5101''),
                    (''10.0.0.1'', 5100, ''update;10.0.0.1;5100;0;2;-1;two;10.0.0.1;5101''),
                    (''10.0.0.2'', 5100, ''update;10.0.0.1;5100;0;2;-1;two;10.0.0.1;5101''),
                    (''10.0.0.1'', 5101, ''ACK_comp;1'')]"
    unfolding P'_def P_def by code_simp
  show ?thesis
    using 1 2 by (intro exI [of _ P] exI [of _ P']) (auto simp: ok_def P'_def P_def)
qed

end
