(* ===== verification/LocalWriteServer.thy ===== *)
theory LocalWriteServer
  imports Messages
begin

text \<open>
  The bulletin board with read-your-write consistency (\<open>LocalWrite_server\<close> in
  Project2/Server/Server.cpp), a local-write primary-backup protocol. A server that gets a
  post or reply first makes itself the primary (\<open>MoveItemX\<close>: fetch all articles from the
  old primary, announce the new one), then forwards the request to its own PRIMARYPORT
  loop, which stores it, acknowledges the client (W3) and updates the others (W4, W5).
\<close>


section \<open>State and operations\<close>

record lw_server = bb_server +
  lw_requestQ :: "string list"
  lw_ack_num :: "int list"

definition lw_init :: "string \<Rightarrow> (int \<Rightarrow> string list) \<Rightarrow> bool \<Rightarrow> lw_server result" where
  "lw_init ip inb Coord =
     bindE (Server_init ip inb Coord)
       (\<lambda>b. Inr (bb_server.extend b \<lparr>lw_requestQ = [], lw_ack_num = replicate 100 0\<rparr>))"

text \<open>The articles of the old primary, numbered from \<open>tmpID\<close> on.\<close>

fun lw_load :: "string list \<Rightarrow> int \<Rightarrow> Article list" where
  "lw_load [] tmpID = []"
| "lw_load (article # as) tmpID =
     \<lparr>art_ID = word_of_int tmpID, art_primaryIP = [], art_content = [drop_last_field article],
       art_hierachy = word_of_int (atoi (last_field article))\<rparr> # lw_load as (tmpID + 1)"

definition lw_MoveItemX :: "string \<Rightarrow> lw_server \<Rightarrow> lw_server result" where
  "lw_MoveItemX localip s =
     (if IsCoordinator s then Inr s
      else
        let s1 = UDP_send (coordinatorIP s) PRIMARYPORT (''moveX;'' @ field localip @ field (to_string BACKUPPORT)) s
        in bindE (UDP_receive BACKUPPORT s1) (\<lambda>(ReceivedData, s2).
             bindE (if ReceivedData \<noteq> []
                    then bindE (Split ReceivedData ''$'') (\<lambda>t. Inr (s2\<lparr>articles := lw_load (rest_tokens t) 1\<rparr>))
                    else Inr s2)
               (\<lambda>s3.
                  let commd = ''broadcastIP;'' @ field localip @ field (to_string BACKUPPORT);
                      s4 = s3\<lparr>IsCoordinator := True, coordinatorIP := localip\<rparr>
                  in Inr (fold (\<lambda>it. UDP_send (sa_ip it) PRIMARYPORT commd)
                            (filter (\<lambda>it. sa_ip it \<noteq> localip) (SIPs s4)) s4))))"

definition lw_forward_update :: "string \<Rightarrow> int \<Rightarrow> int \<Rightarrow> lw_server \<Rightarrow> lw_server" where
  "lw_forward_update request articeID req_num s =
     (let localip = checkip s;
          s1 = s\<lparr>lw_requestQ := lw_requestQ s @ [request]\<rparr>;
          commd = ''update;'' @ field localip @ field (to_string PRIMARYPORT)
                  @ field (to_string req_num) @ field (to_string articeID);
          req = hd (lw_requestQ s1);
          s2 = s1\<lparr>lw_requestQ := tl (lw_requestQ s1)\<rparr>
      in fold (\<lambda>it. UDP_send (sa_ip it) PRIMARYPORT (commd @ req))
           (filter (\<lambda>it. sa_ip it \<noteq> localip) (SIPs s2)) s2)"

definition lw_update_local :: "string \<Rightarrow> int \<Rightarrow> lw_server \<Rightarrow> (bool \<times> lw_server) result" where
  "lw_update_local request articleID s =
     bindE (Split request '';'') (\<lambda>t0.
       let (tok, t1) = GetNext t0; repID = atoi tok
       in case reply_hierachy repID s of
            None \<Rightarrow> Inr (False, s)
          | Some h \<Rightarrow>
              bindE (substr request (pos_succ (find_first_of request '';'' 0)) None) (\<lambda>text.
                Inr (True, s\<lparr>articles := articles s @
                  [\<lparr>art_ID = word_of_int articleID, art_primaryIP = [], art_content = [text],
                    art_hierachy = h\<rparr>]\<rparr>)))"

definition lw_update_backup :: "string \<Rightarrow> lw_server \<Rightarrow> (bool \<times> lw_server) result" where
  "lw_update_backup request s =
     bindE (Split request '';'') (\<lambda>t0.
       let (_, t1) = GetNext t0;
           (_, t2) = GetNext t1;
           (tok, t3) = GetNext t2;
           repID = atoi tok
       in case reply_hierachy repID s of
            None \<Rightarrow> Inr (False, s)
          | Some h \<Rightarrow>
              bindE (substr request (pos_succ (find_first_of request '';'' 0)) None) (\<lambda>content.
              bindE (substr content 0 (find_first_of content '';'' 0)) (\<lambda>ID.
              bindE (substr content (pos_succ (find_first_of content '';'' 0)) None) (\<lambda>content.
              bindE (substr content (pos_succ (find_first_of content '';'' 0)) None) (\<lambda>text.
                Inr (True, s\<lparr>articles := articles s @
                  [\<lparr>art_ID = word_of_int (atoi ID), art_primaryIP = [], art_content = [text],
                    art_hierachy = h\<rparr>]\<rparr>))))))"

text \<open>The request a server sends to the primary, which by then is itself.\<close>

definition lw_go_on :: "SAddr \<Rightarrow> string \<Rightarrow> lw_server \<Rightarrow> lw_server" where
  "lw_go_on client_addr request s =
     UDP_send (coordinatorIP s) PRIMARYPORT
       (''forward_req;'' @ field (sa_ip client_addr) @ field (to_string (sa_port client_addr)) @ request) s"

definition lw_Post_handler :: "SAddr \<Rightarrow> string \<Rightarrow> lw_server \<Rightarrow> lw_server result" where
  "lw_Post_handler client_addr request s =
     bindE (lw_MoveItemX (checkip s) s) (\<lambda>s1. Inr (lw_go_on client_addr (''-1;'' @ request) s1))"

definition lw_Read_handler :: "SAddr \<Rightarrow> lw_server \<Rightarrow> lw_server result" where
  "lw_Read_handler client_addr s = sendArticle (sa_ip client_addr) (sa_port client_addr) s"

definition lw_Choose_handler :: "SAddr \<Rightarrow> string \<Rightarrow> lw_server \<Rightarrow> lw_server result" where
  "lw_Choose_handler client_addr request s = Inr s"

definition lw_Reply_handler :: "SAddr \<Rightarrow> string \<Rightarrow> lw_server \<Rightarrow> lw_server result" where
  "lw_Reply_handler client_addr request s =
     bindE (lw_MoveItemX (checkip s) s) (\<lambda>s1. Inr (lw_go_on client_addr request s1))"

definition lw_vtable :: "lw_server vtable" where
  "lw_vtable = \<lparr>Post_handler = lw_Post_handler, Read_handler = lw_Read_handler,
     Choose_handler = lw_Choose_handler, Reply_handler = lw_Reply_handler\<rparr>"

section \<open>The listen loop of PRIMARYPORT\<close>

datatype lw_command = LW_UNKNOWN | MOVEX | PRIMCHAN | FORWARD_L | UPDATE_L | ACKUP_L

definition lw_command_of :: "bool \<Rightarrow> string \<Rightarrow> lw_command" where
  "lw_command_of coord strCommand =
     (if coord \<and> strcaseeq strCommand ''moveX'' then MOVEX
      else if coord \<and> strcaseeq strCommand ''forward_req'' then FORWARD_L
      else if strcaseeq strCommand ''broadcastIP'' then PRIMCHAN
      else if coord \<and> strcaseeq strCommand ''ACK_up'' then ACKUP_L
      else if strcaseeq strCommand ''update'' then UPDATE_L
      else LW_UNKNOWN)"

definition lw_forward_step :: "string \<Rightarrow> int \<Rightarrow> string \<Rightarrow> lw_server \<Rightarrow> lw_server result" where
  "lw_forward_step strIPAddress nPort request s =
     (let (req_num, v) = free_slot (lw_ack_num s);
          articleID = int (length (articles s)) + 1
      in bindE (lw_update_local request articleID (s\<lparr>lw_ack_num := v\<rparr>)) (\<lambda>(localup, s1).
           let commd = ''ACK_comp;'' @ (if localup then ''1'' else ''0'')
           in Inr (lw_forward_update request articleID (int req_num) (UDP_send strIPAddress nPort commd s1))))"

definition lw_ack_step :: "string \<Rightarrow> lw_server \<Rightarrow> lw_server result" where
  "lw_ack_step request s =
     (let req_ID = atoi (first_field request);
          request1 = skip_field request
      in if atoi request1 = 0 then Inr s
         else if req_ID < 0 \<or> int (length (lw_ack_num s)) \<le> req_ID then Inl OutOfBounds
         else Inr (s\<lparr>lw_ack_num := (lw_ack_num s)[nat req_ID := lw_ack_num s ! nat req_ID + 1]\<rparr>))"

definition lw_update_step :: "string \<Rightarrow> string \<Rightarrow> lw_server \<Rightarrow> lw_server result" where
  "lw_update_step strIPAddress request s =
     bindE (lw_update_backup request s) (\<lambda>(exist, s1).
       let req_ID = first_field request;
           commd = ''ACK_up;'' @ field (checkip s) @ field (to_string PRIMARYPORT) @ field req_ID
                   @ (if exist then ''1'' else ''0'')
       in Inr (UDP_send strIPAddress PRIMARYPORT commd s1))"

definition lw_listen_step :: "string \<Rightarrow> lw_server \<Rightarrow> lw_server result" where
  "lw_listen_step datagram s =
     (let ReceivedData = cstr (take BB_BUFLEN datagram) in
      bindE (Split ReceivedData '';'') (\<lambda>t0.
        let (strCommand, t1) = GetNext t0;
            command_type = lw_command_of (IsCoordinator s) strCommand;
            (strIPAddress, t2) = GetNext t1;
            (strPort, t3) = GetNext t2;
            nPort = atoi strPort
        in if isValidIP strIPAddress \<and> isValidPort nPort then
             (let request = (skip_field ^^ 3) ReceivedData in
              case command_type of
                MOVEX \<Rightarrow> sendArticle strIPAddress nPort s
              | PRIMCHAN \<Rightarrow> Inr (s\<lparr>coordinatorIP := strIPAddress, IsCoordinator := False\<rparr>)
              | FORWARD_L \<Rightarrow> lw_forward_step strIPAddress nPort request s
              | ACKUP_L \<Rightarrow> lw_ack_step request s
              | UPDATE_L \<Rightarrow> lw_update_step strIPAddress request s
              | LW_UNKNOWN \<Rightarrow> Inr s)
           else Inr s))"

section \<open>The loop as a framed loop\<close>

definition lw_handle :: "string \<Rightarrow> string \<Rightarrow> int \<Rightarrow> string \<Rightarrow> lw_server \<Rightarrow> lw_server result" where
  "lw_handle cmd ip p request s =
     (case lw_command_of (IsCoordinator s) cmd of
        MOVEX \<Rightarrow> sendArticle ip p s
      | PRIMCHAN \<Rightarrow> Inr (s\<lparr>coordinatorIP := ip, IsCoordinator := False\<rparr>)
      | FORWARD_L \<Rightarrow> lw_forward_step ip p request s
      | ACKUP_L \<Rightarrow> lw_ack_step request s
      | UPDATE_L \<Rightarrow> lw_update_step ip request s
      | LW_UNKNOWN \<Rightarrow> Inr s)"

interpretation lw: frame_loop lw_listen_step lw_handle
  by unfold_locales
    (simp only: lw_listen_step_def Let_def Split_tz bindE.simps GetNext_tz prod.case lw_handle_def)

lemma lw_command_simps [simp]:
  "lw_command_of True ''forward_req'' = FORWARD_L" "lw_command_of True ''moveX'' = MOVEX"
  "lw_command_of c ''broadcastIP'' = PRIMCHAN" "lw_command_of True ''ACK_up'' = ACKUP_L"
  "lw_command_of c ''update'' = UPDATE_L"
  by (simp_all add: lw_command_of_def strcaseeq_def tolower_def upper_letters_def lower_letters_def)

section \<open>Forwarding and storing\<close>

lemma fold_UDP_send_filter:
  "CHR 0x00 \<notin> set m \<Longrightarrow> fold (\<lambda>it. UDP_send (sa_ip it) p m) (filter Q xs) st =
     st\<lparr>outbox := outbox st @ map (\<lambda>a. (sa_ip a, p mod 65536, m)) (filter Q xs)\<rparr>"
  by (rule fold_UDP_send)

definition lw_update_msg :: "string \<Rightarrow> int \<Rightarrow> int \<Rightarrow> string \<Rightarrow> string" where
  "lw_update_msg pip k ID req =
     frame ''update'' pip PRIMARYPORT (field (to_string k) @ field (to_string ID) @ req)"

lemma lw_forward_update_eq:
  assumes "lw_requestQ s = []" "CHR 0x00 \<notin> set req" "CHR 0x00 \<notin> set (local_ip s)"
  shows "lw_forward_update req ID k s =
     s\<lparr>outbox := outbox s @ map (\<lambda>a. (sa_ip a, PRIMARYPORT, lw_update_msg (local_ip s) k ID req))
         (filter (\<lambda>a. sa_ip a \<noteq> local_ip s) (SIPs s))\<rparr>"
proof -
  have "CHR 0x00 \<notin> set (lw_update_msg (local_ip s) k ID req)"
    using assms by (simp add: lw_update_msg_def frame_def field_def)
  moreover have "''update;'' @ field (local_ip s) @ field (to_string PRIMARYPORT) @ field (to_string k)
      @ field (to_string ID) @ req = lw_update_msg (local_ip s) k ID req"
    by (simp add: lw_update_msg_def frame_def field_def)
  ultimately show ?thesis
    using assms by (simp add: lw_forward_update_def Let_def checkip_def fold_UDP_send)
qed

text \<open>The article a request [rep_ID;text] becomes under an ID.\<close>

definition lw_article :: "string \<Rightarrow> int \<Rightarrow> 32 word \<Rightarrow> Article" where
  "lw_article request ID h =
     \<lparr>art_ID = word_of_int ID, art_primaryIP = [], art_content = [skip_field request], art_hierachy = h\<rparr>"

lemma lw_update_local_eq:
  "lw_update_local request ID s =
     (case reply_hierachy (atoi (tok_at (tokens '';'' request) 0)) s of
        None \<Rightarrow> Inr (False, s)
      | Some h \<Rightarrow> Inr (True, s\<lparr>articles := articles s @ [lw_article request ID h]\<rparr>))"
  by (simp only: lw_update_local_def Split_tz bindE.simps GetNext_tz prod.case Let_def substr_skip_field
      lw_article_def)

lemma lw_update_backup_eq:
  assumes "is_int32 ID"
  shows "lw_update_backup (field (to_string k) @ field (to_string ID) @ request) s =
     (case reply_hierachy (atoi (tok_at (tokens '';'' request) 0)) s of
        None \<Rightarrow> Inr (False, s)
      | Some h \<Rightarrow> Inr (True, s\<lparr>articles := articles s @ [lw_article request ID h]\<rparr>))"
proof -
  let ?m = "field (to_string k) @ field (to_string ID) @ request"
  have t: "tokens '';'' ?m = to_string k # to_string ID # tokens '';'' request"
    by (simp add: field_def tokens_field)
  have f: "skip_field ?m = field (to_string ID) @ request"
    "first_field (field (to_string ID) @ request) = to_string ID"
    "skip_field (field (to_string ID) @ request) = request"
    by (simp_all add: field_def skip_field_app first_field_app)
  show ?thesis
    using assms
    by (simp only: lw_update_backup_def Split_tz bindE.simps GetNext_tz prod.case Let_def substr_skip_field
        substr_first_field t f tok_at_simps lw_article_def atoi_to_string)
qed

definition lw_ack_msg :: "string \<Rightarrow> int \<Rightarrow> bool \<Rightarrow> string" where
  "lw_ack_msg ip k success =
     frame ''ACK_up'' ip PRIMARYPORT (field (to_string k) @ (if success then ''1'' else ''0''))"

lemma lw_update_step_eq:
  assumes "is_int32 ID" "CHR 0x00 \<notin> set (local_ip s)"
  shows "lw_update_step pip (field (to_string k) @ field (to_string ID) @ request) s =
     Inr (case reply_hierachy (atoi (tok_at (tokens '';'' request) 0)) s of
        None \<Rightarrow> s\<lparr>outbox := outbox s @ [(pip, PRIMARYPORT, lw_ack_msg (local_ip s) k False)]\<rparr>
      | Some h \<Rightarrow> s\<lparr>articles := articles s @ [lw_article request ID h],
                    outbox := outbox s @ [(pip, PRIMARYPORT, lw_ack_msg (local_ip s) k True)]\<rparr>)"
proof -
  have f: "first_field (field (to_string k) @ field (to_string ID) @ request) = to_string k"
    by (simp add: field_def first_field_app)
  have m: "''ACK_up;'' @ field (local_ip s) @ field (to_string PRIMARYPORT) @ field (to_string k)
      @ (if b then ''1'' else ''0'') = lw_ack_msg (local_ip s) k b" for b
    by (simp add: lw_ack_msg_def frame_def field_def)
  have "CHR 0x00 \<notin> set (lw_ack_msg (local_ip s) k b)" for b
    using assms(2) by (simp add: lw_ack_msg_def frame_def field_def)
  then show ?thesis
    by (simp only: lw_update_step_def lw_update_backup_eq [OF assms(1)] f m Let_def checkip_def split: option.split)
      (simp add: UDP_send_def)
qed

text \<open>
  The primary handles a forwarded request in the local-write order: it stores the
  article under the next ID (or refuses it), acknowledges the client, and only then sends
  the update, once, to every other server; nothing else of its state changes but the slot.
\<close>

theorem lw_forward:
  assumes "IsCoordinator s" "lw_requestQ s = []" "CHR 0x00 \<notin> set (local_ip s)"
    and "frame_ok ''forward_req'' cip cp req" "length (frame ''forward_req'' cip cp req) \<le> BB_BUFLEN"
  shows "lw_listen_step (frame ''forward_req'' cip cp req) s =
     (let ID = int (length (articles s)) + 1; (k, v) = free_slot (lw_ack_num s);
          stored = reply_hierachy (atoi (tok_at (tokens '';'' req) 0)) s
      in Inr (s\<lparr>lw_ack_num := v,
                articles := articles s @ (case stored of None \<Rightarrow> [] | Some h \<Rightarrow> [lw_article req ID h]),
                outbox := outbox s
                  @ [(cip, cp, ''ACK_comp;'' @ (if stored = None then ''0'' else ''1''))]
                  @ map (\<lambda>a. (sa_ip a, PRIMARYPORT, lw_update_msg (local_ip s) (int k) ID req))
                      (filter (\<lambda>a. sa_ip a \<noteq> local_ip s) (SIPs s))\<rparr>))"
proof -
  obtain k v where kv: "free_slot (lw_ack_num s) = (k, v)" by fastforce
  have p: "cp mod 65536 = cp" "CHR 0x00 \<notin> set req"
    using assms(4) by (auto simp: frame_ok_def isValidPort_bounds)
  have r: "reply_hierachy i (s\<lparr>lw_ack_num := v\<rparr>) = reply_hierachy i s" for i
    by (rule reply_hierachy_cong) simp
  show ?thesis
    using assms(1-3) p
    by (cases "reply_hierachy (atoi (tok_at (tokens '';'' req) 0)) s")
      (simp_all add: lw.step_frame [OF assms(4,5)] lw_handle_def lw_forward_step_def kv Let_def lw_update_local_eq r
        lw_forward_update_eq UDP_send_def)
qed

definition lw_sample :: "string \<Rightarrow> bool \<Rightarrow> lw_server" where
  "lw_sample ip prim = \<lparr>local_ip = ip, inbox = (\<lambda>_. []), outbox = [], coordinatorIP = ''10.0.0.1'',
     IsCoordinator = prim, SIPs = [\<lparr>sa_ip = ''10.0.0.1'', sa_port = 5105\<rparr>, \<lparr>sa_ip = ''10.0.0.2'', sa_port = 5105\<rparr>],
     CIPs = [], articles = [], lw_requestQ = [], lw_ack_num = [0, 0]\<rparr>"

lemma lw_sample_simps [simp]:
  "local_ip (lw_sample ip prim) = ip" "IsCoordinator (lw_sample ip prim) = prim" "articles (lw_sample ip prim) = []"
  "outbox (lw_sample ip prim) = []" "lw_requestQ (lw_sample ip prim) = []" "lw_ack_num (lw_sample ip prim) = [0, 0]"
  "SIPs (lw_sample ip prim) = [\<lparr>sa_ip = ''10.0.0.1'', sa_port = 5105\<rparr>, \<lparr>sa_ip = ''10.0.0.2'', sa_port = 5105\<rparr>]"
  "inbox (lw_sample ip prim) = (\<lambda>_. [])" "coordinatorIP (lw_sample ip prim) = ''10.0.0.1''"
  by (simp_all add: lw_sample_def)

lemma lw_forward_witness:
  "lw_listen_step (frame ''forward_req'' ''10.0.0.9'' 5106 ''-1;hello'') (lw_sample ''10.0.0.1'' True) =
     Inr ((lw_sample ''10.0.0.1'' True)\<lparr>articles := [lw_article ''-1;hello'' 1 0],
       outbox := [(''10.0.0.9'', 5106, ''ACK_comp;1''), (''10.0.0.2'', 5100, lw_update_msg ''10.0.0.1'' 0 1 ''-1;hello'')]\<rparr>)"
proof -
  have f: "frame_ok ''forward_req'' ''10.0.0.9'' 5106 ''-1;hello''"
    "length (frame ''forward_req'' ''10.0.0.9'' 5106 ''-1;hello'') \<le> BB_BUFLEN"
    "tok_at (tokens '';'' ''-1;hello'') 0 = ''-1''"
    by code_simp+
  show ?thesis
    using lw_forward [of "lw_sample ''10.0.0.1'' True", OF _ _ _ f(1,2)] f(3)
    by (simp add: free_slot_def lw_sample_def)
qed

text \<open>
  C18: a backup that holds the same articles as the primary did before a forwarded request
  holds the same articles as the primary after it once it has handled the update the
  primary sent it, and answers with exactly one ACK_up; a refused reply is refused by both.
\<close>

theorem lw_backup_sync:
  assumes "IsCoordinator p" "lw_requestQ p = []" "isValidIP (local_ip p)" "CHR 0x00 \<notin> set (local_ip p)"
    and "frame_ok ''forward_req'' cip cp req" "length (frame ''forward_req'' cip cp req) \<le> BB_BUFLEN"
    and "lw_listen_step (frame ''forward_req'' cip cp req) p = Inr p'"
    and "a \<in> set (drop (Suc (length (outbox p))) (outbox p'))" "length (snd (snd a)) \<le> BB_BUFLEN"
    and "articles b = articles p" "length (articles p) < 2 ^ 31 - 1" "CHR 0x00 \<notin> set (local_ip b)"
  shows "\<exists>b' m. lw_listen_step (snd (snd a)) b = Inr b' \<and> articles b' = articles p'
           \<and> outbox b' = outbox b @ [(local_ip p, PRIMARYPORT, m)]"
proof -
  obtain k v where kv: "free_slot (lw_ack_num p) = (k, v)" by fastforce
  let ?ID = "int (length (articles p)) + 1"
  let ?h = "reply_hierachy (atoi (tok_at (tokens '';'' req) 0)) p"
  have p': "articles p' = articles p @ (case ?h of None \<Rightarrow> [] | Some h \<Rightarrow> [lw_article req ?ID h])"
    and o': "outbox p' = (outbox p @ [(cip, cp, ''ACK_comp;'' @ (if ?h = None then ''0'' else ''1''))])
                  @ map (\<lambda>a. (sa_ip a, PRIMARYPORT, lw_update_msg (local_ip p) (int k) ?ID req))
                      (filter (\<lambda>a. sa_ip a \<noteq> local_ip p) (SIPs p))"
    using lw.step_frame [OF assms(5,6)] assms(1,2,4,5,7)
    by (auto simp: lw_handle_def lw_forward_step_def kv Let_def lw_update_local_eq lw_forward_update_eq
        frame_ok_def isValidPort_bounds UDP_send_def reply_hierachy_def findArticlebyID_def split: option.splits if_splits)
  have a: "snd (snd a) = lw_update_msg (local_ip p) (int k) ?ID req"
    using assms(8) by (auto simp: o')
  let ?q = "field (to_string (int k)) @ field (to_string ?ID) @ req"
  have f: "frame_ok ''update'' (local_ip p) PRIMARYPORT ?q"
    using assms(3,4,5) by (simp add: frame_ok_def isValidPort_def field_def)
  have i: "is_int32 ?ID" using assms(11) by (simp add: is_int32_def)
  have r: "reply_hierachy n b = reply_hierachy n p" for n
    using assms(10) by (rule reply_hierachy_cong)
  have "lw_listen_step (snd (snd a)) b = lw_update_step (local_ip p) ?q b"
    using lw.step_frame [OF f] assms(9) a by (simp add: lw_update_msg_def lw_handle_def)
  then show ?thesis
    using lw_update_step_eq [OF i assms(12)] assms(10) by (auto simp: r p' split: option.splits)
qed


lemma lw_backup_sync_witness:
  "\<exists>b' m. lw_listen_step (lw_update_msg ''10.0.0.1'' 0 1 ''-1;hello'') (lw_sample ''10.0.0.2'' False) = Inr b'
     \<and> articles b' = [lw_article ''-1;hello'' 1 0] \<and> outbox b' = [(''10.0.0.1'', 5100, m)]"
proof -
  have f: "frame_ok ''forward_req'' ''10.0.0.9'' 5106 ''-1;hello''"
    "length (frame ''forward_req'' ''10.0.0.9'' 5106 ''-1;hello'') \<le> BB_BUFLEN"
    "tok_at (tokens '';'' ''-1;hello'') 0 = ''-1''" "isValidIP ''10.0.0.1''"
    "length (lw_update_msg ''10.0.0.1'' 0 1 ''-1;hello'') \<le> BB_BUFLEN"
    by code_simp+
  define p' where "p' = (lw_sample ''10.0.0.1'' True)\<lparr>articles := [lw_article ''-1;hello'' 1 0],
       outbox := [(''10.0.0.9'', 5106, ''ACK_comp;1''), (''10.0.0.2'', 5100, lw_update_msg ''10.0.0.1'' 0 1 ''-1;hello'')]\<rparr>"
  have s: "lw_listen_step (frame ''forward_req'' ''10.0.0.9'' 5106 ''-1;hello'') (lw_sample ''10.0.0.1'' True) = Inr p'"
    unfolding p'_def using lw.step_frame [OF f(1,2)] f(3)
    by (simp add: lw_handle_def lw_forward_step_def lw_update_local_eq free_slot_def lw_forward_update_eq
        UDP_send_def lw_sample_def)
  show ?thesis
    using lw_backup_sync [OF _ _ _ _ f(1,2) s, of "(''10.0.0.2'', 5100, lw_update_msg ''10.0.0.1'' 0 1 ''-1;hello'')"
        "lw_sample ''10.0.0.2'' False"] f(4,5)
    by (simp add: p'_def)
qed

section \<open>Moving the articles\<close>

lemma lw_load_eq:
  "map art_ID (lw_load ts n) = map (\<lambda>i. word_of_int (n + int i)) [0..<length ts]"
  "map art_content (lw_load ts n) = map (\<lambda>t. [drop_last_field t]) ts"
  "map art_hierachy (lw_load ts n) = map (\<lambda>t. word_of_int (atoi (last_field t))) ts"
  by (induction ts arbitrary: n) (simp_all add: upt_conv_Cons map_Suc_upt [symmetric] add.assoc del: upt_Suc)

text \<open>
  C21: moving the primary loses no article: when the list the old primary sends fits a
  datagram and no text holds a dollar sign, the new primary ends with the same texts and
  levels in ID order, numbered 1, 2, 3 and so on, is the coordinator, and has announced
  itself to every other server it knows.
\<close>

theorem lw_move_roundtrip:
  assumes "list_all article_clean (articles p)" "articles p \<noteq> []"
    and "sendArticle (local_ip s) BACKUPPORT p = Inr p'" "last (outbox p') = (local_ip s, BACKUPPORT, m)"
    and "length m < BB_BUFLEN" "\<not> IsCoordinator s" "inbox s BACKUPPORT = [m]" "CHR 0x00 \<notin> set (local_ip s)"
  shows "\<exists>s'. lw_MoveItemX (local_ip s) s = Inr s' \<and> IsCoordinator s' \<and> coordinatorIP s' = local_ip s
     \<and> map art_content (articles s') = map art_content (articles p')
     \<and> map art_hierachy (articles s') = map art_hierachy (articles p')
     \<and> map art_ID (articles s') = map (\<lambda>i. word_of_int (1 + int i)) [0..<length (articles p)]
     \<and> (\<forall>a\<in>set (SIPs s). sa_ip a \<noteq> local_ip s \<longrightarrow>
           (sa_ip a, PRIMARYPORT, ''broadcastIP;'' @ field (local_ip s) @ field (to_string BACKUPPORT)) \<in> set (outbox s'))"
proof -
  let ?as = "sort_key art_ID (articles p)"
  let ?c = "''broadcastIP;'' @ field (local_ip s) @ field (to_string BACKUPPORT)"
  have c: "list_all article_clean ?as" using assms(1) by (simp add: list_all_iff)
  have p': "articles p' = ?as" and m: "m = article_message ?as"
    using assms(3,4) sendArticle_eq [OF assms(1), of "local_ip s" BACKUPPORT] by auto
  have t: "tokens ''$'' m = map article_text ?as" using tokens_article_message [OF c] m by simp
  have "?as \<noteq> []" using assms(2) by (metis length_0_conv length_sort)
  then have n: "CHR 0x00 \<notin> set m" "m \<noteq> []"
    using article_message_no_nul [OF c] article_message_empty_iff [OF c] m by auto
  have nul: "CHR 0x00 \<notin> set ?c" using assms(8) by (simp add: field_def)
  define s1 where "s1 = UDP_send (coordinatorIP s) PRIMARYPORT (''moveX;'' @ field (local_ip s) @ field (to_string BACKUPPORT)) s"
  have r: "UDP_receive BACKUPPORT s1 = Inr (m, s1\<lparr>inbox := (inbox s1)(BACKUPPORT := [])\<rparr>)"
    using assms(5,7) n by (simp add: s1_def UDP_receive_def UDP_send_def)
  let ?s = "s1\<lparr>inbox := (inbox s1)(BACKUPPORT := []), articles := lw_load (map article_text ?as) 1,
     IsCoordinator := True, coordinatorIP := local_ip s\<rparr>"
  have "lw_MoveItemX (local_ip s) s = Inr (?s\<lparr>outbox := outbox s1 @ map (\<lambda>a. (sa_ip a, PRIMARYPORT, ?c))
      (filter (\<lambda>a. sa_ip a \<noteq> local_ip s) (SIPs s))\<rparr>)"
    using assms(6) n nul
    by (simp add: lw_MoveItemX_def Let_def s1_def [symmetric] r t fold_UDP_send del: append_Cons)
      (simp add: s1_def UDP_send_def)
  moreover have "map (\<lambda>a. [drop_last_field (article_text a)]) ?as = map art_content ?as"
    "map (\<lambda>a. word_of_int (atoi (last_field (article_text a)))) ?as = map art_hierachy ?as"
    using c article_text_clean(4,5) by (auto simp: list_all_iff)
  ultimately show ?thesis
    by (auto simp: lw_load_eq p' o_def)
qed

lemma lw_move_roundtrip_witness:
  "\<exists>s'. lw_MoveItemX ''10.0.0.2'' ((lw_sample ''10.0.0.2'' False)\<lparr>inbox := (\<lambda>_. [])(5101 := [''a;0$b;c;1''])\<rparr>) = Inr s'
     \<and> map art_content (articles s') = [[''a''], [''b;c'']]"
proof -
  let ?p = "(lw_sample ''10.0.0.1'' True)\<lparr>articles :=
    [\<lparr>art_ID = 2, art_primaryIP = [], art_content = [''b;c''], art_hierachy = 1\<rparr>,
     \<lparr>art_ID = 1, art_primaryIP = [], art_content = [''a''], art_hierachy = 0\<rparr>]\<rparr>"
  let ?s = "(lw_sample ''10.0.0.2'' False)\<lparr>inbox := (\<lambda>_. [])(5101 := [''a;0$b;c;1''])\<rparr>"
  have c: "list_all article_clean (articles ?p)" by (simp add: article_clean_def)
  have m: "article_message (sort_key art_ID (articles ?p)) = ''a;0$b;c;1''"
    unfolding lw_sample_def by code_simp
  have l: "\<not> (2 :: 32 word) \<le> 1" by (simp add: word_le_nat_alt)
  show ?thesis
    using lw_move_roundtrip [OF c _ _ _ , of ?s _ "''a;0$b;c;1''"] sendArticle_eq [OF c, of "''10.0.0.2''" BACKUPPORT] m l
    by auto
qed

text \<open>
  The old primary steps down: after a server has moved the item to itself, the old
  primary that handles the announcement is no coordinator any more and forwards to the
  new one.
\<close>

theorem lw_handover:
  assumes "\<not> IsCoordinator s" "isValidIP (local_ip s)" "CHR 0x00 \<notin> set (local_ip s)"
    and "lw_MoveItemX (local_ip s) s = Inr s'" "a \<in> set (SIPs s)" "sa_ip a \<noteq> local_ip s"
  shows "\<exists>m. (sa_ip a, PRIMARYPORT, m) \<in> set (outbox s')
     \<and> lw_listen_step m p = Inr (p\<lparr>coordinatorIP := local_ip s, IsCoordinator := False\<rparr>)"
proof -
  let ?c = "''broadcastIP;'' @ field (local_ip s) @ field (to_string BACKUPPORT)"
  have nul: "CHR 0x00 \<notin> set ?c" using assms(3) by (simp add: field_def)
  have fr: "?c = frame ''broadcastIP'' (local_ip s) BACKUPPORT []" by (simp add: frame_def field_def)
  have f: "frame_ok ''broadcastIP'' (local_ip s) BACKUPPORT []"
    using assms by (simp add: frame_ok_def isValidPort_def)
  have "length (local_ip s) \<le> 15" using assms(2,3) isValidIP_length [of "local_ip s"] by simp
  then have l: "length (frame ''broadcastIP'' (local_ip s) BACKUPPORT []) \<le> BB_BUFLEN"
    by (simp add: frame_def to_string_ports)
  have "lw_listen_step ?c p = Inr (p\<lparr>coordinatorIP := local_ip s, IsCoordinator := False\<rparr>)"
    using lw.step_frame [OF f l] fr by (simp add: lw_handle_def)
  moreover have "(sa_ip a, PRIMARYPORT, ?c) \<in> set (outbox s')"
    using assms(1,4-6) nul
    by (auto simp: lw_MoveItemX_def Let_def bindE_Inr_iff fold_UDP_send UDP_receive_def UDP_send_def
        simp del: append_Cons split: list.splits if_splits)
  ultimately show ?thesis by blast
qed

lemma lw_handover_witness:
  "\<exists>s' m p'. lw_MoveItemX ''10.0.0.2'' ((lw_sample ''10.0.0.2'' False)\<lparr>inbox := (\<lambda>_. [''''])\<rparr>) = Inr s'
     \<and> (''10.0.0.1'', 5100, m) \<in> set (outbox s') \<and> lw_listen_step m (lw_sample ''10.0.0.1'' True) = Inr p'
     \<and> \<not> IsCoordinator p'"
proof -
  let ?s = "(lw_sample ''10.0.0.2'' False)\<lparr>inbox := (\<lambda>_. [''''])\<rparr>"
  have v: "isValidIP ''10.0.0.2''" by code_simp
  have "lw_MoveItemX ''10.0.0.2'' ?s = Inr (case lw_MoveItemX ''10.0.0.2'' ?s of Inr x \<Rightarrow> x | Inl _ \<Rightarrow> ?s)"
    by (simp add: lw_MoveItemX_def UDP_receive_def UDP_send_def Let_def cstr_def)
  then show ?thesis
    using lw_handover [of ?s _ "\<lparr>sa_ip = ''10.0.0.1'', sa_port = 5105\<rparr>" "lw_sample ''10.0.0.1'' True"] v
    by fastforce
qed

lemma lw_ack_UDP_send [simp]: "lw_ack_num (UDP_send ip p m t) = lw_ack_num t"
  by (simp add: UDP_send_def)

lemma lw_ack_fold [simp]: "lw_ack_num (fold (\<lambda>it. UDP_send (f it) p m) xs t) = lw_ack_num t"
  by (induction xs arbitrary: t) simp_all

lemma lw_ack_forward [simp]: "lw_ack_num (lw_forward_update r i k t) = lw_ack_num t"
  by (simp add: lw_forward_update_def Let_def)

lemma lw_ack_update_backup: "lw_update_backup r t = Inr (b, t') \<Longrightarrow> lw_ack_num t' = lw_ack_num t"
  unfolding lw_update_backup_def Split_tz bindE.simps GetNext_tz prod.case Let_def substr_skip_field substr_first_field
  by (auto split: option.splits)

lemma lw_ack_sendArticle: "sendArticle ip p t = Inr t' \<Longrightarrow> lw_ack_num t' = lw_ack_num t"
  by (auto simp: sendArticle_def Let_def bindE_Inr_iff)

lemma lw_ack_step_mono:
  "lw_ack_step r t = Inr t' \<Longrightarrow> length (lw_ack_num t') = length (lw_ack_num t)
     \<and> (\<forall>i<length (lw_ack_num t). lw_ack_num t ! i \<le> lw_ack_num t' ! i)"
  by (auto simp: lw_ack_step_def Let_def nth_list_update split: if_splits)

text \<open>
  A slot of the acknowledgement vector is never given back: no step of the loop makes
  a counter smaller or the vector shorter, so every request that got an answer keeps its
  slot for the life of the server.
\<close>

theorem lw_ack_monotone:
  assumes "lw_listen_step d s = Inr s'"
  shows "length (lw_ack_num s) \<le> length (lw_ack_num s')
     \<and> (\<forall>i\<in>{0..<length (lw_ack_num s)}. lw_ack_num s ! i \<le> lw_ack_num s' ! i)"
proof -
  let ?P = "\<lambda>s'. length (lw_ack_num s) \<le> length (lw_ack_num s')
     \<and> (\<forall>i\<in>{0..<length (lw_ack_num s)}. lw_ack_num s ! i \<le> lw_ack_num s' ! i)"
  have h: "?P s'" if "lw_handle cmd ip p r s = Inr s'" for cmd ip p r
  proof (cases "lw_command_of (IsCoordinator s) cmd")
    case FORWARD_L
    obtain k v where kv: "free_slot (lw_ack_num s) = (k, v)" by fastforce
    then have "v = lw_ack_num s \<or> v = lw_ack_num s @ [0]" by (auto simp: free_slot_def split: option.splits)
    moreover have "lw_ack_num s' = v"
      using that FORWARD_L
      by (auto simp: lw_handle_def lw_forward_step_def kv Let_def lw_update_local_eq split: option.splits)
    ultimately show ?thesis by (auto simp: nth_append)
  next
    case MOVEX
    with that show ?thesis by (auto simp: lw_handle_def dest: lw_ack_sendArticle)
  next
    case ACKUP_L
    with that lw_ack_step_mono [of r s s'] show ?thesis by (simp add: lw_handle_def)
  next
    case UPDATE_L
    with that show ?thesis
      by (auto simp: lw_handle_def lw_update_step_def bindE_Inr_iff Let_def dest: lw_ack_update_backup)
  qed (use that in \<open>auto simp: lw_handle_def\<close>)
  show ?thesis
    using lw.step_keeps [of ?P s s' d] h assms by simp
qed

lemma lw_ack_monotone_witness:
  "\<exists>s'. lw_listen_step ''ACK_up;10.0.0.2;5100;0;1'' (lw_sample ''10.0.0.1'' True) = Inr s'
     \<and> lw_ack_num s' = [1, 0] \<and> length (lw_ack_num (lw_sample ''10.0.0.1'' True)) \<le> length (lw_ack_num s')"
proof -
  let ?r = "lw_listen_step ''ACK_up;10.0.0.2;5100;0;1'' (lw_sample ''10.0.0.1'' True)"
  have 1: "map_sum id lw_ack_num ?r = Inr [1, 0]" by code_simp
  then obtain s' where s': "?r = Inr s'" by (cases ?r) simp_all
  with 1 lw_ack_monotone [OF s'] show ?thesis by (intro exI [of _ s']) simp
qed


end
