(* ===== verification/QuorumServer.thy ===== *)
theory QuorumServer
  imports Messages
begin

text \<open>
  The bulletin board with quorum consistency (\<open>qum_server\<close> in
  Project2/Server/Server.cpp). The coordinator picks a random quorum for every read and
  write, asks its members for their version, and after a write copies the newest list to
  all servers; \<open>heartBeatImpl\<close> does the same every few seconds.

  What \<open>rand()\<close> returns is a parameter \<open>rnd\<close> (one value per call of the shuffle).
  \<open>findServerByIndex\<close> takes its vector by value and returns an iterator into that copy,
  which is gone when the caller reads it: what the freed copy of \<open>IPs\<close> holds at an index
  is the parameter \<open>freed\<close>. The call sites overwrite the result for index 0. The missing
  return value of \<open>loadArticle\<close> is not looked at by its callers and not modelled.
\<close>

abbreviation REQUESTPORT :: int where "REQUESTPORT \<equiv> 6102"
abbreviation GETNEWVER_PORT :: int where "GETNEWVER_PORT \<equiv> 7001"
abbreviation WRITESELECT_PORT :: int where "WRITESELECT_PORT \<equiv> 7002"
abbreviation SYNCH_PORT :: int where "SYNCH_PORT \<equiv> 7003"
abbreviation REPLY_PORT :: int where "REPLY_PORT \<equiv> 7004"
abbreviation HEARTBEAT_PORT :: int where "HEARTBEAT_PORT \<equiv> 7005"

section \<open>State and configuration\<close>

record qum_server = bb_server +
  qum_ID :: int
  VER :: int
  qum_N :: int
  Nr :: int
  Nw :: int

text \<open>The sum wraps at 32 bits; the division truncates.\<close>

definition isValidQR :: "int \<Rightarrow> int \<Rightarrow> int \<Rightarrow> bool" where
  "isValidQR N nr nw = (if signed_take_bit 31 (nr + nw) > N then True else False)"

definition isValidQW :: "int \<Rightarrow> int \<Rightarrow> int \<Rightarrow> bool" where
  "isValidQW N nr nw = (if nw > (if N < 0 then - ((- N) div 2) else N div 2) then True else False)"

definition isValidQ :: "int \<Rightarrow> int \<Rightarrow> int \<Rightarrow> bool" where
  "isValidQ N nr nw = (if isValidQR N nr nw \<and> isValidQW N nr nw then True else False)"

text \<open>The constructor reads lines of the console until one holds a valid triple.\<close>

fun qum_config :: "string list \<Rightarrow> (int \<times> int \<times> int) result" where
  "qum_config [] = Inl Blocked"
| "qum_config (buffer # ls) =
     bindE (Split buffer '';'') (\<lambda>t0.
       let (a, t1) = GetNext t0; (b, t2) = GetNext t1; (c, t3) = GetNext t2 in
       bindE (stoi a) (\<lambda>N. bindE (stoi b) (\<lambda>nr. bindE (stoi c) (\<lambda>nw.
         if isValidQ N nr nw then Inr (N, nr, nw) else qum_config ls))))"

definition qum_init :: "string \<Rightarrow> (int \<Rightarrow> string list) \<Rightarrow> bool \<Rightarrow> string list \<Rightarrow> qum_server result" where
  "qum_init ip inb Coord console =
     bindE (Server_init ip inb Coord) (\<lambda>b. bindE (qum_config console) (\<lambda>(N, nr, nw).
       Inr (bb_server.extend b \<lparr>qum_ID = 0, VER = 0, qum_N = N, Nr = nr, Nw = nw\<rparr>)))"

section \<open>Picking a quorum\<close>

definition swap_at :: "nat \<Rightarrow> nat \<Rightarrow> 'a list \<Rightarrow> 'a list" where
  "swap_at i j xs = xs[i := xs ! j, j := xs ! i]"

text \<open>\<open>for(i = size-1; i > 0; --i) swap(quorum[i], quorum[rand()%i])\<close>\<close>

fun qum_shuffle :: "(nat \<Rightarrow> nat) \<Rightarrow> nat \<Rightarrow> nat list \<Rightarrow> nat list" where
  "qum_shuffle rnd 0 quorum = quorum"
| "qum_shuffle rnd (Suc i) quorum = qum_shuffle rnd i (swap_at (Suc i) (rnd (Suc i) mod Suc i) quorum)"

definition findServerByIndex :: "(SAddr list \<Rightarrow> nat \<Rightarrow> SAddr) \<Rightarrow> nat \<Rightarrow> SAddr list \<Rightarrow> SAddr result" where
  "findServerByIndex freed index IPs =
     (if index < length IPs then Inr (freed IPs index) else Inl OutOfBounds)"

fun select_loop ::
  "(SAddr list \<Rightarrow> nat \<Rightarrow> SAddr) \<Rightarrow> SAddr list \<Rightarrow> SAddr list \<Rightarrow> nat list \<Rightarrow> nat \<Rightarrow> SAddr list result" where
  "select_loop freed IPs sips [] n = (if n = 0 then Inr [] else Inl OutOfBounds)"
| "select_loop freed IPs sips (q # quorum) n =
     (if n = 0 then Inr []
      else bindE (if q = 0 then (case sips of [] \<Rightarrow> Inl OutOfBounds | first # _ \<Rightarrow> Inr first)
                  else findServerByIndex freed q IPs)
             (\<lambda>current. bindE (select_loop freed IPs sips quorum (n - 1)) (\<lambda>r. Inr (current # r))))"

text \<open>An array of \<open>size\<close> ints needs a positive \<open>size\<close>, here \<open>n\<close>.\<close>

definition selectRandomServer ::
  "(SAddr list \<Rightarrow> nat \<Rightarrow> SAddr) \<Rightarrow> (nat \<Rightarrow> nat) \<Rightarrow> int \<Rightarrow> int \<Rightarrow> SAddr list \<Rightarrow> qum_server \<Rightarrow> SAddr list result"
where
  "selectRandomServer freed rnd n select IPs s =
     (if n \<le> 0 then Inl OutOfBounds
      else let quorum = qum_shuffle rnd (nat (n - 1)) [0..<nat n]
           in select_loop freed IPs (SIPs s) quorum (nat select))"

section \<open>Asking and writing\<close>

text \<open>Send a request to a server and wait for the answer at a local port.\<close>

definition ask :: "string \<Rightarrow> int \<Rightarrow> string \<Rightarrow> qum_server \<Rightarrow> (string \<times> qum_server) result" where
  "ask target port command s = UDP_receive port (UDP_send target PRIMARYPORT command s)"

fun newest_loop :: "string \<Rightarrow> SAddr list \<Rightarrow> int \<Rightarrow> SAddr option \<Rightarrow> qum_server \<Rightarrow>
    (SAddr option \<times> qum_server) result" where
  "newest_loop command [] maxVer newest s = Inr (newest, s)"
| "newest_loop command (it # its) maxVer newest s =
     bindE (if sa_ip it = checkip s then Inr (VER s, s)
            else bindE (ask (sa_ip it) GETNEWVER_PORT command s) (\<lambda>(r, s'). Inr (atoi r, s')))
       (\<lambda>(currentVer, s').
          if currentVer \<ge> maxVer then newest_loop command its currentVer (Some it) s'
          else newest_loop command its maxVer newest s')"

definition getNewestServer :: "SAddr list \<Rightarrow> qum_server \<Rightarrow> (string \<times> qum_server) result" where
  "getNewestServer serverSelected s =
     (let command = ''REQUESTVER;READ;'' @ field (checkip s) @ to_string GETNEWVER_PORT
      in bindE (newest_loop command serverSelected 0 None s)
           (\<lambda>(newest, s'). case newest of None \<Rightarrow> Inl OutOfBounds | Some it \<Rightarrow> Inr (sa_ip it, s')))"

definition writeArticle0 :: "string \<Rightarrow> qum_server \<Rightarrow> qum_server" where
  "writeArticle0 content s =
     s\<lparr>qum_ID := qum_ID s + 1,
       articles := articles s @ [\<lparr>art_ID = word_of_int (qum_ID s + 1), art_primaryIP = checkip s,
          art_content = [content], art_hierachy = 0\<rparr>],
       VER := VER s + 1\<rparr>"

definition writeArticle :: "string \<Rightarrow> int \<Rightarrow> qum_server \<Rightarrow> qum_server" where
  "writeArticle content preHierarchy s =
     s\<lparr>qum_ID := qum_ID s + 1,
       articles := articles s @ [\<lparr>art_ID = word_of_int (qum_ID s + 1), art_primaryIP = checkip s,
          art_content = [content], art_hierachy = word_of_int (preHierarchy + 1)\<rparr>],
       VER := VER s + 1\<rparr>"

fun write_loop :: "string \<Rightarrow> string \<Rightarrow> int \<Rightarrow> SAddr list \<Rightarrow> qum_server \<Rightarrow> qum_server result" where
  "write_loop command content preHie [] s = Inr s"
| "write_loop command content preHie (it # its) s =
     (if sa_ip it = checkip s then write_loop command content preHie its (writeArticle content preHie s)
      else bindE (ask (sa_ip it) WRITESELECT_PORT command s)
             (\<lambda>(r, s'). write_loop command content preHie its s'))"

definition writeSelectedServer :: "SAddr list \<Rightarrow> string \<Rightarrow> int \<Rightarrow> qum_server \<Rightarrow> (bool \<times> qum_server) result" where
  "writeSelectedServer serverSelected content preHie s =
     (let command = ''OPERATION_WRITE;WRITE;'' @ field (checkip s) @ field (to_string WRITESELECT_PORT)
                    @ field (to_string preHie) @ content
      in bindE (write_loop command content preHie serverSelected s) (\<lambda>s'. Inr (True, s')))"

text \<open>Loading a list: five fields of text, then the level; the IDs are 1, 2, 3 and so on.\<close>

fun load_loop :: "string list \<Rightarrow> int \<Rightarrow> Article list result" where
  "load_loop [] i = Inr []"
| "load_loop (article # ts) i =
     bindE (Split article '';'') (\<lambda>t0.
       let (f0, t1) = GetNext t0; (f1, t2) = GetNext t1; (f2, t3) = GetNext t2; (f3, t4) = GetNext t3;
           (f4, t5) = GetNext t4; (hierachy, t6) = GetNext t5;
           contentBuf = field f0 @ field f1 @ field f2 @ field f3 @ f4
       in bindE (stoi hierachy) (\<lambda>h.
            bindE (load_loop ts (i + 1)) (\<lambda>as.
              Inr (\<lparr>art_ID = word_of_int (i + 1), art_primaryIP = [], art_content = [contentBuf],
                    art_hierachy = word_of_int h\<rparr> # as))))"

definition loadArticle :: "string \<Rightarrow> qum_server \<Rightarrow> qum_server result" where
  "loadArticle content s =
     bindE (Split content ''$'') (\<lambda>t.
       bindE (load_loop (rest_tokens t) 0) (\<lambda>as. Inr (s\<lparr>articles := as\<rparr>)))"

fun synch_loop :: "string \<Rightarrow> string \<Rightarrow> SAddr list \<Rightarrow> qum_server \<Rightarrow> qum_server result" where
  "synch_loop command content [] s = Inr s"
| "synch_loop command content (it # its) s =
     (if sa_ip it = checkip s then bindE (loadArticle content s) (synch_loop command content its)
      else bindE (ask (sa_ip it) SYNCH_PORT command s) (\<lambda>(r, s'). synch_loop command content its s'))"

definition synchSelectedServer :: "SAddr list \<Rightarrow> string \<Rightarrow> qum_server \<Rightarrow> qum_server result" where
  "synchSelectedServer serverSelected content s =
     (let command = ''OPERATION_SYNCH;SYNCH;'' @ field (checkip s) @ field (to_string SYNCH_PORT) @ content
      in synch_loop command content serverSelected s)"

section \<open>The handlers\<close>

definition generatePrefix :: "SAddr \<Rightarrow> string \<Rightarrow> string \<Rightarrow> int \<Rightarrow> string" where
  "generatePrefix client_addr request TYP preHie =
     field TYP @ field (sa_ip client_addr) @ field (to_string (sa_port client_addr))
     @ (if preHie \<noteq> - 2 then field (to_string preHie) else []) @ request"

definition qum_forward :: "string \<Rightarrow> qum_server \<Rightarrow> qum_server" where
  "qum_forward requestLast s = UDP_send (coordinatorIP s) PRIMARYPORT (''FORWARD_QUM;'' @ requestLast) s"

definition qum_Post_handler :: "SAddr \<Rightarrow> string \<Rightarrow> qum_server \<Rightarrow> qum_server result" where
  "qum_Post_handler client_addr request s = Inr (qum_forward (generatePrefix client_addr request ''POST'' (- 1)) s)"

text \<open>\<open>Read_handler\<close> prints \<open>SIPs.begin()\<close>.\<close>

definition qum_Read_handler :: "SAddr \<Rightarrow> qum_server \<Rightarrow> qum_server result" where
  "qum_Read_handler client_addr s =
     (if SIPs s = [] then Inl OutOfBounds
      else Inr (qum_forward (generatePrefix client_addr [] ''READ'' (- 2)) s))"

definition qum_Choose_handler :: "SAddr \<Rightarrow> string \<Rightarrow> qum_server \<Rightarrow> qum_server result" where
  "qum_Choose_handler client_addr request s = Inr (qum_forward (generatePrefix client_addr [] ''SYNCH'' (- 2)) s)"

definition qum_Reply_handler :: "SAddr \<Rightarrow> string \<Rightarrow> qum_server \<Rightarrow> qum_server result" where
  "qum_Reply_handler client_addr request s =
     bindE (Split request '';'') (\<lambda>t. bindE (stoi (fst (GetNext t))) (\<lambda>id.
     bindE (getNewestServer (SIPs s) s) (\<lambda>(newestHost, s1).
     bindE (if newestHost = checkip s1
            then (case findArticlebyID (word_of_int id) s1 of
                    None \<Rightarrow> Inl OutOfBounds
                  | Some it \<Rightarrow> Inr (sint (art_hierachy (articles s1 ! it)), s1))
            else bindE (ask newestHost REPLY_PORT (''OPERATION_REPLY;REPLY;'' @ field (checkip s1)
                          @ field (to_string REPLY_PORT) @ to_string id) s1)
                   (\<lambda>(r, s2). bindE (stoi r) (\<lambda>h. Inr (h, s2))))
       (\<lambda>(preHie, s3). Inr (qum_forward (generatePrefix client_addr (skip_field request) ''POST'' preHie) s3)))))"

definition qum_vtable :: "qum_server vtable" where
  "qum_vtable = \<lparr>Post_handler = qum_Post_handler, Read_handler = qum_Read_handler,
     Choose_handler = qum_Choose_handler, Reply_handler = qum_Reply_handler\<rparr>"

section \<open>The coordinator\<close>

text \<open>Fetch the list of the newest server to \<open>port\<close>, from itself or with OPERATION_READ.\<close>

definition fetch_newest :: "SAddr list \<Rightarrow> int \<Rightarrow> qum_server \<Rightarrow> (string \<times> qum_server) result" where
  "fetch_newest servers port s =
     bindE (getNewestServer servers s) (\<lambda>(newestHost, s1).
     bindE (if newestHost = checkip s1 then sendArticle (checkip s1) port s1
            else Inr (UDP_send newestHost PRIMARYPORT
                   (''OPERATION_READ;SYNCH;'' @ field (checkip s1) @ to_string port) s1))
       (UDP_receive port))"

definition FORWARD_read ::
  "(SAddr list \<Rightarrow> nat \<Rightarrow> SAddr) \<Rightarrow> (nat \<Rightarrow> nat) \<Rightarrow> string \<Rightarrow> string \<Rightarrow> qum_server \<Rightarrow> qum_server result" where
  "FORWARD_read freed rnd clienthost clientport s =
     bindE (selectRandomServer freed rnd (qum_N s) (Nr s) (SIPs s) s) (\<lambda>serverList.
     bindE (getNewestServer serverList s) (\<lambda>(newest, s1).
       if newest = checkip s1
       then bindE (stoi clientport) (\<lambda>p. sendArticle clienthost p s1)
       else Inr (UDP_send newest PRIMARYPORT (''OPERATION_READ;READ;'' @ field clienthost @ clientport) s1)))"

definition FORWARD_post ::
  "(SAddr list \<Rightarrow> nat \<Rightarrow> SAddr) \<Rightarrow> (nat \<Rightarrow> nat) \<Rightarrow> string \<Rightarrow> string \<Rightarrow> string \<Rightarrow> string \<Rightarrow> qum_server \<Rightarrow>
   qum_server result" where
  "FORWARD_post freed rnd request clienthost clientport preHie_s s =
     bindE (selectRandomServer freed rnd (qum_N s) (Nr s) (SIPs s) s) (\<lambda>serverList.
     bindE (stoi preHie_s) (\<lambda>preHie.
     bindE (writeSelectedServer serverList request preHie s) (\<lambda>(result, s1).
     bindE (fetch_newest serverList REQUESTPORT s1) (\<lambda>(ReceivedData, s2).
     bindE (if ReceivedData \<noteq> [] then synchSelectedServer (SIPs s2) ReceivedData s2 else Inr s2) (\<lambda>s3.
     bindE (stoi clientport) (\<lambda>p.
       Inr (UDP_send clienthost p (if result then ''Success;1'' else ''Fail;0'') s3)))))))"

definition FORWARD_synch :: "string \<Rightarrow> string \<Rightarrow> qum_server \<Rightarrow> qum_server result" where
  "FORWARD_synch clienthost clientport s =
     bindE (fetch_newest (SIPs s) REQUESTPORT s) (\<lambda>(ReceivedData, s1).
     bindE (if ReceivedData \<noteq> [] then synchSelectedServer (SIPs s1) ReceivedData s1 else Inr s1) (\<lambda>s2.
     bindE (stoi clientport) (\<lambda>p. Inr (UDP_send clienthost p ''Success;1'' s2))))"

definition FORWARD_handler ::
  "(SAddr list \<Rightarrow> nat \<Rightarrow> SAddr) \<Rightarrow> (nat \<Rightarrow> nat) \<Rightarrow> string \<Rightarrow> qum_server \<Rightarrow> qum_server result" where
  "FORWARD_handler freed rnd request s =
     bindE (Split request '';'') (\<lambda>t0.
       let (command, t1) = GetNext t0;
           (clienthost, t2) = GetNext t1;
           (clientport, t3) = GetNext t2;
           (preHie_s, t4) = GetNext t3
       in if strcaseeq command ''READ'' then FORWARD_read freed rnd clienthost clientport s
          else if strcaseeq command ''POST''
               then FORWARD_post freed rnd ((skip_field ^^ 4) request) clienthost clientport preHie_s s
          else if strcaseeq command ''SYNCH'' then FORWARD_synch clienthost clientport s
          else Inr s)"

text \<open>One round of \<open>heartBeatImpl\<close>.\<close>

definition qum_heartBeat :: "qum_server \<Rightarrow> qum_server result" where
  "qum_heartBeat s =
     (if IsCoordinator s then
        bindE (fetch_newest (SIPs s) HEARTBEAT_PORT s)
          (\<lambda>(ReceivedData, s1). synchSelectedServer (SIPs s1) ReceivedData s1)
      else Inr s)"

section \<open>The listen loop of PRIMARYPORT\<close>

datatype qum_command =
    QUM_UNKNOWN | FORWARD_QUM | RECEIVEVER | REQUESTVER | REQUESTART | OPERATION_READ | OPERATION_WRITE
  | OPERATION_REPLY | OPERATION_SYNCH

definition qum_command_of :: "bool \<Rightarrow> string \<Rightarrow> qum_command" where
  "qum_command_of coord strCommand =
     (if coord \<and> strcaseeq strCommand ''FORWARD_QUM'' then FORWARD_QUM
      else if coord \<and> strcaseeq strCommand ''RECEIVEVER'' then RECEIVEVER
      else if strcaseeq strCommand ''REQUESTVER'' then REQUESTVER
      else if strcaseeq strCommand ''REQUESTART'' then REQUESTART
      else if strcaseeq strCommand ''OPERATION_READ'' then OPERATION_READ
      else if strcaseeq strCommand ''OPERATION_WRITE'' then OPERATION_WRITE
      else if strcaseeq strCommand ''OPERATION_REPLY'' then OPERATION_REPLY
      else if strcaseeq strCommand ''OPERATION_SYNCH'' then OPERATION_SYNCH
      else QUM_UNKNOWN)"

definition qum_listen_step ::
  "(SAddr list \<Rightarrow> nat \<Rightarrow> SAddr) \<Rightarrow> (nat \<Rightarrow> nat) \<Rightarrow> string \<Rightarrow> qum_server \<Rightarrow> qum_server result" where
  "qum_listen_step freed rnd datagram s =
     (let ReceivedData = cstr (take BB_BUFLEN datagram) in
      bindE (Split ReceivedData '';'') (\<lambda>t0.
        let (strCommand, t1) = GetNext t0;
            command_type = qum_command_of (IsCoordinator s) strCommand;
            (operation, t2) = GetNext t1;
            (strIPAddress, t3) = GetNext t2;
            (strPort, t4) = GetNext t3;
            nPort = atoi strPort
        in if isValidIP strIPAddress \<and> isValidPort nPort then
             (let request = skip_field ReceivedData; (tok, t5) = GetNext t4 in
              case command_type of
                FORWARD_QUM \<Rightarrow> FORWARD_handler freed rnd request s
              | RECEIVEVER \<Rightarrow> Inr s
              | REQUESTART \<Rightarrow> sendArticle strIPAddress nPort s
              | REQUESTVER \<Rightarrow> Inr (UDP_send strIPAddress nPort (to_string (VER s)) s)
              | OPERATION_READ \<Rightarrow> sendArticle strIPAddress nPort s
              | OPERATION_WRITE \<Rightarrow>
                  bindE (stoi tok) (\<lambda>preHie.
                    let s1 = writeArticle ((skip_field ^^ 4) request) preHie s
                    in Inr (UDP_send strIPAddress nPort (to_string (VER s1)) s1))
              | OPERATION_REPLY \<Rightarrow>
                  bindE (stoi tok) (\<lambda>id.
                    case findArticlebyID (word_of_int id) s of
                      None \<Rightarrow> Inl OutOfBounds
                    | Some it \<Rightarrow> Inr (UDP_send strIPAddress nPort (to_string (uint (art_hierachy (articles s ! it)))) s))
              | OPERATION_SYNCH \<Rightarrow>
                  bindE (loadArticle ((skip_field ^^ 3) request) s)
                    (\<lambda>s1. Inr (UDP_send strIPAddress nPort (to_string (VER s1)) s1))
              | QUM_UNKNOWN \<Rightarrow> Inr s)
           else Inr s))"

section \<open>The shuffle\<close>

lemma length_swap_at [simp]: "length (swap_at i j xs) = length xs"
  by (simp add: swap_at_def)

lemma mset_swap_at: "i < length xs \<Longrightarrow> j < length xs \<Longrightarrow> mset (swap_at i j xs) = mset xs"
  unfolding swap_at_def by (rule mset_swap)

lemma nth_swap_at:
  "i < length xs \<Longrightarrow> j < length xs \<Longrightarrow> k < length xs \<Longrightarrow>
   swap_at i j xs ! k = (if k = j then xs ! i else if k = i then xs ! j else xs ! k)"
  by (simp add: swap_at_def nth_list_update)

lemma mset_qum_shuffle: "i < length q \<Longrightarrow> mset (qum_shuffle rnd i q) = mset q"
proof (induction i arbitrary: q)
  case 0
  then show ?case by simp
next
  case (Suc i)
  have r: "rnd (Suc i) mod Suc i < length q" using Suc.prems by (meson less_trans mod_less_divisor zero_less_Suc)
  have "mset (qum_shuffle rnd (Suc i) q) = mset (swap_at (Suc i) (rnd (Suc i) mod Suc i) q)"
    using Suc by simp
  also have "\<dots> = mset q" by (rule mset_swap_at [OF Suc.prems r])
  finally show ?case .
qed

lemma length_qum_shuffle [simp]: "length (qum_shuffle rnd i q) = length q"
  by (induction i arbitrary: q) simp_all

lemma qum_shuffle_derange:
  assumes "Suc i < length q" "\<forall>j\<le>Suc i. q ! j = j \<or> Suc i < q ! j"
    and "\<forall>j<length q. Suc i < j \<longrightarrow> q ! j \<noteq> j" "j < length q"
  shows "qum_shuffle rnd (Suc i) q ! j \<noteq> j"
  using assms
proof (induction i arbitrary: q)
  case 0
  then have q: "q ! 0 = 0 \<or> Suc 0 < q ! 0" "q ! Suc 0 = Suc 0 \<or> Suc 0 < q ! Suc 0" by auto
  have "swap_at (Suc 0) 0 q ! j = (if j = 0 then q ! Suc 0 else if j = Suc 0 then q ! 0 else q ! j)"
    using 0 by (intro nth_swap_at) auto
  then have "qum_shuffle rnd (Suc 0) q ! j = (if j = 0 then q ! Suc 0 else if j = Suc 0 then q ! 0 else q ! j)"
    by simp
  then show ?case
    using q 0(3,4) by (auto split: if_splits)
next
  case (Suc i)
  define r where "r = rnd (Suc (Suc i)) mod Suc (Suc i)"
  let ?q = "swap_at (Suc (Suc i)) r q"
  have r: "r \<le> Suc i" unfolding r_def by (meson mod_less_divisor not_less_eq_eq not_le zero_less_Suc)
  then have n: "?q ! k = (if k = r then q ! Suc (Suc i) else if k = Suc (Suc i) then q ! r else q ! k)"
    if "k < length q" for k
    using Suc.prems(1) that r by (intro nth_swap_at) linarith+
  have v: "q ! k = k \<or> Suc (Suc i) < q ! k" if "k \<le> Suc (Suc i)" for k using Suc.prems(2) that by blast
  have "?q ! k = k \<or> Suc i < ?q ! k" if "k \<le> Suc i" for k
    using n [of k] v [of k] v [of "Suc (Suc i)"] that Suc.prems(1) by (auto split: if_splits)
  moreover have "?q ! k \<noteq> k" if "k < length q" "Suc i < k" for k
    using n [OF that(1)] v [of r] r Suc.prems(3) that by (cases "k = Suc (Suc i)") auto
  ultimately have "qum_shuffle rnd (Suc i) ?q ! j \<noteq> j"
    using Suc.prems by (intro Suc.IH) auto
  then show ?case by (simp add: r_def)
qed

lemma qum_shuffle_perm: "mset (qum_shuffle rnd (n - 1) [0..<n]) = mset [0..<n]"
  by (cases n) (simp_all add: mset_qum_shuffle del: upt_Suc)

text \<open>
  The shuffle of the server indices is a permutation whatever \<open>rand()\<close> returns, and
  never leaves an index in its place: the first server picked is never the coordinator
  when there are two servers or more.
\<close>

theorem quorum_shuffle_permutes:
  assumes "2 \<le> n"
  shows "mset (qum_shuffle rnd (n - 1) [0..<n]) = mset [0..<n]
     \<and> (\<forall>j\<in>{0..<n}. qum_shuffle rnd (n - 1) [0..<n] ! j \<noteq> j)"
proof -
  obtain k where k: "n = Suc (Suc k)" using assms by (metis add_2_eq_Suc le_Suc_ex)
  have "qum_shuffle rnd (Suc k) [0..<n] ! j \<noteq> j" if "j < n" for j
    using that k by (intro qum_shuffle_derange) (auto simp del: upt_Suc)
  then show ?thesis using qum_shuffle_perm [of rnd n] k by simp
qed

lemma quorum_shuffle_permutes_witness:
  "mset (qum_shuffle (\<lambda>i. i * 7 + 3) 3 [0..<4]) = mset [0..<4] \<and> qum_shuffle (\<lambda>i. i * 7 + 3) 3 [0..<4] ! 0 \<noteq> 0"
  using quorum_shuffle_permutes [of 4 "\<lambda>i. i * 7 + 3"] by auto

section \<open>Quorums\<close>

text \<open>The freed copy still holds its entries, except that the first may be overwritten.\<close>

definition freed_intact :: "(SAddr list \<Rightarrow> nat \<Rightarrow> SAddr) \<Rightarrow> SAddr list \<Rightarrow> bool" where
  "freed_intact freed IPs \<longleftrightarrow> (\<forall>k<length IPs. 0 < k \<longrightarrow> freed IPs k = IPs ! k)"

lemma select_loop_eq:
  assumes "freed_intact freed IPs" "\<forall>k\<in>set q. k < length IPs" "n \<le> length q"
  shows "select_loop freed IPs IPs q n = Inr (map (\<lambda>k. IPs ! k) (take n q))"
  using assms
proof (induction q arbitrary: n)
  case Nil
  then show ?case by simp
next
  case (Cons k q)
  then show ?case
    by (cases n; cases IPs) (auto simp: findServerByIndex_def freed_intact_def)
qed

text \<open>The servers a selection of \<open>m\<close> out of all yields.\<close>

lemma selectRandomServer_eq:
  assumes "freed_intact freed (SIPs s)" "SIPs s \<noteq> []" "0 \<le> m" "m \<le> int (length (SIPs s))"
  shows "selectRandomServer freed rnd (int (length (SIPs s))) m (SIPs s) s =
     Inr (map (\<lambda>k. SIPs s ! k) (take (nat m) (qum_shuffle rnd (length (SIPs s) - 1) [0..<length (SIPs s)])))"
proof -
  let ?n = "length (SIPs s)"
  have "set (qum_shuffle rnd (?n - 1) [0..<?n]) = {0..<?n}"
    using qum_shuffle_perm [of rnd ?n] by (metis mset_eq_setD set_upt)
  then show ?thesis
    using assms select_loop_eq [OF assms(1), of "qum_shuffle rnd (?n - 1) [0..<?n]" "nat m"]
    by (simp add: selectRandomServer_def Let_def nat_diff_distrib')
qed

lemma take_perm_overlap:
  assumes "mset p = mset [0..<n]" "mset q = mset [0..<n]" "n < a + b" "a \<le> n" "b \<le> n"
  shows "set (take a p) \<inter> set (take b q) \<noteq> {}"
proof
  assume d: "set (take a p) \<inter> set (take b q) = {}"
  have p: "distinct p" "length p = n" "set p = {0..<n}"
    using assms(1) mset_eq_imp_distinct_iff [of p "[0..<n]"] mset_eq_length [of p "[0..<n]"] mset_eq_setD [of p "[0..<n]"]
    by auto
  have q: "distinct q" "length q = n" "set q = {0..<n}"
    using assms(2) mset_eq_imp_distinct_iff [of q "[0..<n]"] mset_eq_length [of q "[0..<n]"] mset_eq_setD [of q "[0..<n]"]
    by auto
  have "card (set (take a p)) = a" "card (set (take b q)) = b"
    using p q assms(4,5) by (simp_all add: distinct_card)
  then have "card (set (take a p) \<union> set (take b q)) = a + b"
    using d by (simp add: card_Un_disjoint)
  moreover have "set (take a p) \<union> set (take b q) \<subseteq> {0..<n}"
    using p(3) q(3) set_take_subset by fastforce
  then have "card (set (take a p) \<union> set (take b q)) \<le> n"
    using card_mono [of "{0..<n}"] by fastforce
  ultimately show False using assms(3) by simp
qed

lemma isValidQR_sum:
  assumes "isValidQ N nr nw" "is_int32 nr" "is_int32 nw" "0 \<le> nr" "0 \<le> nw"
  shows "N < nr + nw"
proof -
  have "0 \<le> nr + nw" "nr + nw < 2 ^ 32" using assms by (auto simp: is_int32_def)
  have "signed_take_bit 31 (nr + nw) \<le> take_bit 32 (nr + nw)"
    by (simp add: signed_take_bit_eq_take_bit_minus del: One_nat_def)
  also have "\<dots> = nr + nw" using \<open>0 \<le> nr + nw\<close> \<open>nr + nw < 2 ^ 32\<close> by (simp add: take_bit_int_eq_self)
  finally show ?thesis using assms(1) by (simp add: isValidQ_def isValidQR_def split: if_splits)
qed


definition qum_sample :: "SAddr list \<Rightarrow> int \<Rightarrow> int \<Rightarrow> qum_server" where
  "qum_sample sips nr nw = \<lparr>local_ip = ''10.0.0.1'', inbox = (\<lambda>_. []), outbox = [], coordinatorIP = ''10.0.0.1'',
     IsCoordinator = True, SIPs = sips, CIPs = [], articles = [], qum_ID = 0, VER = 0,
     qum_N = int (length sips), Nr = nr, Nw = nw\<rparr>"

definition three_servers :: "SAddr list" where
  "three_servers = [\<lparr>sa_ip = ''10.0.0.1'', sa_port = 5105\<rparr>, \<lparr>sa_ip = ''10.0.0.2'', sa_port = 5105\<rparr>,
     \<lparr>sa_ip = ''10.0.0.3'', sa_port = 5105\<rparr>]"


section \<open>The newest server\<close>

text \<open>What the servers asked answer, in the order they are asked.\<close>

fun reported :: "string \<Rightarrow> int \<Rightarrow> (string \<Rightarrow> int) \<Rightarrow> SAddr list \<Rightarrow> int list" where
  "reported self ver ans [] = []"
| "reported self ver ans (it # its) = (if sa_ip it = self then ver else ans (sa_ip it)) # reported self ver ans its"

lemma ask_eq:
  assumes "inbox s port = d # ds" "length d < BB_BUFLEN"
  shows "ask target port command s =
     Inr (cstr d, s\<lparr>outbox := outbox s @ [(target, PRIMARYPORT, cstr command)], inbox := (inbox s)(port := ds)\<rparr>)"
  using assms by (simp add: ask_def UDP_receive_def UDP_send_def)

text \<open>The last maximum of a list of versions, from 0 up.\<close>

fun last_max :: "int \<Rightarrow> SAddr option \<Rightarrow> (SAddr \<times> int) list \<Rightarrow> int \<times> SAddr option" where
  "last_max m b [] = (m, b)"
| "last_max m b ((a, v) # vs) = (if v \<ge> m then last_max v (Some a) vs else last_max m b vs)"

lemma last_max_spec:
  "last_max m b vs = (m', b') \<Longrightarrow> (\<forall>(a, v)\<in>set vs. v \<le> m') \<and> m \<le> m'
     \<and> (b' = b \<and> (\<forall>(a, v)\<in>set vs. v < m) \<or> (\<exists>a. b' = Some a \<and> (a, m') \<in> set vs))"
proof (induction vs arbitrary: m b)
  case Nil
  then show ?case by simp
next
  case (Cons av vs)
  obtain a v where av: "av = (a, v)" by fastforce
  show ?case
  proof (cases "v \<ge> m")
    case True
    with Cons.prems av have l: "last_max v (Some a) vs = (m', b')" by simp
    from Cons.IH [OF l] have ih: "\<forall>(a, v)\<in>set vs. v \<le> m'" "v \<le> m'"
      "b' = Some a \<and> (\<forall>(a, w)\<in>set vs. w < v) \<or> (\<exists>a. b' = Some a \<and> (a, m') \<in> set vs)" by blast+
    have "m' = v" if "\<forall>(a, w)\<in>set vs. w < v"
      using l that by (induction vs arbitrary: v a) (auto split: if_splits)
    with ih True av show ?thesis by auto
  next
    case False
    with Cons.prems av Cons.IH [of m b] show ?thesis by auto
  qed
qed

text \<open>The answers wait at the port, in order; servers that are the coordinator itself need none.\<close>

lemma newest_loop_eq:
  assumes "inbox s GETNEWVER_PORT = map (\<lambda>a. to_string (ans (sa_ip a))) (filter (\<lambda>a. sa_ip a \<noteq> local_ip s) l) @ rest"
    and "\<forall>a\<in>set l. is_int32 (ans (sa_ip a))"
  shows "\<exists>s'. newest_loop command l m b s =
     Inr (snd (last_max m b (zip l (reported (local_ip s) (VER s) ans l))), s')
     \<and> inbox s' GETNEWVER_PORT = rest \<and> (\<forall>p. p \<noteq> GETNEWVER_PORT \<longrightarrow> inbox s' p = inbox s p) \<and> articles s' = articles s \<and> VER s' = VER s
     \<and> local_ip s' = local_ip s"
  using assms
proof (induction l arbitrary: m b s)
  case Nil
  then show ?case by auto
next
  case (Cons a l)
  show ?case
  proof (cases "sa_ip a = local_ip s")
    case True
    with Cons show ?thesis by (simp add: checkip_def)
  next
    case False
    let ?d = "to_string (ans (sa_ip a))"
    let ?ds = "map (\<lambda>a. to_string (ans (sa_ip a))) (filter (\<lambda>a. sa_ip a \<noteq> local_ip s) l) @ rest"
    let ?s = "s\<lparr>outbox := outbox s @ [(sa_ip a, PRIMARYPORT, cstr command)], inbox := (inbox s)(GETNEWVER_PORT := ?ds)\<rparr>"
    have i: "is_int32 (ans (sa_ip a))" using Cons.prems by simp
    have "inbox s GETNEWVER_PORT = ?d # ?ds" "length ?d < BB_BUFLEN"
      using Cons.prems False length_to_string_int32 [OF i] by auto
    from ask_eq [OF this] have "ask (sa_ip a) GETNEWVER_PORT command s = Inr (?d, ?s)" by simp
    then show ?thesis
      using Cons.IH [of ?s] Cons.prems(2) i False by (auto simp: checkip_def atoi_to_string)
  qed
qed

text \<open>
  The server \<open>getNewestServer\<close> picks is one it asked, and no server it asked reported
  a higher version, when the answers arrive in the order of the questions.
\<close>

theorem getNewestServer_newest:
  assumes "inbox s GETNEWVER_PORT = map (\<lambda>a. to_string (ans (sa_ip a))) (filter (\<lambda>a. sa_ip a \<noteq> local_ip s) l)"
    and "\<forall>a\<in>set l. is_int32 (ans (sa_ip a)) \<and> 0 \<le> ans (sa_ip a)" "l \<noteq> []" "ans (local_ip s) = VER s" "0 \<le> VER s"
  shows "\<exists>a s'. getNewestServer l s = Inr (sa_ip a, s') \<and> a \<in> set l
     \<and> (\<forall>b\<in>set l. ans (sa_ip b) \<le> ans (sa_ip a)) \<and> articles s' = articles s"
proof -
  have r: "zip l (reported (local_ip s) (VER s) ans l) = map (\<lambda>a. (a, ans (sa_ip a))) l" for l
    using assms(4) by (induction l) auto
  let ?c = "''REQUESTVER;READ;'' @ field (checkip s) @ to_string GETNEWVER_PORT"
  obtain m' b' where mb: "last_max 0 None (map (\<lambda>a. (a, ans (sa_ip a))) l) = (m', b')" by fastforce
  obtain s' where n: "newest_loop ?c l 0 None s = Inr (b', s')" "articles s' = articles s"
    using newest_loop_eq [of s ans l "[]" ?c 0 None] assms(1,2) by (auto simp: r mb)
  have sp: "\<forall>b\<in>set l. ans (sa_ip b) \<le> m'"
    "(\<forall>b\<in>set l. ans (sa_ip b) < 0) \<or> (\<exists>a. b' = Some a \<and> a \<in> set l \<and> ans (sa_ip a) = m')"
    using last_max_spec [OF mb] by auto
  obtain x where "x \<in> set l" using assms(3) by (cases l) auto
  with assms(2) have "\<not> (\<forall>b\<in>set l. ans (sa_ip b) < 0)" by force
  with sp obtain a where "b' = Some a" "a \<in> set l" "ans (sa_ip a) = m'" by blast
  with n sp(1) show ?thesis
    by (intro exI [of _ a] exI [of _ s']) (simp add: getNewestServer_def Let_def)
qed

lemma getNewestServer_newest_witness:
  "\<exists>s'. getNewestServer three_servers ((qum_sample three_servers 2 2)\<lparr>inbox := (\<lambda>_. [''4'', ''3''])\<rparr>) = Inr (''10.0.0.2'', s')"
proof -
  let ?s = "(qum_sample three_servers 2 2)\<lparr>inbox := (\<lambda>_. [''4'', ''3''])\<rparr>"
  define ans :: "string \<Rightarrow> int" where "ans = (\<lambda>ip. if ip = ''10.0.0.1'' then 0 else if ip = ''10.0.0.2'' then 4 else 3)"
  have t: "to_string 4 = ''4''" "to_string 3 = ''3''" by code_simp+
  have "\<exists>a s'. getNewestServer three_servers ?s = Inr (sa_ip a, s') \<and> a \<in> set three_servers
     \<and> (\<forall>b\<in>set three_servers. ans (sa_ip b) \<le> ans (sa_ip a)) \<and> articles s' = articles ?s"
    by (rule getNewestServer_newest) (simp_all add: three_servers_def qum_sample_def ans_def t is_int32_def)
  then show ?thesis by (auto simp: three_servers_def ans_def)
qed

section \<open>Copying the list\<close>

text \<open>Numbering from 1, without the server that wrote the article.\<close>

fun renumber :: "Article list \<Rightarrow> int \<Rightarrow> Article list" where
  "renumber [] i = []"
| "renumber (a # as) i = a\<lparr>art_ID := word_of_int (i + 1), art_primaryIP := []\<rparr> # renumber as (i + 1)"

lemma load_loop_eq:
  "list_all five_fields as \<Longrightarrow> load_loop (map article_text as) i = Inr (renumber as i)"
proof (induction as arbitrary: i)
  case Nil
  then show ?case by simp
next
  case (Cons a as)
  then have "five_fields a" by simp
  then obtain f0 f1 f2 f3 f4 where c: "art_content a = [join_fields (CHR '';'') [f0, f1, f2, f3, f4]]"
    and t: "tokens '';'' (article_text a) = [f0, f1, f2, f3, f4, to_string (uint (art_hierachy a))]"
    and h: "is_int32 (uint (art_hierachy a))"
    by (rule five_fieldsE)
  have "art_content a = [field f0 @ field f1 @ field f2 @ field f3 @ f4]" by (simp add: c field_def)
  from this [symmetric] show ?case using Cons h by (simp add: t Let_def stoi_to_string)
qed

lemma loadArticle_message:
  assumes "list_all five_fields as"
  shows "loadArticle (article_message as) s = Inr (s\<lparr>articles := renumber as 0\<rparr>)"
proof -
  have "list_all article_clean as" using assms by (intro list_five_fields_clean) simp
  from tokens_article_message [OF this] show ?thesis
    by (simp add: loadArticle_def load_loop_eq [OF assms])
qed

text \<open>The loop reads an operation word before the address: a frame of its own.\<close>

definition qum_frame :: "string \<Rightarrow> string \<Rightarrow> string \<Rightarrow> int \<Rightarrow> string \<Rightarrow> string" where
  "qum_frame cmd oper ip p r = field cmd @ field oper @ field ip @ field (to_string p) @ r"

lemma qum_listen_frame:
  assumes "word_ok cmd" "word_ok oper" "isValidIP ip" "CHR 0x00 \<notin> set ip" "isValidPort p" "CHR 0x00 \<notin> set r"
    and "length (qum_frame cmd oper ip p r) \<le> BB_BUFLEN"
  shows "qum_listen_step freed rnd (qum_frame cmd oper ip p r) s =
     (let tok = tok_at (tokens '';'' r) 0; request = field oper @ field ip @ field (to_string p) @ r in
      case qum_command_of (IsCoordinator s) cmd of
        FORWARD_QUM \<Rightarrow> FORWARD_handler freed rnd request s
      | RECEIVEVER \<Rightarrow> Inr s
      | REQUESTART \<Rightarrow> sendArticle ip p s
      | REQUESTVER \<Rightarrow> Inr (UDP_send ip p (to_string (VER s)) s)
      | OPERATION_READ \<Rightarrow> sendArticle ip p s
      | OPERATION_WRITE \<Rightarrow>
          bindE (stoi tok) (\<lambda>preHie.
            let s1 = writeArticle (skip_field r) preHie s
            in Inr (UDP_send ip p (to_string (VER s1)) s1))
      | OPERATION_REPLY \<Rightarrow>
          bindE (stoi tok) (\<lambda>id.
            case findArticlebyID (word_of_int id) s of
              None \<Rightarrow> Inl OutOfBounds
            | Some it \<Rightarrow> Inr (UDP_send ip p (to_string (uint (art_hierachy (articles s ! it)))) s))
      | OPERATION_SYNCH \<Rightarrow> bindE (loadArticle r s) (\<lambda>s1. Inr (UDP_send ip p (to_string (VER s1)) s1))
      | QUM_UNKNOWN \<Rightarrow> Inr s)"
proof -
  have ip: "ip \<noteq> []" "CHR '';'' \<notin> set ip"
    using assms isValidIP_not_Nil [of ip] isValidIP_clean [of ip] by auto
  let ?m = "qum_frame cmd oper ip p r"
  have c: "cstr (take BB_BUFLEN ?m) = ?m"
    using assms by (simp add: qum_frame_def field_def word_ok_def)
  have t: "tokens '';'' ?m = cmd # oper # ip # to_string p # tokens '';'' r"
    using assms ip by (simp add: qum_frame_def field_def word_ok_def tokens_field)
  have s1: "skip_field ?m = field oper @ field ip @ field (to_string p) @ r"
    using assms by (simp add: qum_frame_def field_def word_ok_def skip_field_app)
  have s3: "(skip_field ^^ 3) (field oper @ field ip @ field (to_string p) @ r) = r"
    "(skip_field ^^ 4) (field oper @ field ip @ field (to_string p) @ r) = skip_field r"
    using assms ip by (simp_all add: field_def word_ok_def skip_field_app numeral_3_eq_3 numeral_eq_Suc)
  have v: "isValidIP ip \<and> isValidPort (atoi (to_string p))"
    using assms by (simp add: atoi_to_string)
  have a: "atoi (to_string p) = p" using assms by (simp add: atoi_to_string)
  show ?thesis
    unfolding qum_listen_step_def Let_def c Split_tz bindE.simps GetNext_tz prod.case t tok_at_simps s1 s3
    using v by (simp only: if_True a simp_thms)
qed

lemma qum_command_simps [simp]:
  "qum_command_of c ''OPERATION_SYNCH'' = OPERATION_SYNCH" "qum_command_of c ''OPERATION_WRITE'' = OPERATION_WRITE"
  "qum_command_of c ''REQUESTVER'' = REQUESTVER" "qum_command_of c ''OPERATION_READ'' = OPERATION_READ"
  by (simp_all add: qum_command_of_def strcaseeq_def tolower_def upper_letters_def lower_letters_def)

lemma word_ok_literals:
  "word_ok ''OPERATION_SYNCH''" "word_ok ''SYNCH''" "word_ok ''OPERATION_WRITE''" "word_ok ''WRITE''"
  by (simp_all add: word_ok_def)

definition synch_msg :: "string \<Rightarrow> string \<Rightarrow> string" where
  "synch_msg ip content = qum_frame ''OPERATION_SYNCH'' ''SYNCH'' ip SYNCH_PORT content"

definition write_msg :: "string \<Rightarrow> int \<Rightarrow> string \<Rightarrow> string" where
  "write_msg ip preHie content =
     qum_frame ''OPERATION_WRITE'' ''WRITE'' ip WRITESELECT_PORT (field (to_string preHie) @ content)"

text \<open>
  Synchronising copies the list: when the coordinator's newest articles have the
  client's five fields and fit a datagram, every server that handles the OPERATION_SYNCH
  message ends with exactly these texts and levels in ID order, numbered from 1, whatever
  it held before. Its own version and article counter stay as they were.
\<close>

theorem quorum_synch_copies:
  assumes "list_all five_fields as" "isValidIP ip" "CHR 0x00 \<notin> set ip"
    and "length (synch_msg ip (article_message as)) \<le> BB_BUFLEN"
  shows "qum_listen_step freed rnd (synch_msg ip (article_message as)) s =
     Inr (s\<lparr>articles := renumber as 0, outbox := outbox s @ [(ip, SYNCH_PORT, to_string (VER s))]\<rparr>)"
proof -
  have "list_all article_clean as" using assms by (intro list_five_fields_clean) simp
  then have "CHR 0x00 \<notin> set (article_message as)" by (rule article_message_no_nul)
  then show ?thesis
    using qum_listen_frame [of "''OPERATION_SYNCH''" "''SYNCH''" ip SYNCH_PORT "article_message as" freed rnd s]
      assms word_ok_literals
    by (simp add: synch_msg_def isValidPort_def loadArticle_message UDP_send_def Let_def)
qed

definition sample_article :: "32 word \<Rightarrow> Article" where
  "sample_article n = \<lparr>art_ID = n, art_primaryIP = ''10.0.0.1'', art_content = [''1;T;A;now;text''], art_hierachy = 0\<rparr>"

lemma sample_five_fields: "five_fields (sample_article n)"
  by (rule five_fieldsI [of "''1''" "''T''" "''A''" "''now''" "''text''"]) (simp_all add: sample_article_def word_ok_def)

lemma quorum_synch_copies_witness:
  "\<exists>s'. qum_listen_step (\<lambda>l k. l ! k) (\<lambda>i. 0) ''OPERATION_SYNCH;SYNCH;10.0.0.1;7003;1;T;A;now;text;0'' (qum_sample [] 2 2) = Inr s'
     \<and> articles s' = [(sample_article 1)\<lparr>art_primaryIP := []\<rparr>]"
proof -
  have m: "synch_msg ''10.0.0.1'' (article_message [sample_article 9]) = ''OPERATION_SYNCH;SYNCH;10.0.0.1;7003;1;T;A;now;text;0''"
    and v: "isValidIP ''10.0.0.1''"
    by code_simp+
  show ?thesis
    using quorum_synch_copies [of "[sample_article 9]" "''10.0.0.1''" "\<lambda>l k. l ! k" "\<lambda>i. 0" "qum_sample [] 2 2"] sample_five_fields v
    unfolding m by (simp add: sample_article_def)
qed

text \<open>
  An OPERATION_WRITE stores the text once under the server's next ID, one level below
  the one it is given, counts the version up and answers with the new version.
\<close>

theorem quorum_write_stores:
  assumes "isValidIP ip" "CHR 0x00 \<notin> set ip" "CHR 0x00 \<notin> set content" "is_int32 preHie"
    and "length (write_msg ip preHie content) \<le> BB_BUFLEN"
  shows "qum_listen_step freed rnd (write_msg ip preHie content) s =
     Inr (s\<lparr>qum_ID := qum_ID s + 1, VER := VER s + 1,
            articles := articles s @ [\<lparr>art_ID = word_of_int (qum_ID s + 1), art_primaryIP = local_ip s,
              art_content = [content], art_hierachy = word_of_int (preHie + 1)\<rparr>],
            outbox := outbox s @ [(ip, WRITESELECT_PORT, to_string (VER s + 1))]\<rparr>)"
proof -
  let ?r = "field (to_string preHie) @ content"
  have t: "tok_at (tokens '';'' ?r) 0 = to_string preHie" and k: "skip_field ?r = content"
    by (simp_all add: field_def tokens_field skip_field_app)
  show ?thesis
    using qum_listen_frame [of "''OPERATION_WRITE''" "''WRITE''" ip WRITESELECT_PORT ?r freed rnd s]
      assms word_ok_literals t k
    by (simp add: write_msg_def isValidPort_def stoi_to_string UDP_send_def Let_def writeArticle_def checkip_def
        field_def [of "to_string preHie"])
qed

lemma quorum_write_stores_witness:
  "\<exists>s'. qum_listen_step (\<lambda>l k. l ! k) (\<lambda>i. 0) ''OPERATION_WRITE;WRITE;10.0.0.1;7002;-1;1;T;A;now;text'' (qum_sample [] 2 2) = Inr s'
     \<and> articles s' = [sample_article 1] \<and> VER s' = 1"
proof -
  have m: "write_msg ''10.0.0.1'' (- 1) ''1;T;A;now;text'' = ''OPERATION_WRITE;WRITE;10.0.0.1;7002;-1;1;T;A;now;text''"
    and v: "isValidIP ''10.0.0.1''"
    by code_simp+
  show ?thesis
    using quorum_write_stores [of "''10.0.0.1''" "''1;T;A;now;text''" "- 1" "\<lambda>l k. l ! k" "\<lambda>i. 0" "qum_sample [] 2 2"] v
    unfolding m by (simp add: sample_article_def qum_sample_def is_int32_def)
qed

text \<open>
  Synchronising does not move the article counter: a server that never wrote, after it
  loaded a non-empty list, stores the next write under ID 1 although its list already has
  an article with that ID.
\<close>

theorem quorum_synch_then_write_duplicates:
  assumes "list_all five_fields as" "as \<noteq> []" "isValidIP ip" "CHR 0x00 \<notin> set ip" "qum_ID s = 0"
    and "length (synch_msg ip (article_message as)) \<le> BB_BUFLEN"
    and "CHR 0x00 \<notin> set content" "is_int32 preHie" "length (write_msg ip preHie content) \<le> BB_BUFLEN"
  shows "\<exists>s'. bindE (qum_listen_step freed rnd (synch_msg ip (article_message as)) s)
                 (qum_listen_step freed rnd (write_msg ip preHie content)) = Inr s'
     \<and> \<not> distinct (map art_ID (articles s'))"
proof -
  note y = quorum_synch_copies [OF assms(1,3,4,6), of freed rnd s]
  let ?s = "s\<lparr>articles := renumber as 0, outbox := outbox s @ [(ip, SYNCH_PORT, to_string (VER s))]\<rparr>"
  obtain s' where s': "qum_listen_step freed rnd (write_msg ip preHie content) ?s = Inr s'"
    "articles s' = renumber as 0 @ [\<lparr>art_ID = 1, art_primaryIP = local_ip s, art_content = [content],
       art_hierachy = word_of_int (preHie + 1)\<rparr>]"
    using quorum_write_stores [OF assms(3,4,7,8,9), of freed rnd ?s] assms(5) by simp
  moreover have "1 \<in> art_ID ` set (renumber as 0)" using assms(2) by (cases as) auto
  ultimately show ?thesis by (intro exI [of _ s']) (auto simp: y)
qed

lemma quorum_synch_then_write_duplicates_witness:
  "\<exists>s'. bindE (qum_listen_step (\<lambda>l k. l ! k) (\<lambda>i. 0) ''OPERATION_SYNCH;SYNCH;10.0.0.1;7003;1;T;A;now;text;0'' (qum_sample [] 2 2))
      (qum_listen_step (\<lambda>l k. l ! k) (\<lambda>i. 0) ''OPERATION_WRITE;WRITE;10.0.0.1;7002;-1;1;T;A;now;text'') = Inr s'
     \<and> \<not> distinct (map art_ID (articles s'))"
proof -
  have m: "write_msg ''10.0.0.1'' (- 1) ''1;T;A;now;text'' = ''OPERATION_WRITE;WRITE;10.0.0.1;7002;-1;1;T;A;now;text''"
    "synch_msg ''10.0.0.1'' (article_message [sample_article 9]) = ''OPERATION_SYNCH;SYNCH;10.0.0.1;7003;1;T;A;now;text;0''"
    and v: "isValidIP ''10.0.0.1''"
    by code_simp+
  show ?thesis
    using quorum_synch_then_write_duplicates [of "[sample_article 9]" "''10.0.0.1''" "qum_sample [] 2 2" "''1;T;A;now;text''" "- 1"
        "\<lambda>l k. l ! k" "\<lambda>i. 0"] sample_five_fields v
    unfolding m by (simp add: qum_sample_def is_int32_def)
qed

text \<open>
  A post reaches only a read quorum: with N = 3, Nr = 1 and Nw = 3, which the
  constructor accepts, the coordinator sends OPERATION_WRITE to one server only before it
  reports success.
\<close>

theorem quorum_post_writes_Nr:
  "isValidQ 3 1 3 \<and>
   (\<exists>s'. FORWARD_handler (\<lambda>l k. l ! k) (\<lambda>i. i) ''POST;10.0.0.9;5106;-1;1;T;A;now;text''
      ((qum_sample three_servers 1 3)\<lparr>inbox := (\<lambda>p. if p = 6102 then [''1;T;A;now;text;0''] else [''1'', ''1'', ''1'', ''1''])\<rparr>) = Inr s'
     \<and> length (filter (\<lambda>(ip, p, m). take 15 m = ''OPERATION_WRITE'') (outbox s')) = 1
     \<and> last (outbox s') = (''10.0.0.9'', 5106, ''Success;1''))"
proof
  show "isValidQ 3 1 3" by code_simp
next
  let ?r = "FORWARD_handler (\<lambda>l k. l ! k) (\<lambda>i. i) ''POST;10.0.0.9;5106;-1;1;T;A;now;text''
      ((qum_sample three_servers 1 3)\<lparr>inbox := (\<lambda>p. if p = 6102 then [''1;T;A;now;text;0''] else [''1'', ''1'', ''1'', ''1''])\<rparr>)"
  have 1: "map_sum id (\<lambda>s. (length (filter (\<lambda>(ip, p, m). take 15 m = ''OPERATION_WRITE'') (outbox s)), last (outbox s))) ?r
      = Inr (1, (''10.0.0.9'', 5106, ''Success;1''))"
    by code_simp
  then obtain s' where "?r = Inr s'" by (cases ?r) simp_all
  with 1 show "\<exists>s'. ?r = Inr s'
     \<and> length (filter (\<lambda>(ip, p, m). take 15 m = ''OPERATION_WRITE'') (outbox s')) = 1
     \<and> last (outbox s') = (''10.0.0.9'', 5106, ''Success;1'')"
    by (intro exI [of _ s']) simp
qed

end
