(* ===== verification/BBProcess.thy ===== *)
theory BBProcess
  imports SeqServer LocalWriteServer QuorumServer Process
begin

text \<open>
  A bulletin board server as a process (Project2/Server): the listener of \<open>SERVERPORT\<close>, that
  of \<open>PRIMARYPORT\<close>, the console of \<open>Server::Command\<close> and, for the quorum protocol, the
  heartbeat, as threads on one server object. \<open>bb_step\<close> takes the protocol's virtual
  handlers, its listener and its heartbeat; the three protocols are instances. The lemmas
  follow the address vectors of a coordinator and the shutdown through any run.
\<close>

section \<open>The threads\<close>

text \<open>The heads of the four receive loops: the timeout of 10 seconds, \<open>Is_live\<close>, the datagram.\<close>

definition Server_listen :: "'a bb_server_scheme vtable \<Rightarrow> string \<times> int \<Rightarrow> bool \<Rightarrow> recv_event \<Rightarrow> 'a bb_server_scheme \<Rightarrow>
    'a bb_server_scheme result" where
  "Server_listen vt src live r s = on_recv (bb_listen_step vt src) (- 1) live r s"

definition primary_backup_listenImpl :: "bool \<Rightarrow> recv_event \<Rightarrow> seq_server \<Rightarrow> seq_server result" where
  "primary_backup_listenImpl live r s = on_recv seq_listen_step (- 1) live r s"

definition LocalWrite_listenImpl :: "bool \<Rightarrow> recv_event \<Rightarrow> lw_server \<Rightarrow> lw_server result" where
  "LocalWrite_listenImpl live r s = on_recv lw_listen_step (- 1) live r s"

definition quorum_listenImpl ::
  "(SAddr list \<Rightarrow> nat \<Rightarrow> SAddr) \<Rightarrow> (nat \<Rightarrow> nat) \<Rightarrow> bool \<Rightarrow> recv_event \<Rightarrow> qum_server \<Rightarrow> qum_server result" where
  "quorum_listenImpl freed rnd live r s = on_recv (qum_listen_step freed rnd) (- 1) live r s"

record 's bb_process =
  bp_server :: 's
  bp_live :: bool
  bp_shell :: "string list"

definition bb_console :: "string \<Rightarrow> 'a bb_server_scheme bb_process \<Rightarrow> 'a bb_server_scheme bb_process" where
  "bb_console szUserInput p =
     (let (live, s) = bb_Command [szUserInput] (bp_server p)
      in p\<lparr>bp_server := s, bp_live := live, bp_shell := bp_shell p @ (if live then [szUserInput] else [])\<rparr>)"

datatype bb_event = ServerSocket "string \<times> int" recv_event | PrimarySocket recv_event | HeartbeatRound | ConsoleLine string

text \<open>Threads run on the object and the flag; a protocol without a heartbeat thread has \<open>beat = None\<close>.\<close>

definition bb_thread :: "(bool \<Rightarrow> 's \<Rightarrow> 's result) \<Rightarrow> 's bb_process \<Rightarrow> 's bb_process result" where
  "bb_thread f p = bindE (f (bp_live p) (bp_server p)) (\<lambda>s. Inr (p\<lparr>bp_server := s\<rparr>))"

fun bb_step ::
  "'a bb_server_scheme vtable \<Rightarrow> (bool \<Rightarrow> recv_event \<Rightarrow> 'a bb_server_scheme \<Rightarrow> 'a bb_server_scheme result) \<Rightarrow>
   ('a bb_server_scheme \<Rightarrow> 'a bb_server_scheme result) option \<Rightarrow>
   bb_event \<Rightarrow> 'a bb_server_scheme bb_process \<Rightarrow> 'a bb_server_scheme bb_process result" where
  "bb_step vt listener beat (ServerSocket src r) p = bb_thread (\<lambda>live. Server_listen vt src live r) p"
| "bb_step vt listener beat (PrimarySocket r) p = bb_thread (\<lambda>live. listener live r) p"
| "bb_step vt listener beat HeartbeatRound p =
     (case beat of None \<Rightarrow> Inr p | Some b \<Rightarrow> bb_thread (\<lambda>live. b) p)"
| "bb_step vt listener beat (ConsoleLine szUserInput) p = Inr (if bp_live p then bb_console szUserInput p else p)"

definition seq_process_step :: "bb_event \<Rightarrow> seq_server bb_process \<Rightarrow> seq_server bb_process result" where
  "seq_process_step = bb_step seq_vtable primary_backup_listenImpl None"

definition qum_process_step ::
  "(SAddr list \<Rightarrow> nat \<Rightarrow> SAddr) \<Rightarrow> (nat \<Rightarrow> nat) \<Rightarrow> bb_event \<Rightarrow> qum_server bb_process \<Rightarrow> qum_server bb_process result" where
  "qum_process_step freed rnd = bb_step qum_vtable (quorum_listenImpl freed rnd) (Some qum_heartBeat)"

definition lw_process_step :: "bb_event \<Rightarrow> lw_server bb_process \<Rightarrow> lw_server bb_process result" where
  "lw_process_step = bb_step lw_vtable LocalWrite_listenImpl None"

section \<open>What a protocol promises\<close>

text \<open>
  A protocol's handlers leave the role and the address vectors of the server alone: then a
  coordinator keeps them sound through any run.
\<close>

definition book :: "'a bb_server_scheme \<Rightarrow> bool \<times> SAddr list \<times> SAddr list" where
  "book s = (IsCoordinator s, SIPs s, CIPs s)"

lemma addrs_inv_book: "book s' = book s \<Longrightarrow> addrs_inv s' = addrs_inv s"
  by (simp add: book_def addrs_inv_def)

definition bb_stop :: "bb_event \<Rightarrow> bool" where
  "bb_stop e \<longleftrightarrow> e = ConsoleLine ''exit''"

definition bb_silent :: "bb_event \<Rightarrow> bool" where
  "bb_silent e \<longleftrightarrow> e = PrimarySocket Silence \<or> (\<exists>src. e = ServerSocket src Silence)"

text \<open>Only requests and the protocol's own messages and rounds can fault.\<close>

definition bb_may_end :: "bb_event \<Rightarrow> 's bb_process \<Rightarrow> fault \<Rightarrow> bool" where
  "bb_may_end e p f \<longleftrightarrow>
     (case e of
        ServerSocket src (Datagram d) \<Rightarrow> is_request d
      | ServerSocket src Silence \<Rightarrow> f = Exit (- 1) \<and> \<not> bp_live p
      | PrimarySocket (Datagram d) \<Rightarrow> True
      | PrimarySocket Silence \<Rightarrow> f = Exit (- 1) \<and> \<not> bp_live p
      | HeartbeatRound \<Rightarrow> True
      | ConsoleLine l \<Rightarrow> False)"

locale protocol =
  fixes vt :: "'a bb_server_scheme vtable"
    and handle :: "string \<Rightarrow> 'a bb_server_scheme \<Rightarrow> 'a bb_server_scheme result"
    and beat :: "('a bb_server_scheme \<Rightarrow> 'a bb_server_scheme result) option"
  assumes handlers: "Post_handler vt a r s = Inr s' \<Longrightarrow> book s' = book s"
      "Read_handler vt a s = Inr s' \<Longrightarrow> book s' = book s"
      "Choose_handler vt a r s = Inr s' \<Longrightarrow> book s' = book s"
      "Reply_handler vt a r s = Inr s' \<Longrightarrow> book s' = book s"
    and handle: "handle d s = Inr s' \<Longrightarrow> book s' = book s"
    and beats: "beat = Some b \<Longrightarrow> b s = Inr s' \<Longrightarrow> book s' = book s"
begin

lemma keeps: "keeps_addrs vt"
  using handlers(1) [THEN addrs_inv_book] handlers(2) [THEN addrs_inv_book]
    handlers(3) [THEN addrs_inv_book] handlers(4) [THEN addrs_inv_book]
  unfolding keeps_addrs_def by blast

abbreviation turn where "turn \<equiv> bb_step vt (\<lambda>live r s. on_recv handle (- 1) live r s) beat"

lemma DeregisterS_inv: "addrs_inv s \<Longrightarrow> addrs_inv (DeregisterS s)"
  by (simp add: DeregisterS_def Let_def addrs_inv_remove)

lemma step_inv:
  assumes "addrs_inv (bp_server p)"
  shows "turn e p = Inr p' \<Longrightarrow> addrs_inv (bp_server p')" "turn e p = Inl f \<Longrightarrow> bb_may_end e p f"
proof -
  have l: "addrs_inv s'" if "bb_listen_step vt src d (bp_server p) = Inr s'" for src d s'
    using coordinator_step_invariant [OF assms keeps, where src = src and d = d] that by simp
  have f: "is_request d" if "bb_listen_step vt src d (bp_server p) = Inl e" for src d e
    using coordinator_step_invariant [OF assms keeps, where src = src and d = d] that by simp
  note b = addrs_inv_book [THEN iffD2, OF _ assms]
  show "turn e p = Inr p' \<Longrightarrow> addrs_inv (bp_server p')"
    using assms
    by (cases e) (auto simp: bb_thread_def Server_listen_def on_recv_Inr bindE_Inr_iff bb_console_def DeregisterS_inv
      split: option.splits if_splits dest: l handle [THEN b] beats [THEN b])
  show "turn e p = Inl f \<Longrightarrow> bb_may_end e p f"
    by (cases e) (auto simp: bb_may_end_def bb_thread_def Server_listen_def on_recv_Inl bindE_Inl_iff
      split: option.splits recv_event.splits dest: f)
qed

end

text \<open>The shutdown needs no promise of the protocol.\<close>

lemma bb_step_flag:
  assumes "bb_step vt (\<lambda>live r s. on_recv handle (- 1) live r s) beat e p = Inr p'"
  shows "bp_live p' \<longleftrightarrow> bp_live p \<and> \<not> bb_stop e"
  using assms by (cases e) (auto simp: bb_thread_def bindE_Inr_iff bb_stop_def bb_console_def split: option.splits if_splits)

lemma bb_step_silence:
  "bb_silent e \<Longrightarrow> bb_step vt (\<lambda>live r s. on_recv handle (- 1) live r s) beat e p = (if bp_live p then Inr p else Inl (Exit (- 1)))"
  by (auto simp: bb_silent_def bb_thread_def Server_listen_def)

sublocale protocol \<subseteq> stoppable turn "\<lambda>p. addrs_inv (bp_server p)" bb_may_end bp_live bb_stop bb_silent "- 1"
  by unfold_locales (auto dest: step_inv simp: bb_step_flag bb_step_silence)

section \<open>The protocols\<close>

lemma book_simps [simp]:
  "book (UDP_send ip p m s) = book s" "book (s\<lparr>outbox := out\<rparr>) = book s" "book (s\<lparr>inbox := inb\<rparr>) = book s"
  "book (s\<lparr>articles := as\<rparr>) = book s"
  by (simp_all add: book_def UDP_send_def)

lemma book_fold_send [simp]: "book (fold (\<lambda>it. UDP_send (f it) p m) l s) = book s"
  by (induction l arbitrary: s) simp_all

lemma book_receive: "UDP_receive p s = Inr (d, s') \<Longrightarrow> book s' = book s"
  by (auto simp: UDP_receive_def split: list.splits if_splits)

lemma book_sendArticle: "sendArticle ip p s = Inr s' \<Longrightarrow> book s' = book s"
  by (auto simp: sendArticle_def Let_def bindE_Inr_iff)

lemma book_seq [simp]:
  "book (s\<lparr>seq_ID := i\<rparr>) = book s" "book (s\<lparr>requestQ := q\<rparr>) = book s" "book (s\<lparr>ack_num := a\<rparr>) = book s"
  by (simp_all add: book_def)

lemma seq_update_book: "seq_update_backup r s = Inr (b, s') \<Longrightarrow> book s' = book s"
  by (auto simp: seq_update_backup_def Let_def bindE_Inr_iff split: option.splits prod.splits)

lemma seq_listen_book: "seq_listen_step d s = Inr s' \<Longrightarrow> book s' = book s"
  by (auto simp: seq_listen_step_tokens Let_def bindE_Inr_iff seq_forward_step_def seq_forward_update_def seq_ack_step_def
      seq_update_step_def dest!: seq_update_book split: if_splits seq_command.splits prod.splits)

lemma seq_vtable_book:
  "Post_handler seq_vtable a r s = Inr s' \<Longrightarrow> book s' = book s" "Read_handler seq_vtable a s = Inr s' \<Longrightarrow> book s' = book s"
  "Choose_handler seq_vtable a r s = Inr s' \<Longrightarrow> book s' = book s" "Reply_handler seq_vtable a r s = Inr s' \<Longrightarrow> book s' = book s"
  by (auto simp: seq_vtable_def seq_Post_handler_def seq_Read_handler_def seq_Choose_handler_def seq_Reply_handler_def
      seq_forwardW2_def Let_def bindE_Inr_iff dest!: book_receive book_sendArticle)

interpretation seq_bb: protocol seq_vtable seq_listen_step None
  by unfold_locales (auto dest: seq_vtable_book seq_listen_book)

lemma book_write [simp]: "book (writeArticle c h s) = book s"
  by (simp add: writeArticle_def book_def)

lemma ask_book: "ask ip p c s = Inr (r, s') \<Longrightarrow> book s' = book s"
  by (auto simp: ask_def dest!: book_receive)

lemma loadArticle_book: "loadArticle c s = Inr s' \<Longrightarrow> book s' = book s"
  by (auto simp: loadArticle_def bindE_Inr_iff)

lemma newest_loop_book: "newest_loop c l m n s = Inr (r, s') \<Longrightarrow> book s' = book s"
  by (induction c l m n s rule: newest_loop.induct)
    (fastforce simp: bindE_Inr_iff split: if_splits dest: ask_book)+

lemma write_loop_book: "write_loop c t h l s = Inr s' \<Longrightarrow> book s' = book s"
  by (induction c t h l s rule: write_loop.induct) (fastforce simp: bindE_Inr_iff split: if_splits dest: ask_book)+

lemma synch_loop_book: "synch_loop c t l s = Inr s' \<Longrightarrow> book s' = book s"
  by (induction c t l s rule: synch_loop.induct)
    (fastforce simp: bindE_Inr_iff split: if_splits dest: ask_book loadArticle_book)+

lemma getNewestServer_book: "getNewestServer l s = Inr (h, s') \<Longrightarrow> book s' = book s"
  by (auto simp: getNewestServer_def Let_def bindE_Inr_iff split: option.splits dest: newest_loop_book)

lemma fetch_newest_book: "fetch_newest l p s = Inr (r, s') \<Longrightarrow> book s' = book s"
  by (auto simp: fetch_newest_def bindE_Inr_iff split: if_splits
      dest!: getNewestServer_book book_receive book_sendArticle)

lemma synchSelectedServer_book: "synchSelectedServer l c s = Inr s' \<Longrightarrow> book s' = book s"
  by (simp add: synchSelectedServer_def Let_def synch_loop_book)

lemma writeSelectedServer_book: "writeSelectedServer l c h s = Inr (b, s') \<Longrightarrow> book s' = book s"
  by (auto simp: writeSelectedServer_def Let_def bindE_Inr_iff dest: write_loop_book)

lemma qum_heartBeat_book: "qum_heartBeat s = Inr s' \<Longrightarrow> book s' = book s"
  by (auto simp: qum_heartBeat_def bindE_Inr_iff split: if_splits dest!: fetch_newest_book synchSelectedServer_book)

lemma FORWARD_read_book: "FORWARD_read freed rnd h p s = Inr s' \<Longrightarrow> book s' = book s"
  by (auto simp: FORWARD_read_def bindE_Inr_iff split: if_splits dest!: getNewestServer_book book_sendArticle)

lemma FORWARD_post_book: "FORWARD_post freed rnd r h p c s = Inr s' \<Longrightarrow> book s' = book s"
  by (auto simp: FORWARD_post_def bindE_Inr_iff split: if_splits prod.splits
      dest!: writeSelectedServer_book fetch_newest_book synchSelectedServer_book)

lemma FORWARD_synch_book: "FORWARD_synch h p s = Inr s' \<Longrightarrow> book s' = book s"
  by (auto simp: FORWARD_synch_def bindE_Inr_iff split: if_splits prod.splits
      dest!: fetch_newest_book synchSelectedServer_book)

lemma FORWARD_handler_book: "FORWARD_handler freed rnd r s = Inr s' \<Longrightarrow> book s' = book s"
  by (auto simp: FORWARD_handler_def Let_def bindE_Inr_iff split: if_splits prod.splits
      dest!: FORWARD_read_book FORWARD_post_book FORWARD_synch_book)

lemma qum_listen_book: "qum_listen_step freed rnd d s = Inr s' \<Longrightarrow> book s' = book s"
  by (auto simp: qum_listen_step_def Let_def bindE_Inr_iff split: if_splits prod.splits qum_command.splits option.splits
      dest!: FORWARD_handler_book book_sendArticle loadArticle_book)

lemma qum_forward_book [simp]: "book (qum_forward r s) = book s"
  by (simp add: qum_forward_def)

lemma qum_Reply_book: "qum_Reply_handler a r s = Inr s' \<Longrightarrow> book s' = book s"
  unfolding qum_Reply_handler_def bindE_Inr_iff
  by (auto simp: bindE_Inr_iff split: if_splits option.splits dest!: getNewestServer_book ask_book)

lemma qum_vtable_book:
  "Post_handler qum_vtable a r s = Inr s' \<Longrightarrow> book s' = book s" "Read_handler qum_vtable a s = Inr s' \<Longrightarrow> book s' = book s"
  "Choose_handler qum_vtable a r s = Inr s' \<Longrightarrow> book s' = book s" "Reply_handler qum_vtable a r s = Inr s' \<Longrightarrow> book s' = book s"
  by (auto simp: qum_vtable_def qum_Post_handler_def qum_Read_handler_def qum_Choose_handler_def split: if_splits dest: qum_Reply_book)

interpretation qum_bb: protocol qum_vtable "qum_listen_step freed rnd" "Some qum_heartBeat"
  by unfold_locales (auto dest: qum_vtable_book qum_listen_book qum_heartBeat_book)

text \<open>The read-your-write server changes its role as it runs; its shutdown is that of the others.\<close>

lemma step_eqs:
  "seq_process_step = bb_step seq_vtable (\<lambda>live r s. on_recv seq_listen_step (- 1) live r s) None"
  "qum_process_step freed rnd = bb_step qum_vtable (\<lambda>live r s. on_recv (qum_listen_step freed rnd) (- 1) live r s) (Some qum_heartBeat)"
  "lw_process_step = bb_step lw_vtable (\<lambda>live r s. on_recv lw_listen_step (- 1) live r s) None"
proof -
  have "primary_backup_listenImpl = (\<lambda>live r s. on_recv seq_listen_step (- 1) live r s)"
    "quorum_listenImpl freed rnd = (\<lambda>live r s. on_recv (qum_listen_step freed rnd) (- 1) live r s)"
    "LocalWrite_listenImpl = (\<lambda>live r s. on_recv lw_listen_step (- 1) live r s)"
    by (intro ext, simp only: primary_backup_listenImpl_def quorum_listenImpl_def LocalWrite_listenImpl_def)+
  then show "seq_process_step = bb_step seq_vtable (\<lambda>live r s. on_recv seq_listen_step (- 1) live r s) None"
    "qum_process_step freed rnd = bb_step qum_vtable (\<lambda>live r s. on_recv (qum_listen_step freed rnd) (- 1) live r s) (Some qum_heartBeat)"
    "lw_process_step = bb_step lw_vtable (\<lambda>live r s. on_recv lw_listen_step (- 1) live r s) None"
    by (simp_all only: seq_process_step_def qum_process_step_def lw_process_step_def)
qed

interpretation lw_threads: stoppable lw_process_step "\<lambda>_. True" "\<lambda>_ _ _. True" bp_live bb_stop bb_silent "- 1"
  by unfold_locales (simp_all add: step_eqs bb_step_flag bb_step_silence)

definition exit_heard :: "bb_event list \<Rightarrow> bool" where
  "exit_heard es \<longleftrightarrow> (\<exists>es1 es2. es = es1 @ ConsoleLine ''exit'' # es2 \<and> (\<exists>e\<in>set es2. bb_silent e))"

definition coordinator_outcome ::
  "(bb_event \<Rightarrow> 'a bb_server_scheme bb_process \<Rightarrow> 'a bb_server_scheme bb_process result) \<Rightarrow> bb_event list \<Rightarrow>
   'a bb_server_scheme bb_process \<Rightarrow> bool" where
  "coordinator_outcome step es p \<longleftrightarrow>
     (case run_events step es p of
        Inr p' \<Rightarrow> addrs_inv (bp_server p') \<and> (bp_live p' \<longleftrightarrow> ConsoleLine ''exit'' \<notin> set es) \<and> \<not> exit_heard es
      | Inl f \<Rightarrow> \<exists>es1 e es2 p1. es = es1 @ e # es2 \<and> run_events step es1 p = Inr p1
          \<and> (if bb_silent e then f = Exit (- 1) \<and> ConsoleLine ''exit'' \<in> set es1
             else e = HeartbeatRound \<or> (\<exists>d. e = PrimarySocket (Datagram d) \<or> (\<exists>src. e = ServerSocket src (Datagram d) \<and> is_request d))))"

context protocol
begin

lemma coordinator_run:
  assumes "addrs_inv (bp_server p)" "bp_live p"
  shows "coordinator_outcome turn es p"
proof (cases "run_events turn es p")
  case (Inr p')
  then show ?thesis using run_outcome [OF assms, of es]
    by (auto simp: outcome_def coordinator_outcome_def bb_stop_def exit_heard_def)
next
  case (Inl f)
  then obtain es1 e es2 p1 where r: "es = es1 @ e # es2" "run_events turn es1 p = Inr p1"
    "if bb_silent e then f = Exit (- 1) \<and> (\<exists>e'\<in>set es1. bb_stop e') else bb_may_end e p1 f"
    using run_outcome [OF assms, of es] by (auto simp: outcome_def)
  from r(3) show ?thesis unfolding coordinator_outcome_def Inl sum.case
    by (intro exI [of _ es1] exI [of _ e] exI [of _ es2] exI [of _ p1] conjI r(1,2))
      (auto simp: bb_stop_def bb_silent_def bb_may_end_def split: if_splits bb_event.splits recv_event.splits)
qed

end

text \<open>
  C24: every run of a coordinator of the sequential or the quorum protocol, whatever its
  sockets, its heartbeat and its console get in whatever order, keeps both address vectors
  free of duplicates and full of valid addresses. Control messages and console lines never
  end it. After \<open>exit\<close> was typed, and only then, the first silent listener ends the process
  with code -1.
\<close>

theorem coordinator_runs:
  assumes "addrs_inv (bp_server p)" "bp_live p" "addrs_inv (bp_server q)" "bp_live q"
  shows "coordinator_outcome seq_process_step es p \<and> coordinator_outcome (qum_process_step freed rnd) es' q"
  using seq_bb.coordinator_run [OF assms(1,2)] qum_bb.coordinator_run [OF assms(3,4)] by (simp add: step_eqs)

definition sample_process :: "'s \<Rightarrow> 's bb_process" where
  "sample_process s = \<lparr>bp_server = s, bp_live = True, bp_shell = []\<rparr>"

definition seq_coordinator :: seq_server where
  "seq_coordinator = \<lparr>local_ip = ''10.0.0.1'', inbox = (\<lambda>_. []), outbox = [], coordinatorIP = ''10.0.0.1'',
     IsCoordinator = True, SIPs = [\<lparr>sa_ip = ''10.0.0.1'', sa_port = 5105\<rparr>], CIPs = [], articles = [],
     seq_ID = 0, requestQ = [], ack_num = []\<rparr>"

lemma coordinator_runs_witness:
  "run_events seq_process_step [ConsoleLine ''exit'', PrimarySocket Silence] (sample_process seq_coordinator) = Inl (Exit (- 1))
     \<and> coordinator_outcome seq_process_step [ConsoleLine ''exit'', PrimarySocket Silence] (sample_process seq_coordinator)
     \<and> coordinator_outcome (qum_process_step (\<lambda>l k. l ! k) (\<lambda>i. i)) [HeartbeatRound] (sample_process (qum_sample three_servers 2 2))"
proof -
  have "isValidIP ''10.0.0.1''" "isValidIP ''10.0.0.2''" "isValidIP ''10.0.0.3''" "isValidPort 5105" by code_simp+
  then have "addrs_inv (bp_server (sample_process seq_coordinator))" "addrs_inv (bp_server (sample_process (qum_sample three_servers 2 2)))"
    by (simp_all add: sample_process_def seq_coordinator_def qum_sample_def three_servers_def addrs_inv_def addrs_ok_def addr_ok_def bb_key_def)
  from coordinator_runs [OF this(1) _ this(2), of "[ConsoleLine ''exit'', PrimarySocket Silence]" "\<lambda>l k. l ! k" "\<lambda>i. i" "[HeartbeatRound]"]
  show ?thesis
    by (simp add: sample_process_def seq_process_step_def bb_console_def bb_thread_def primary_backup_listenImpl_def)
qed

end
