(* ===== verification/BBGroup.thy ===== *)
theory BBGroup
  imports SeqServer LocalWriteServer QuorumServer
begin

text \<open>
  The start of a bulletin board server (\<open>main\<close> of Project2/Server/Server.cpp) and how it
  joins the group: the protocol asked for, coordinator or member, registration at the
  coordinator, and the server list the member gets back. \<open>aton\<close> stands for \<open>inet_aton\<close>,
  \<open>sent\<close> for whether \<open>sendto\<close> succeeds.
\<close>

section \<open>Start-up\<close>

datatype group = SeqGroup seq_server | QumGroup qum_server | LwGroup lw_server

text \<open>Without an argument the server is the coordinator, else it registers at that host.\<close>

definition enlist :: "(string \<Rightarrow> bool) \<Rightarrow> bool \<Rightarrow> string option \<Rightarrow> 'a bb_server_scheme \<Rightarrow> 'a bb_server_scheme result" where
  "enlist aton sent host s =
     (case host of None \<Rightarrow> Inr s
      | Some serverIP \<Rightarrow>
          if \<not> IsCoordinator s \<and> \<not> aton (cstr serverIP) then Inl (Exit 1)
          else let (suc_re, s1) = RegisterS sent serverIP s
               in if suc_re < 0 then Inl (Exit (- 1)) else Inr s1)"

definition group_main ::
  "(string \<Rightarrow> bool) \<Rightarrow> bool \<Rightarrow> int \<Rightarrow> string option \<Rightarrow> string \<Rightarrow> (int \<Rightarrow> string list) \<Rightarrow> string list \<Rightarrow> group result" where
  "group_main aton sent type host ip inb console =
     (if type = 1 then
        bindE (seq_init ip inb (host = None)) (\<lambda>s. bindE (enlist aton sent host s) (\<lambda>s1. Inr (SeqGroup s1)))
      else if type = 2 then
        bindE (qum_init ip inb (host = None) console) (\<lambda>s. bindE (enlist aton sent host s) (\<lambda>s1. Inr (QumGroup s1)))
      else
        bindE (lw_init ip inb (host = None)) (\<lambda>s. bindE (enlist aton sent host s) (\<lambda>s1. Inr (LwGroup s1))))"

section \<open>Joining\<close>

lemma listen_register:
  assumes "isValidIP ip" "CHR 0x00 \<notin> set ip" "IsCoordinator coord"
  shows "bb_listen_step vt src (''RegisterS;'' @ ip @ '';'' @ to_string SERVERPORT @ '';'') coord
     = bb_register_server ip SERVERPORT coord"
    "cstr (''RegisterS;'' @ ip @ '';'' @ to_string SERVERPORT @ '';'') = ''RegisterS;'' @ ip @ '';'' @ to_string SERVERPORT @ '';''"
proof -
  let ?d = "''RegisterS;'' @ ip @ '';'' @ ''5105'' @ '';''"
  have p: "to_string SERVERPORT = ''5105''" "atoi ''5105'' = SERVERPORT" by code_simp+
  have f: "ip \<noteq> []" "CHR '';'' \<notin> set ip" "length ip \<le> 15"
    using assms(1,2) isValidIP_clean [of ip] isValidIP_not_Nil [of ip] isValidIP_length [of ip] by auto
  have c: "cstr ?d = ?d" and l: "length ?d < BB_BUFLEN" using assms(2) f by simp_all
  then show "cstr (''RegisterS;'' @ ip @ '';'' @ to_string SERVERPORT @ '';'') = ''RegisterS;'' @ ip @ '';'' @ to_string SERVERPORT @ '';''"
    by (simp add: p)
  have "tokens '';'' ?d = [''RegisterS'', ip, ''5105'']"
    using tokens_join_app [of "[''RegisterS'', ip, ''5105'']" "CHR '';''" "[]"] f by simp
  moreover have "cstr (take BB_BUFLEN ?d) = ?d" using c l by (simp add: take_all del: append_Cons)
  ultimately show "bb_listen_step vt src (''RegisterS;'' @ ip @ '';'' @ to_string SERVERPORT @ '';'') coord
     = bb_register_server ip SERVERPORT coord"
    using assms(1,3) p unfolding bb_listen_step_tokens Let_def
    by (simp add: isValidPort_def del: append_Cons)
qed

text \<open>The list of up to 301 servers fits one datagram.\<close>

lemma fresh_message_fits:
  assumes "fresh_message s = Inr msg" "addrs_ok (SIPs s)" "length (SIPs s) \<le> 301"
  shows "length msg \<le> BB_BUFLEN"
proof -
  obtain a l where al: "SIPs s = a # l" using assms(1) by (cases "SIPs s") (auto simp: fresh_message_def)
  have a: "addr_ok a" and all: "list_all addr_ok (SIPs s)" using assms(2) al by (auto simp: addrs_ok_def)
  have "length (concat (map addr_entry ls)) \<le> 22 * length ls" if "list_all addr_ok ls" for ls
    using that
  proof (induction ls)
    case (Cons x xs)
    then show ?case using addr_ok_clean(4) [of x] by simp
  qed simp
  from this [OF all] have "length (list_text (SIPs s)) \<le> 6622" using assms(3) by (simp add: list_text_def)
  moreover have "msg = ''FreshIPs;'' @ sa_ip a @ '';'' @ to_string (sa_port a) @ '';'' @ list_text (SIPs s)"
    using fresh_message_eq [OF al assms(2)] assms(1) by simp
  ultimately show ?thesis using addr_ok_clean(4) [OF a] by (simp add: addr_entry_def)
qed



end
