(* ===== verification/BBClient.thy ===== *)
theory BBClient
  imports Messages
begin

text \<open>
  The bulletin board client (Project2/Client/client.cpp): the server list it fetches and
  keeps in a file, its requests, the articles it loads, the pages it shows, and the console
  loop. Around it, the record \<open>bbenv\<close>: its address, which strings \<open>inet_aton\<close> accepts, the
  datagram that answers the n-th packet (\<open>None\<close>: none ever comes and \<open>recvfrom\<close> blocks),
  \<open>rand()\<close> and \<open>asctime\<close>. A file is its text, the console the text still to be typed;
  console lines of 8000 characters or more, at which \<open>getline\<close> stops for good, are not
  considered. \<open>bc_shown\<close> collects what the client displays of articles, \<open>bc_shell\<close> the
  texts it gives to \<open>system\<close>, other output is left out.
\<close>

section \<open>State\<close>

record BBServerInfo =
  bs_addr :: string
  bs_port :: int

record LocalArticle =
  la_id :: int
  la_hierachy :: int
  la_version :: string
  la_title :: string
  la_author :: string
  la_time :: string
  la_content :: string

record bbenv =
  be_ip :: string
  be_aton :: "string \<Rightarrow> bool"
  be_net :: "nat \<Rightarrow> string \<times> int \<times> string \<Rightarrow> string option"
  be_rand :: "nat \<Rightarrow> nat"
  be_asctime :: "nat \<Rightarrow> string"

record bb_client =
  serverList :: "BBServerInfo list"
  articleList :: "LocalArticle list"
  READ_BUFFER :: string
  bc_files :: "string \<Rightarrow> string"
  bc_shown :: "string list"
  bc_out :: "(string \<times> int \<times> string) list"

abbreviation PAGESIZE :: nat where "PAGESIZE \<equiv> 3"

section \<open>Datagrams\<close>

definition bc_send :: "bbenv \<Rightarrow> string \<Rightarrow> int \<Rightarrow> string \<Rightarrow> 'a bb_client_scheme \<Rightarrow> 'a bb_client_scheme result" where
  "bc_send env target targetport message s =
     (if be_aton env (cstr target)
      then Inr (s\<lparr>bc_out := bc_out s @ [(target, targetport mod 65536, cstr message)]\<rparr>)
      else Inl (Exit 1))"

text \<open>
  At most 8000 bytes arrive in a buffer of \<open>room\<close> bytes, and a NUL is stored behind them.
\<close>

definition bc_receive :: "nat \<Rightarrow> string option \<Rightarrow> string result" where
  "bc_receive room answer =
     (case answer of None \<Rightarrow> Inl Blocked
      | Some d \<Rightarrow> let n = min (length d) BB_BUFLEN in if room \<le> n then Inl OutOfBounds else Inr (cstr (take n d)))"

definition bc_exchange ::
  "bbenv \<Rightarrow> nat \<Rightarrow> string \<Rightarrow> int \<Rightarrow> string \<Rightarrow> 'a bb_client_scheme \<Rightarrow> (string \<times> 'a bb_client_scheme) result" where
  "bc_exchange env room host port command s =
     bindE (bc_send env host port command s) (\<lambda>s1.
     bindE (bc_receive room (be_net env (length (bc_out s)) (host, port mod 65536, cstr command))) (\<lambda>buffer.
       Inr (buffer, s1)))"

section \<open>The server list\<close>

fun server_lines :: "string list \<Rightarrow> string" where
  "server_lines [] = []"
| "server_lines [addr] = addr @ '' '' @ [CHR 0x0A]"
| "server_lines (addr # port # ts) = addr @ '' '' @ port @ [CHR 0x0A] @ server_lines ts"

definition writeServer :: "bbenv \<Rightarrow> string \<Rightarrow> int \<Rightarrow> string \<Rightarrow> 'a bb_client_scheme \<Rightarrow> 'a bb_client_scheme result" where
  "writeServer env host port filename s =
     bindE (strcpy_buf BB_BUFLEN (''GETLIST;'' @ be_ip env @ '';'' @ to_string port @ '';'')) (\<lambda>command.
     bindE (bc_exchange env BB_BUFLEN host SERVERPORT command s) (\<lambda>(content, s1).
     bindE (Split content '';'') (\<lambda>t.
       Inr (s1\<lparr>bc_files := (bc_files s1)(filename := server_lines (rest_tokens t))\<rparr>))))"

text \<open>\<open>getline\<close> on a file: the lines, and what follows the last newline when there is any.\<close>

definition file_lines :: "string \<Rightarrow> string list" where
  "file_lines content =
     (let ls = split_on (CHR 0x0A) content in if last ls = [] then butlast ls else ls)"

definition blanks :: string where
  "blanks = [CHR '' '', CHR 0x09, CHR 0x0A, CHR 0x0B, CHR 0x0C, CHR 0x0D]"

text \<open>\<open>ss >> x\<close> reads blank separated words; \<open>stoi\<close> of a missing port throws.\<close>

fun read_lines :: "string list \<Rightarrow> BBServerInfo list \<Rightarrow> BBServerInfo list result" where
  "read_lines [] l = Inr l"
| "read_lines (line # ls) l =
     (let ws = tokens blanks line in
      bindE (stoi (tok_at ws 1)) (\<lambda>port. read_lines ls (l @ [\<lparr>bs_addr = tok_at ws 0, bs_port = port\<rparr>])))"

definition readServer :: "string \<Rightarrow> 'a bb_client_scheme \<Rightarrow> 'a bb_client_scheme result" where
  "readServer filename s =
     bindE (read_lines (file_lines (bc_files s filename)) (serverList s)) (\<lambda>l. Inr (s\<lparr>serverList := l\<rparr>))"

text \<open>Every caller looks at the server picked; an empty list has none.\<close>

definition pickRandomServer :: "bbenv \<Rightarrow> 'a bb_client_scheme \<Rightarrow> BBServerInfo result" where
  "pickRandomServer env s =
     (if serverList s = [] then Inl OutOfBounds
      else Inr (serverList s ! (be_rand env (length (bc_out s)) mod length (serverList s))))"

definition pickServer :: "nat \<Rightarrow> 'a bb_client_scheme \<Rightarrow> BBServerInfo result" where
  "pickServer index s =
     (if index < length (serverList s) then Inr (serverList s ! index) else Inl OutOfBounds)"

section \<open>Articles and pages\<close>

fun load_articles :: "nat \<Rightarrow> string list \<Rightarrow> LocalArticle list result" where
  "load_articles i [] = Inr []"
| "load_articles i (article # as) =
     bindE (Split article '';'') (\<lambda>t0.
       let (version, t1) = GetNext t0; (title, t2) = GetNext t1; (author, t3) = GetNext t2;
           (time, t4) = GetNext t3; (content, t5) = GetNext t4; (hierachy, t6) = GetNext t5
       in bindE (stoi hierachy) (\<lambda>h.
          bindE (load_articles (Suc i) as) (\<lambda>l.
            Inr (\<lparr>la_id = int i + 1, la_hierachy = h, la_version = version, la_title = title,
                  la_author = author, la_time = time, la_content = content\<rparr> # l))))"

definition loadReadContent :: "string \<Rightarrow> 'a bb_client_scheme \<Rightarrow> (nat \<times> 'a bb_client_scheme) result" where
  "loadReadContent buffer s =
     bindE (Split buffer ''$'') (\<lambda>t.
     bindE (load_articles 0 (rest_tokens t)) (\<lambda>l. Inr (GetSize t, s\<lparr>articleList := l\<rparr>)))"

definition article_row :: "LocalArticle \<Rightarrow> string" where
  "article_row it =
     to_string (la_id it) @ concat (replicate (nat (la_hierachy it)) ''    '') @ ''   --'' @ la_title it
       @ ''--('' @ la_time it @ ''  by '' @ la_author it @ ''): '' @ take 50 (la_content it) @ ''...''"

text \<open>
  \<open>advance\<close> before the begin or past the end is undefined, and at the end the loop still
  reads the article.
\<close>

definition printReadContent :: "int \<Rightarrow> nat \<Rightarrow> 'a bb_client_scheme \<Rightarrow> 'a bb_client_scheme result" where
  "printReadContent start len s =
     bindE (if articleList s = [] then bindE (loadReadContent (READ_BUFFER s) s) (\<lambda>(n, s1). Inr s1) else Inr s) (\<lambda>s1.
       if articleList s1 = [] then Inr s1
       else if start < 1 \<or> int (length (articleList s1)) < start - 1 then Inl OutOfBounds
       else if len = 0 then Inr s1
       else if nat (start - 1) = length (articleList s1) then Inl OutOfBounds
       else Inr (s1\<lparr>bc_shown := bc_shown s1 @ map article_row (take len (drop (nat (start - 1)) (articleList s1)))\<rparr>))"

definition printPage :: "int \<Rightarrow> 'a bb_client_scheme \<Rightarrow> 'a bb_client_scheme result" where
  "printPage page s = printReadContent ((page - 1) * int PAGESIZE + 1) PAGESIZE s"

definition articleToPage :: "nat \<Rightarrow> nat" where
  "articleToPage articleNum =
     (if articleNum mod PAGESIZE = 0 then articleNum div PAGESIZE else articleNum div PAGESIZE + 1)"

section \<open>Requests\<close>

text \<open>
  With feedback the answer is [message;result]: 1 is success, 0 failure, and with any other
  number the function ends without a value.
\<close>

definition communicate_request ::
  "bbenv \<Rightarrow> nat \<Rightarrow> string \<Rightarrow> int \<Rightarrow> string \<Rightarrow> bool \<Rightarrow> 'a bb_client_scheme \<Rightarrow> (bool \<times> string \<times> 'a bb_client_scheme) result" where
  "communicate_request env room host port command needFeedBack s =
     bindE (bc_exchange env room host port command s) (\<lambda>(buffer, s1).
       if \<not> needFeedBack then Inr (True, buffer, s1)
       else bindE (Split buffer '';'') (\<lambda>t0.
         let (message, t1) = GetNext t0; (result, t2) = GetNext t1
         in bindE (stoi result) (\<lambda>r.
              if r = 1 then Inr (True, buffer, s1)
              else if r = 0 then Inr (False, buffer, s1)
              else Inl NoReturn)))"

definition bbc_Read :: "bbenv \<Rightarrow> 'a bb_client_scheme \<Rightarrow> (nat \<times> 'a bb_client_scheme) result" where
  "bbc_Read env s =
     bindE (pickRandomServer env s) (\<lambda>it.
       let command = snprintf_buf BB_BUFLEN (''READ;'' @ be_ip env @ '';'' @ to_string CLIENTPORT) in
       bindE (communicate_request env BB_BUFLEN (bs_addr it) (bs_port it) command False s) (\<lambda>(b, buffer, s1).
         loadReadContent buffer (s1\<lparr>READ_BUFFER := buffer\<rparr>)))"

definition bbc_Synch :: "bbenv \<Rightarrow> 'a bb_client_scheme \<Rightarrow> 'a bb_client_scheme result" where
  "bbc_Synch env s =
     bindE (pickRandomServer env s) (\<lambda>it.
       let command = snprintf_buf BB_BUFLEN (''CHOOSE;'' @ be_ip env @ '';'' @ to_string CLIENTPORT) in
       bindE (communicate_request env BB_BUFLEN (bs_addr it) (bs_port it) command False s) (\<lambda>(b, buffer, s1).
         Inr (s1\<lparr>READ_BUFFER := buffer\<rparr>)))"

definition bbc_Post :: "bbenv \<Rightarrow> string \<Rightarrow> 'a bb_client_scheme \<Rightarrow> (bool \<times> 'a bb_client_scheme) result" where
  "bbc_Post env request s =
     bindE (pickRandomServer env s) (\<lambda>it.
       let command = snprintf_buf BB_BUFLEN (''POST;'' @ be_ip env @ '';'' @ to_string CLIENTPORT @ '';'' @ cstr request) in
       bindE (communicate_request env (BB_BUFLEN + 1) (bs_addr it) (bs_port it) command True s) (\<lambda>(b, buffer, s1).
         Inr (b, s1)))"

definition bbc_Reply :: "bbenv \<Rightarrow> int \<Rightarrow> string \<Rightarrow> 'a bb_client_scheme \<Rightarrow> (bool \<times> 'a bb_client_scheme) result" where
  "bbc_Reply env ID request s =
     bindE (pickRandomServer env s) (\<lambda>it.
       let command = snprintf_buf BB_BUFLEN (''REPLY;'' @ be_ip env @ '';'' @ to_string CLIENTPORT @ '';''
             @ to_string ID @ '';'' @ cstr request) in
       bindE (communicate_request env BB_BUFLEN (bs_addr it) (bs_port it) command True s) (\<lambda>(b, buffer, s1).
         Inr (b, s1)))"

text \<open>The ID is compared as an \<open>unsigned int\<close>.\<close>

definition bbc_Choose :: "bbenv \<Rightarrow> int \<Rightarrow> 'a bb_client_scheme \<Rightarrow> 'a bb_client_scheme result" where
  "bbc_Choose env ID s =
     bindE (if articleList s = [] then bindE (bbc_Read env s) (\<lambda>(n, s1). Inr s1) else Inr s) (\<lambda>s1.
       case find_iter (\<lambda>it. la_id it mod 2 ^ 32 = ID mod 2 ^ 32) (articleList s1) of
         None \<Rightarrow> Inr s1
       | Some i \<Rightarrow> Inr (s1\<lparr>bc_shown := bc_shown s1 @ [la_content (articleList s1 ! i)]\<rparr>))"

section \<open>The console\<close>

record bb_console = bb_client +
  currentPage :: int
  articleNum :: nat
  pageNum :: "nat option"
  console_in :: string
  bc_shell :: "string list"

text \<open>\<open>cin.getline\<close> takes a line; \<open>cin >> article\<close> a word, and leaves what follows it.\<close>

definition getline_in :: "bb_console \<Rightarrow> (string \<times> bb_console) result" where
  "getline_in s =
     (case find_iter (\<lambda>c. c = CHR 0x0A) (console_in s) of
        None \<Rightarrow> Inl Blocked
      | Some i \<Rightarrow> Inr (take i (console_in s), s\<lparr>console_in := drop (Suc i) (console_in s)\<rparr>))"

definition read_word :: "bb_console \<Rightarrow> (string \<times> bb_console) result" where
  "read_word s =
     (let rest = dropWhile isspace (console_in s);
          word = takeWhile (\<lambda>c. \<not> isspace c) rest; left = dropWhile (\<lambda>c. \<not> isspace c) rest
      in if left = [] then Inl Blocked else Inr (word, s\<lparr>console_in := left\<rparr>))"

text \<open>[Autor;Title;content] as typed becomes [Version;Title;author;Time;content].\<close>

definition GetGlobleTime :: "bbenv \<Rightarrow> 'a bb_client_scheme \<Rightarrow> string" where
  "GetGlobleTime env s = butlast (be_asctime env (length (bc_out s)))"

definition build_request :: "bbenv \<Rightarrow> string \<Rightarrow> 'a bb_client_scheme \<Rightarrow> string option result" where
  "build_request env article s =
     bindE (Split article '';'') (\<lambda>t0.
       let (autor, t1) = GetNext t0; (title, t2) = GetNext t1; (content, t3) = GetNext t2; (more, t4) = GetNext t3
       in if autor = [] \<or> content = [] \<or> more \<noteq> [] then Inr None
          else Inr (Some (''1;'' @ title @ '';'' @ autor @ '';'' @ GetGlobleTime env s @ '';'' @ content)))"

definition console_post :: "bbenv \<Rightarrow> bb_console \<Rightarrow> bb_console result" where
  "console_post env s =
     bindE (read_word s) (\<lambda>(article, s1).
     bindE (build_request env article s1) (\<lambda>request.
       case request of None \<Rightarrow> Inr s1
       | Some r \<Rightarrow> bindE (bbc_Post env r s1) (\<lambda>(b, s2). Inr s2)))"

definition console_reply :: "bbenv \<Rightarrow> bb_console \<Rightarrow> bb_console result" where
  "console_reply env s =
     bindE (getline_in s) (\<lambda>(buffer, s1).
     bindE (stoi (cstr buffer)) (\<lambda>ID.
       if ID < 0 then Inr s1
       else bindE (read_word s1) (\<lambda>(article, s2).
            bindE (build_request env article s2) (\<lambda>request.
              case request of None \<Rightarrow> Inr s2
              | Some r \<Rightarrow> bindE (bbc_Reply env ID r s2) (\<lambda>(b, s3). Inr s3)))))"

text \<open>One timed operation of the \<open>test\<close> command; the time goes to a log.\<close>

datatype bb_operation = OpREAD | OpPOST string | OpCHOOSE int | OpREPLY int string

definition testOperation :: "bbenv \<Rightarrow> bb_operation \<Rightarrow> bb_console \<Rightarrow> bb_console result" where
  "testOperation env Operation s =
     (case Operation of
        OpREAD \<Rightarrow> bindE (bbc_Read env s) (\<lambda>(Entry, s1). Inr (s1\<lparr>articleNum := Entry\<rparr>))
      | OpPOST request \<Rightarrow> bindE (bbc_Post env request s) (\<lambda>(b, s1). Inr s1)
      | OpCHOOSE Entry \<Rightarrow> bbc_Choose env Entry s
      | OpREPLY Entry request \<Rightarrow> bindE (bbc_Reply env Entry request s) (\<lambda>(b, s1). Inr s1))"

fun test_operations :: "bbenv \<Rightarrow> bb_operation list \<Rightarrow> bb_console \<Rightarrow> bb_console result" where
  "test_operations env [] s = Inr s"
| "test_operations env (op # ops) s = bindE (testOperation env op s) (test_operations env ops)"

definition test_round :: "int \<Rightarrow> bb_operation list" where
  "test_round ID =
     [OpPOST ''1;Title;Author;Time;Content'', OpPOST ''2;Title;Author;Time;Content'', OpREAD,
      OpREPLY ID ''3;Reply to 1;Author;Time;Content'', OpREPLY ID ''4;Reply to 1;Author;Time;Content'', OpREAD]"

definition console_test :: "bbenv \<Rightarrow> bb_console \<Rightarrow> bb_console result" where
  "console_test env = test_operations env (concat (map test_round [0, 1, 2, 3, 4]))"

text \<open>The literal of the \<open>debug\<close> command, its continued lines with their leading blanks.\<close>

definition testBuffer :: string where
  "testBuffer =
     ''1;Test1;Foursay;11:10;This is Conteant;0'' @ replicate 12 (CHR '' '')
     @ ''$2;Test2;Inutto;12:10;This is Content 2, and TryingToReachTheMaxLen;4'' @ replicate 12 (CHR '' '')
     @ ''$3;Test3;Foursay;11:10;This is Content;4$2;Test3;Foursay;11:13;This is Content 3;0'' @ replicate 12 (CHR '' '')
     @ ''$2;Test4;Foursay;11:14;This is Content 4;0$4;Test5;Foursay;11:55;This is Content 5;4'' @ replicate 12 (CHR '' '')
     @ ''$2;Test6;Foursay;11:67;This is Content 6;0''"

definition console_debug :: "bb_console \<Rightarrow> bb_console result" where
  "console_debug s =
     bindE (loadReadContent testBuffer (s\<lparr>READ_BUFFER := testBuffer\<rparr>)) (\<lambda>(n, s1).
       printPage 1 (s1\<lparr>articleNum := n, pageNum := Some (n div PAGESIZE + 1)\<rparr>))"

definition console_read :: "bbenv \<Rightarrow> bb_console \<Rightarrow> bb_console result" where
  "console_read env s =
     bindE (bbc_Read env s) (\<lambda>(n, s1).
       printPage (currentPage s1) (s1\<lparr>articleNum := n, pageNum := Some (articleToPage n)\<rparr>))"

text \<open>\<open>pageNum\<close> has no value before the first read.\<close>

definition console_next :: "bb_console \<Rightarrow> bb_console result" where
  "console_next s =
     (case pageNum s of None \<Rightarrow> Inl OutOfBounds
      | Some n \<Rightarrow> let page = min (currentPage s + 1) (int n) in printPage page (s\<lparr>currentPage := page\<rparr>))"

definition console_back :: "bb_console \<Rightarrow> bb_console result" where
  "console_back s =
     (let page = max (currentPage s - 1) 1 in printPage page (s\<lparr>currentPage := page\<rparr>))"

text \<open>One command; true when it is \<open>exit\<close>.\<close>

definition bb_main_step :: "bbenv \<Rightarrow> bb_console \<Rightarrow> (bool \<times> bb_console) result" where
  "bb_main_step env s =
     bindE (getline_in s) (\<lambda>(line, s1).
       let buffer = cstr line in
       if buffer = ''exit'' then Inr (True, s1)
       else bindE
         (if buffer = ''read'' then console_read env s1
          else if buffer = ''d'' then console_next s1
          else if buffer = ''a'' then console_back s1
          else if buffer = ''choose'' then
            bindE (getline_in s1) (\<lambda>(ID, s2). bindE (stoi (cstr ID)) (\<lambda>n. bbc_Choose env n s2))
          else if buffer = ''post'' then console_post env s1
          else if buffer = ''reply'' then console_reply env s1
          else if buffer = ''test'' then console_test env s1
          else if buffer = ''debug'' then console_debug s1
          else Inr (s1\<lparr>bc_shell := bc_shell s1 @ [buffer]\<rparr>)) (\<lambda>s2. Inr (False, s2)))"

text \<open>Start-up: fetch the list, read it back, look at its first server.\<close>

definition bb_main_start :: "bbenv \<Rightarrow> string \<Rightarrow> string \<Rightarrow> bb_console result" where
  "bb_main_start env registry_host input =
     bindE (writeServer env registry_host SERVERPORT ''serverInfo.txt''
        \<lparr>serverList = [], articleList = [], READ_BUFFER = [], bc_files = (\<lambda>_. []), bc_shown = [], bc_out = [],
         currentPage = 1, articleNum = 0, pageNum = None, console_in = input, bc_shell = []\<rparr>) (\<lambda>s1.
     bindE (readServer ''serverInfo.txt'' s1) (\<lambda>s2.
     bindE (pickServer 0 s2) (\<lambda>it. Inr s2)))"

end
