(* ===== verification/BBReader.thy ===== *)
theory BBReader
  imports BBClient
begin

text \<open>
  What the bulletin board client makes of the servers' answers: the articles a READ is
  answered with are loaded as the server holds them, the server list as the server knows
  it, pages cover the articles, and what the console does with text behind an article.
\<close>

section \<open>Reading articles\<close>

definition local_article :: "nat \<Rightarrow> Article \<Rightarrow> LocalArticle" where
  "local_article i a =
     (let fs = tokens '';'' (hd (art_content a)) in
      \<lparr>la_id = int i + 1, la_hierachy = uint (art_hierachy a), la_version = tok_at fs 0, la_title = tok_at fs 1,
       la_author = tok_at fs 2, la_time = tok_at fs 3, la_content = tok_at fs 4\<rparr>)"

definition local_articles :: "Article list \<Rightarrow> LocalArticle list" where
  "local_articles as = map (\<lambda>(i, a). local_article i a) (enumerate 0 as)"

lemma load_articles_eq:
  "list_all five_fields as \<Longrightarrow> load_articles i (map article_text as) = Inr (map (\<lambda>(i, a). local_article i a) (enumerate i as))"
proof (induction as arbitrary: i)
  case (Cons a as)
  then have "five_fields a" by simp
  then show ?case
    by (elim five_fieldsE) (use Cons in \<open>simp add: local_article_def stoi_to_string\<close>)
qed simp

lemma loadReadContent_eq:
  assumes "list_all five_fields as"
  shows "loadReadContent (article_message as) s = Inr (length as, s\<lparr>articleList := local_articles as\<rparr>)"
proof -
  have "list_all article_clean as" using assms five_fields_clean by (auto simp: list_all_iff)
  then show ?thesis
    by (simp add: loadReadContent_def tokens_article_message load_articles_eq [OF assms] local_articles_def)
qed

lemma length_local_articles [simp]: "length (local_articles as) = length as"
  by (simp add: local_articles_def)

lemma port_texts: "to_string SERVERPORT = ''5105''" "to_string CLIENTPORT = ''5106''"
  by code_simp+

text \<open>
  The contract of a server that answers a READ with its article list, as all protocols but
  the quorum's do. What the client reads from such a server is proved once for them.
\<close>

locale reader_service =
  fixes vt :: "'a bb_server_scheme vtable"
  assumes read_handler: "Read_handler vt = (\<lambda>c. sendArticle (sa_ip c) (sa_port c))"
begin

lemma listen_read:
  assumes "isValidIP ip" "CHR 0x00 \<notin> set ip"
    and "list_all article_clean (articles sv)"
  shows "bb_listen_step vt src (''READ;'' @ ip @ '';'' @ ''5106'') sv =
     Inr (sv\<lparr>articles := sort_key art_ID (articles sv),
       outbox := outbox sv @ [(ip, CLIENTPORT, article_message (sort_key art_ID (articles sv)))]\<rparr>)"
    "cstr (''READ;'' @ ip @ '';'' @ ''5106'') = ''READ;'' @ ip @ '';'' @ ''5106''" "length (''READ;'' @ ip @ '';'' @ ''5106'') < BB_BUFLEN"
proof -
  let ?d = "''READ;'' @ ip @ '';'' @ ''5106''"
  have f: "ip \<noteq> []" "CHR '';'' \<notin> set ip" "length ip \<le> 15"
    using assms(1,2) isValidIP_clean [of ip] isValidIP_not_Nil [of ip] isValidIP_length [of ip] by auto
  show c: "cstr ?d = ?d" and l: "length ?d < BB_BUFLEN" using assms(2) f by simp_all
  have "tokens '';'' ?d = [''READ'', ip, ''5106'']"
    using tokens_join [of "[''READ'', ip, ''5106'']" "CHR '';''"] f by simp
  moreover have "cstr (take BB_BUFLEN ?d) = ?d" using c l by (simp add: take_all del: append_Cons)
  moreover have "atoi ''5106'' = CLIENTPORT" by code_simp
  moreover have "strcpy_buf 16 ip = Inr ip" using assms(2) f by (simp add: strcpy_buf_def)
  ultimately show "bb_listen_step vt src ?d sv =
     Inr (sv\<lparr>articles := sort_key art_ID (articles sv),
       outbox := outbox sv @ [(ip, CLIENTPORT, article_message (sort_key art_ID (articles sv)))]\<rparr>)"
    using assms(1) read_handler sendArticle_eq [OF assms(3), of ip CLIENTPORT]
    unfolding bb_listen_step_tokens Let_def
    by (simp add: isValidPort_def del: append_Cons)
qed

lemma read_roundtrip:
  assumes "isValidIP (be_ip env)" "CHR 0x00 \<notin> set (be_ip env)"
    and "list_all five_fields (articles sv)"
    and "pickRandomServer env s = Inr it" "be_aton env (cstr (bs_addr it))"
    and "length (article_message (sort_key art_ID (articles sv))) < 8000"
  shows "let as = sort_key art_ID (articles sv); m = article_message as; command = ''READ;'' @ be_ip env @ '';'' @ ''5106'' in
     bb_listen_step vt src command sv = Inr (sv\<lparr>articles := as, outbox := outbox sv @ [(be_ip env, 5106, m)]\<rparr>)
     \<and> (be_net env (length (bc_out s)) (bs_addr it, bs_port it mod 65536, command) = Some m \<longrightarrow>
         (\<exists>s'. bbc_Read env s = Inr (length as, s') \<and> articleList s' = local_articles as
            \<and> bc_out s' = bc_out s @ [(bs_addr it, bs_port it mod 65536, command)]))"
proof -
  let ?m = "article_message (sort_key art_ID (articles sv))" and ?c = "''READ;'' @ be_ip env @ '';'' @ ''5106''"
  have r: "list_all five_fields (sort_key art_ID (articles sv))" using assms(3) by (simp add: list_all_iff)
  have cl: "list_all article_clean (articles sv)" "list_all article_clean (sort_key art_ID (articles sv))"
    using assms(3) r five_fields_clean by (auto simp: list_all_iff)
  note listen = listen_read [OF assms(1,2) cl(1)]
  have cmd: "snprintf_buf BB_BUFLEN ?c = ?c"
    using listen(2,3) unfolding snprintf_buf_def by (simp add: take_all del: append_Cons)
  have msg: "cstr (take (min (length ?m) BB_BUFLEN) ?m) = ?m"
    using assms(6) article_message_no_nul [OF cl(2)] by simp
  have "\<exists>s'. bbc_Read env s = Inr (length (articles sv), s') \<and> articleList s' = local_articles (sort_key art_ID (articles sv))
          \<and> bc_out s' = bc_out s @ [(bs_addr it, bs_port it mod 65536, ?c)]"
    if "be_net env (length (bc_out s)) (bs_addr it, bs_port it mod 65536, ?c) = Some ?m"
    using that assms(4,5,6) cmd listen(2) msg
    unfolding bbc_Read_def communicate_request_def bc_exchange_def bc_send_def bc_receive_def Let_def port_texts
    by (simp add: loadReadContent_eq [OF r] del: append_Cons)
  then show ?thesis using listen(1) unfolding Let_def by (simp del: append_Cons)
qed

end

definition sample_bbenv :: bbenv where
  "sample_bbenv = \<lparr>be_ip = ''10.0.0.7'', be_aton = (\<lambda>a. a \<noteq> []), be_net = (\<lambda>_ _. None), be_rand = (\<lambda>_. 1),
     be_asctime = (\<lambda>_. ''Sun Jan  9 03:07:41 2011'' @ [CHR 0x0A])\<rparr>"

definition sample_client :: bb_client where
  "sample_client = \<lparr>serverList = [\<lparr>bs_addr = ''10.0.0.1'', bs_port = 5105\<rparr>, \<lparr>bs_addr = ''10.0.0.2'', bs_port = 5105\<rparr>],
     articleList = [], READ_BUFFER = [], bc_files = (\<lambda>_. []), bc_shown = [], bc_out = []\<rparr>"

definition sample_articles :: "Article list" where
  "sample_articles = [\<lparr>art_ID = 4, art_primaryIP = [], art_content = [''1;Re;bob;noon;yes''], art_hierachy = 1\<rparr>,
     \<lparr>art_ID = 2, art_primaryIP = [], art_content = [''1;Title;ann;dawn;hello world''], art_hierachy = 0\<rparr>]"

lemma sample_articles_five: "list_all five_fields sample_articles"
  using five_fieldsI [of "''1''" "''Re''" "''bob''" "''noon''" "''yes''" "sample_articles ! 0"]
    five_fieldsI [of "''1''" "''Title''" "''ann''" "''dawn''" "''hello world''" "sample_articles ! 1"]
  by (simp add: sample_articles_def word_ok_def)

section \<open>The server list\<close>

definition server_line :: "SAddr \<Rightarrow> string" where
  "server_line a = sa_ip a @ '' '' @ to_string (sa_port a)"

lemma server_lines_fields:
  "server_lines (concat (map addr_fields l)) = concat (map (\<lambda>a. server_line a @ [CHR 0x0A]) l)"
  by (induction l) (simp_all add: addr_fields_def server_line_def)

lemma file_lines_terminated:
  "\<forall>f\<in>set fs. CHR 0x0A \<notin> set f \<Longrightarrow> file_lines (concat (map (\<lambda>f. f @ [CHR 0x0A]) fs)) = fs"
proof -
  assume "\<forall>f\<in>set fs. CHR 0x0A \<notin> set f"
  then have "split_on (CHR 0x0A) (concat (map (\<lambda>f. f @ [CHR 0x0A]) fs)) = fs @ [[]]"
    by (induction fs) (simp_all add: split_on_append)
  then show ?thesis by (simp add: file_lines_def)
qed

lemma digits_not_blank: "is_digit c \<or> c = CHR ''.'' \<or> c = CHR ''-'' \<Longrightarrow> c \<notin> set blanks \<and> c \<noteq> CHR 0x0A"
  by (auto simp: is_digit_def digits_def blanks_def)

lemma server_line_words:
  assumes "addr_ok a"
  shows "tokens blanks (server_line a) = [sa_ip a, to_string (sa_port a)]" "CHR 0x0A \<notin> set (server_line a)"
proof -
  have ip: "\<forall>c\<in>set (sa_ip a). c \<notin> set blanks \<and> c \<noteq> CHR 0x0A" "sa_ip a \<noteq> []"
    using assms isValidIP_chars [of "sa_ip a"] isValidIP_not_Nil [of "sa_ip a"] digits_not_blank
    by (auto simp: addr_ok_def)
  have p: "\<forall>c\<in>set (to_string (sa_port a)). c \<notin> set blanks \<and> c \<noteq> CHR 0x0A"
    using to_string_chars [of _ "sa_port a"] digits_not_blank by blast
  have b: "CHR '' '' \<in> set blanks" by (simp add: blanks_def)
  have "tokens blanks (to_string (sa_port a)) = [to_string (sa_port a)]"
    using tokens_run [of "to_string (sa_port a)" blanks "[]"] p by simp
  then show "tokens blanks (server_line a) = [sa_ip a, to_string (sa_port a)]"
    unfolding server_line_def using tokens_run [of "sa_ip a" blanks "'' '' @ to_string (sa_port a)"] ip b by simp
  show "CHR 0x0A \<notin> set (server_line a)" using ip(1) p by (auto simp: server_line_def)
qed

definition server_info :: "SAddr \<Rightarrow> BBServerInfo" where
  "server_info a = \<lparr>bs_addr = sa_ip a, bs_port = sa_port a\<rparr>"

lemma read_lines_eq:
  "list_all addr_ok l \<Longrightarrow> read_lines (map server_line l) l0 = Inr (l0 @ map server_info l)"
  by (induction l arbitrary: l0) (simp_all add: server_line_words stoi_to_string addr_ok_def server_info_def)

lemma listen_getlist:
  assumes "isValidIP ip" "CHR 0x00 \<notin> set ip" "list_all addr_ok (SIPs sv)"
  shows "bb_listen_step vt src (''GETLIST;'' @ ip @ '';'' @ ''5105'' @ '';'') sv =
     Inr (sv\<lparr>outbox := outbox sv @ [(fst src, snd src, list_text (SIPs sv))]\<rparr>)"
    "cstr (''GETLIST;'' @ ip @ '';'' @ ''5105'' @ '';'') = ''GETLIST;'' @ ip @ '';'' @ ''5105'' @ '';''"
    "length (''GETLIST;'' @ ip @ '';'' @ ''5105'' @ '';'') < BB_BUFLEN"
proof -
  let ?d = "''GETLIST;'' @ ip @ '';'' @ ''5105'' @ '';''"
  have f: "ip \<noteq> []" "CHR '';'' \<notin> set ip" "length ip \<le> 15"
    using assms(1,2) isValidIP_clean [of ip] isValidIP_not_Nil [of ip] isValidIP_length [of ip] by auto
  show c: "cstr ?d = ?d" and l: "length ?d < BB_BUFLEN" using assms(2) f by simp_all
  have "tokens '';'' ?d = [''GETLIST'', ip, ''5105'']"
    using tokens_join_app [of "[''GETLIST'', ip, ''5105'']" "CHR '';''" "[]"] f by simp
  moreover have "cstr (take BB_BUFLEN ?d) = ?d" using c l by (simp add: take_all del: append_Cons)
  moreover have "atoi ''5105'' = SERVERPORT" by code_simp
  moreover have "bb_command_of k ''GETLIST'' = BB_GETLIST" for k
    by (simp add: bb_command_of_def strcaseeq_def tolower_def upper_letters_def lower_letters_def)
  ultimately show "bb_listen_step vt src ?d sv = Inr (sv\<lparr>outbox := outbox sv @ [(fst src, snd src, list_text (SIPs sv))]\<rparr>)"
    using assms(1) bb_getServerList_ok [OF assms(3)]
    unfolding bb_listen_step_tokens Let_def by (simp add: isValidPort_def del: append_Cons)
qed

text \<open>
  The server list from end to end. The answer to the client's GETLIST, written to the
  file and read back, adds exactly the coordinator's servers, addresses and ports in order,
  to the client's list.
\<close>

theorem bb_getlist_roundtrip:
  assumes "isValidIP (be_ip env)" "CHR 0x00 \<notin> set (be_ip env)" "list_all addr_ok (SIPs sv)"
    and "be_aton env (cstr host)" "length (list_text (SIPs sv)) < 8000"
  shows "let command = ''GETLIST;'' @ be_ip env @ '';'' @ ''5105'' @ '';''; m = list_text (SIPs sv) in
     bb_listen_step vt src command sv = Inr (sv\<lparr>outbox := outbox sv @ [(fst src, snd src, m)]\<rparr>)
     \<and> (be_net env (length (bc_out s)) (host, 5105, command) = Some m \<longrightarrow>
        (\<exists>s1 s2. writeServer env host 5105 filename s = Inr s1 \<and> readServer filename s1 = Inr s2
           \<and> serverList s2 = serverList s @ map server_info (SIPs sv)))"
proof -
  let ?m = "list_text (SIPs sv)" and ?c = "''GETLIST;'' @ be_ip env @ '';'' @ ''5105'' @ '';''"
  note listen = listen_getlist [OF assms(1,2,3)]
  have cmd: "strcpy_buf BB_BUFLEN ?c = Inr ?c" using listen(2,3) by (simp add: strcpy_buf_def del: append_Cons)
  have msg: "cstr (take (min (length ?m) BB_BUFLEN) ?m) = ?m"
    using assms(5) list_text_no_nul [OF assms(3)] by simp
  have reads: "read_lines (file_lines (server_lines (tokens '';'' ?m))) l0 = Inr (l0 @ map server_info (SIPs sv))" for l0
  proof -
    have "server_lines (tokens '';'' ?m) = concat (map (\<lambda>f. f @ [CHR 0x0A]) (map server_line (SIPs sv)))"
      by (simp add: tokens_list_text [OF assms(3)] server_lines_fields comp_def)
    moreover have "\<forall>f\<in>set (map server_line (SIPs sv)). CHR 0x0A \<notin> set f"
      using assms(3) server_line_words(2) by (auto simp: list_all_iff)
    ultimately show ?thesis by (simp only: file_lines_terminated read_lines_eq [OF assms(3)])
  qed
  have "\<exists>s1 s2. writeServer env host SERVERPORT filename s = Inr s1 \<and> readServer filename s1 = Inr s2
           \<and> serverList s2 = serverList s @ map server_info (SIPs sv)"
    if "be_net env (length (bc_out s)) (host, 5105, ?c) = Some ?m"
    using that assms(4,5) cmd listen(2) msg reads [of "serverList s"]
    unfolding writeServer_def bc_exchange_def bc_send_def bc_receive_def readServer_def Let_def port_texts
    by (simp del: append_Cons)
  then show ?thesis using listen(1) unfolding Let_def by (simp del: append_Cons)
qed

lemma bb_getlist_roundtrip_witness:
  "\<exists>s1 s2. writeServer (sample_bbenv\<lparr>be_net := \<lambda>_ _. Some ''10.0.0.1;5105''\<rparr>) ''10.0.0.1'' 5105 ''f'' (sample_client\<lparr>serverList := []\<rparr>) = Inr s1
     \<and> readServer ''f'' s1 = Inr s2 \<and> serverList s2 = [\<lparr>bs_addr = ''10.0.0.1'', bs_port = 5105\<rparr>]"
proof -
  let ?env = "sample_bbenv\<lparr>be_net := \<lambda>_ _. Some (list_text (SIPs sample_coordinator))\<rparr>"
  have t: "list_text (SIPs sample_coordinator) = ''10.0.0.1;5105''" "isValidIP ''10.0.0.7''" "isValidIP ''10.0.0.1''" by code_simp+
  have ok: "list_all addr_ok (SIPs sample_coordinator)"
    using t(3) by (simp add: sample_coordinator_def addr_ok_def isValidPort_def)
  have "\<exists>s1 s2. writeServer ?env ''10.0.0.1'' 5105 ''f'' (sample_client\<lparr>serverList := []\<rparr>) = Inr s1 \<and> readServer ''f'' s1 = Inr s2
      \<and> serverList s2 = serverList (sample_client\<lparr>serverList := []\<rparr>) @ map server_info (SIPs sample_coordinator)"
    using bb_getlist_roundtrip [of ?env sample_coordinator "''10.0.0.1''" undefined undefined "sample_client\<lparr>serverList := []\<rparr>"] t ok
    unfolding Let_def by (simp add: sample_bbenv_def)
  then show ?thesis unfolding t(1) by (simp add: sample_coordinator_def server_info_def)
qed

section \<open>Pages\<close>

lemma concat_chunks: "concat (map (\<lambda>k. take c (drop (c * k) xs)) [0..<m]) = take (c * m) xs"
  by (induction m) (simp_all add: take_add [symmetric] add.commute)

lemma articleToPage_bounds: "n \<le> 3 * articleToPage n" "3 * articleToPage n < n + 3"
  by (auto simp: articleToPage_def) (presburger+)?

definition page_rows :: "nat \<Rightarrow> LocalArticle list \<Rightarrow> string list" where
  "page_rows page l = map article_row (take 3 (drop (3 * (page - 1)) l))"

lemma printPage_eq:
  assumes "articleList s \<noteq> []"
  shows "printPage page s =
    (if 1 \<le> page \<and> page \<le> int (articleToPage (length (articleList s)))
     then Inr (s\<lparr>bc_shown := bc_shown s @ page_rows (nat page) (articleList s)\<rparr>) else Inl OutOfBounds)"
proof -
  let ?n = "length (articleList s)" and ?start = "(page - 1) * int PAGESIZE + 1"
  have "(1 \<le> ?start \<and> ?start - 1 < int ?n) = (1 \<le> page \<and> page \<le> int (articleToPage ?n))"
    using articleToPage_bounds [of ?n] by auto
  moreover have "nat (?start - 1) = 3 * (nat page - 1)" if "1 \<le> page" using that by simp
  ultimately show ?thesis
    using assms by (auto simp: printPage_def printReadContent_def page_rows_def)
qed

definition pages_ok :: "bb_console \<Rightarrow> bool" where
  "pages_ok s \<longleftrightarrow> articleList s \<noteq> [] \<and> pageNum s = Some (articleToPage (length (articleList s)))
     \<and> 1 \<le> currentPage s \<and> currentPage s \<le> int (articleToPage (length (articleList s)))"

lemma pages_concat:
  "concat (map (\<lambda>k. page_rows (k + 1) l) [0..<articleToPage (length l)]) = map article_row l"
proof -
  have "concat (map (\<lambda>k. page_rows (k + 1) l) [0..<articleToPage (length l)])
      = map article_row (concat (map (\<lambda>k. take 3 (drop (3 * k) l)) [0..<articleToPage (length l)]))"
    by (simp add: page_rows_def map_concat comp_def)
  then show ?thesis using articleToPage_bounds(1) [of "length l"] by (simp add: concat_chunks)
qed

text \<open>A command that leaves the list alone and shows the page it ends on.\<close>

definition shows_page :: "bb_console result \<Rightarrow> bb_console \<Rightarrow> bool" where
  "shows_page r s \<longleftrightarrow> (\<exists>s1. r = Inr s1 \<and> pages_ok s1 \<and> articleList s1 = articleList s
      \<and> bc_shown s1 = bc_shown s @ page_rows (nat (currentPage s1)) (articleList s))"

text \<open>
  C31: pages. The pages 1 to \<open>articleToPage\<close> of the article count show every loaded article
  exactly once, in order, and while the list stays, turning pages either way never leaves
  them: both commands show a page and keep the page number in range.
\<close>

theorem paging_invariant:
  assumes "pages_ok s"
  shows "concat (map (\<lambda>k. page_rows (k + 1) (articleList s)) [0..<articleToPage (length (articleList s))]) = map article_row (articleList s)
    \<and> shows_page (console_next s) s \<and> shows_page (console_back s) s"
  using assms pages_concat
  by (auto simp: shows_page_def pages_ok_def console_next_def console_back_def Let_def printPage_eq min_def max_def)

definition sample_console :: "string \<Rightarrow> bb_console" where
  "sample_console input = \<lparr>serverList = [\<lparr>bs_addr = ''10.0.0.1'', bs_port = 5105\<rparr>],
     articleList = local_articles sample_articles, READ_BUFFER = [], bc_files = (\<lambda>_. []), bc_shown = [], bc_out = [],
     currentPage = 1, articleNum = 2, pageNum = Some 1, console_in = input, bc_shell = []\<rparr>"

lemma paging_invariant_witness: "shows_page (console_next (sample_console [])) (sample_console [])"
proof -
  have "pages_ok (sample_console [])"
    by (simp add: pages_ok_def sample_console_def sample_articles_def local_articles_def articleToPage_def)
  from paging_invariant [OF this] show ?thesis by blast
qed

lemma bbc_Read_loaded:
  "bbc_Read env s = Inr (n, s1) \<Longrightarrow> length (articleList s1) = n \<and> bb_client.more s1 = bb_client.more s
     \<and> (n = 0 \<longrightarrow> loadReadContent (READ_BUFFER s1) s1 = Inr (0, s1))"
proof -
  have l: "load_articles i ts = Inr l \<Longrightarrow> length l = length ts" for i ts l
    by (induction ts arbitrary: i l) (auto simp: result_simps)
  assume "bbc_Read env s = Inr (n, s1)"
  then show ?thesis
    by (auto simp: bbc_Read_def communicate_request_def bc_exchange_def bc_send_def loadReadContent_def Let_def
        result_simps dest!: l split: if_splits)
qed

text \<open>
  The page after a read. The console keeps its page number across reads, so showing it
  is defined exactly when the newly loaded list is empty or still has that page; a read at
  a server with fewer articles, or after turning the pages of an empty list, is undefined.
\<close>

theorem read_shows_current_page:
  assumes "bbc_Read env s = Inr (n, s1)"
  shows "ok (console_read env s) \<longleftrightarrow> n = 0 \<or> 1 \<le> currentPage s \<and> currentPage s \<le> int (articleToPage n)"
proof -
  note r = bbc_Read_loaded [OF assms]
  have p: "currentPage s1 = currentPage s" using r by (cases s; cases s1) simp
  show ?thesis
  proof (cases "articleList s1 = []")
    case True
    then have "n = 0" using r by simp
    moreover have "loadReadContent (READ_BUFFER s1) (s1\<lparr>articleNum := 0, pageNum := Some 0\<rparr>) = Inr (0, s1\<lparr>articleNum := 0, pageNum := Some 0\<rparr>)"
      using r \<open>n = 0\<close> True by (cases s1) (auto simp: loadReadContent_def result_simps)
    ultimately show ?thesis
      using assms True by (simp add: console_read_def printPage_def printReadContent_def articleToPage_def)
  next
    case False
    then show ?thesis using assms r p by (auto simp: console_read_def printPage_eq)
  qed
qed

lemma read_shows_current_page_witness:
  "\<not> ok (console_read (sample_bbenv\<lparr>be_net := \<lambda>_ _. Some ''1;T;ann;dawn;hi;0''\<rparr>) ((sample_console [])\<lparr>currentPage := 2\<rparr>))"
proof -
  let ?env = "sample_bbenv\<lparr>be_net := \<lambda>_ _. Some ''1;T;ann;dawn;hi;0''\<rparr>" and ?s = "(sample_console [])\<lparr>currentPage := 2\<rparr>"
  have "(case bbc_Read ?env ?s of Inl e \<Rightarrow> False | Inr (n, s1) \<Rightarrow> n = 1)" by code_simp
  then obtain s1 where "bbc_Read ?env ?s = Inr (1, s1)" by (auto split: sum.splits)
  from read_shows_current_page [OF this] show ?thesis by (simp add: articleToPage_def sample_console_def)
qed

section \<open>The console\<close>

lemma find_newline: "CHR 0x0A \<notin> set l \<Longrightarrow> find_iter (\<lambda>c. c = CHR 0x0A) (l @ CHR 0x0A # ahead) = Some (length l)"
  by (induction l) auto

lemma getline_in_line:
  "CHR 0x0A \<notin> set l \<Longrightarrow> console_in s = l @ CHR 0x0A # ahead \<Longrightarrow> getline_in s = Inr (l, s\<lparr>console_in := ahead\<rparr>)"
  by (simp add: getline_in_def find_newline)

lemma getline_in_more: "getline_in s = Inr (l, s1) \<Longrightarrow> length (console_in s1) < length (console_in s)"
  by (auto simp: getline_in_def dest: find_iter_SomeD split: option.splits)

lemma read_word_more: "read_word s = Inr (w, s1) \<Longrightarrow> length (console_in s1) \<le> length (console_in s)"
  unfolding read_word_def Let_def
  by (auto split: if_splits intro: le_trans [OF length_dropWhile_le length_dropWhile_le])

lemma console_in_cong: "bb_client.more s = bb_client.more t \<Longrightarrow> console_in s = console_in t"
  by (cases s; cases t) simp

lemma console_in_ops:
  "bbc_Read env s = Inr (n, s1) \<Longrightarrow> console_in s1 = console_in s"
  "bbc_Post env r s = Inr (b, s1) \<Longrightarrow> console_in s1 = console_in s"
  "bbc_Reply env ID r s = Inr (b, s1) \<Longrightarrow> console_in s1 = console_in s"
  "printPage p s = Inr s1 \<Longrightarrow> console_in s1 = console_in s"
  by (auto simp: bbc_Read_def bbc_Post_def bbc_Reply_def communicate_request_def bc_exchange_def bc_send_def
      loadReadContent_def printPage_def printReadContent_def Let_def result_simps split: if_splits)

lemma console_in_Choose: "bbc_Choose env ID s = Inr s1 \<Longrightarrow> console_in s1 = console_in s"
  by (auto simp: bbc_Choose_def result_simps dest!: console_in_ops(1) split: if_splits option.splits)

lemma console_in_test: "test_operations env ops s = Inr s1 \<Longrightarrow> console_in s1 = console_in s"
  by (induction ops arbitrary: s)
    (fastforce simp: testOperation_def result_simps dest: console_in_ops console_in_Choose split: bb_operation.splits)+

lemma bb_main_step_more:
  assumes "bb_main_step env s = Inr (b, s1)"
  shows "length (console_in s1) < length (console_in s)"
  using assms
  by (auto simp: bb_main_step_def Let_def result_simps console_read_def console_next_def console_back_def console_test_def
      console_debug_def loadReadContent_def console_post_def console_reply_def
      dest!: getline_in_more read_word_more console_in_ops console_in_Choose console_in_test split: if_splits option.splits)

text \<open>
  The command loop. Every command takes a line, so it ends for every input: with \<open>exit\<close>
  (\<open>None\<close>), or at the fault that stops it; \<open>Blocked\<close> is the wait for more input.
\<close>

function bb_main :: "bbenv \<Rightarrow> bb_console \<Rightarrow> bb_console \<times> fault option" where
  "bb_main env s =
     (case bb_main_step env s of
        Inl e \<Rightarrow> (s, Some e)
      | Inr (left, s1) \<Rightarrow> if left then (s1, None) else bb_main env s1)"
  by pat_completeness auto

termination by (relation "measure (\<lambda>(env, s). length (console_in s))") (auto dest: bb_main_step_more)

declare bb_main.simps [simp del]

lemma dropWhile_word: "\<forall>c\<in>set w. \<not> isspace c \<Longrightarrow> isspace b \<Longrightarrow>
    dropWhile (\<lambda>c. \<not> isspace c) (w @ b # r) = b # r \<and> takeWhile (\<lambda>c. \<not> isspace c) (w @ b # r) = w"
  by (induction w) auto

lemma read_word_blank:
  assumes "w \<noteq> []" "\<forall>c\<in>set w. \<not> isspace c" "isspace b" "console_in s = w @ b # r"
  shows "read_word s = Inr (w, s\<lparr>console_in := b # r\<rparr>)"
proof -
  have "dropWhile isspace (w @ b # r) = w @ b # r" using assms(1,2) by (cases w) auto
  then show ?thesis using dropWhile_word [OF assms(2,3)] assms(3,4) by (simp add: read_word_def Let_def)
qed

lemma console_in_build: "build_request env w (s\<lparr>console_in := x\<rparr>) = build_request env w s"
  by (simp add: build_request_def GetGlobleTime_def)

text \<open>
  Text behind an article. \<open>post\<close> reads the article up to its first blank; the rest of
  the typed line stays in the input and is the next command, which, beginning with a
  blank, is none of the client's: the loop gives it to the shell.
\<close>

theorem post_rest_to_shell:
  assumes "console_in s = ''post'' @ CHR 0x0A # w @ CHR '' '' # rest @ CHR 0x0A # ahead"
    and "w \<noteq> []" "\<forall>c\<in>set w. \<not> isspace c" "CHR 0x0A \<notin> set rest" "CHR 0x00 \<notin> set rest"
    and "bb_main_step env s = Inr (b, s1)"
  shows "\<not> b \<and> bb_main_step env s1 = Inr (False, s1\<lparr>console_in := ahead, bc_shell := bc_shell s1 @ ['' '' @ rest]\<rparr>)"
proof -
  let ?left = "CHR '' '' # rest @ CHR 0x0A # ahead"
  let ?s0 = "s\<lparr>console_in := w @ ?left\<rparr>"
  have g: "getline_in s = Inr (''post'', ?s0)"
    by (rule getline_in_line) (use assms(1) in simp_all)
  have w: "read_word ?s0 = Inr (w, s\<lparr>console_in := ?left\<rparr>)"
    by (subst read_word_blank [OF assms(2,3), of "CHR '' ''" _ "rest @ CHR 0x0A # ahead"]) (simp_all add: isspace_def)
  have "\<not> b \<and> console_in s1 = ?left"
    using assms(6) g w
    by (auto simp: bb_main_step_def Let_def result_simps console_post_def dest!: console_in_ops split: option.splits)
  moreover have "getline_in s1 = Inr ('' '' @ rest, s1\<lparr>console_in := ahead\<rparr>)" if "console_in s1 = ?left"
    by (rule getline_in_line) (use that assms(4) in simp_all)
  moreover have "cstr ('' '' @ rest) = '' '' @ rest" using assms(5) by simp
  ultimately show ?thesis by (simp add: bb_main_step_def Let_def)
qed

lemma post_rest_to_shell_witness:
  "\<exists>s1. bb_main_step (sample_bbenv\<lparr>be_net := \<lambda>_ _. Some ''ACK_comp;1''\<rparr>)
           (sample_console (''post'' @ [CHR 0x0A] @ ''ann;Files;rm -rf share'' @ [CHR 0x0A])) = Inr (False, s1)
     \<and> bb_main_step (sample_bbenv\<lparr>be_net := \<lambda>_ _. Some ''ACK_comp;1''\<rparr>) s1
         = Inr (False, s1\<lparr>console_in := [], bc_shell := bc_shell s1 @ ['' -rf share'']\<rparr>)"
proof -
  let ?env = "sample_bbenv\<lparr>be_net := \<lambda>_ _. Some ''ACK_comp;1''\<rparr>"
  let ?s = "sample_console (''post'' @ [CHR 0x0A] @ ''ann;Files;rm -rf share'' @ [CHR 0x0A])"
  have "ok (bb_main_step ?env ?s)" by code_simp
  then obtain b s1 where r: "bb_main_step ?env ?s = Inr (b, s1)" by (auto simp: ok_def)
  show ?thesis
    using post_rest_to_shell [OF _ _ _ _ _ r, of "''ann;Files;rm''" "''-rf share''" "[]"] r
    by (auto simp: sample_console_def isspace_def)
qed

end
