(* ===== verification/BBEndToEnd.thy ===== *)
theory BBEndToEnd
  imports BBReader SeqServer LocalWriteServer
begin

text \<open>
  A post of the bulletin board client followed through the sequentially consistent servers:
  what the client sends, what the server it asked forwards to the primary, what a replica
  stores of the primary's update, and what a reader of that replica then loads.
\<close>

section \<open>Readers\<close>

interpretation seq_reader: reader_service seq_vtable
  by unfold_locales (simp add: seq_vtable_def seq_Read_handler_def fun_eq_iff)

interpretation lw_reader: reader_service lw_vtable
  by unfold_locales (simp add: lw_vtable_def lw_Read_handler_def fun_eq_iff)

text \<open>
  C19: READ from end to end. The client's request, handled by a sequentially consistent
  server whose articles have the five fields of the client's format, is answered at the
  client's port, and loading the answer gives exactly the server's articles in the order
  of their IDs, numbered from 1, every field and level as stored.
\<close>

theorem bb_read_roundtrip:
  assumes "isValidIP (be_ip env)" "CHR 0x00 \<notin> set (be_ip env)" "list_all five_fields (articles sv)"
    and "pickRandomServer env s = Inr it" "be_aton env (cstr (bs_addr it))"
    and "length (article_message (sort_key art_ID (articles sv))) < 8000"
  shows "let as = sort_key art_ID (articles sv); m = article_message as; command = ''READ;'' @ be_ip env @ '';'' @ ''5106'' in
     bb_listen_step seq_vtable src command sv = Inr (sv\<lparr>articles := as, outbox := outbox sv @ [(be_ip env, 5106, m)]\<rparr>)
     \<and> (be_net env (length (bc_out s)) (bs_addr it, bs_port it mod 65536, command) = Some m \<longrightarrow>
         (\<exists>s'. bbc_Read env s = Inr (length as, s') \<and> articleList s' = local_articles as
            \<and> bc_out s' = bc_out s @ [(bs_addr it, bs_port it mod 65536, command)]))"
  using assms by (rule seq_reader.read_roundtrip)

text \<open>The same of a read-your-write server.\<close>

lemmas lw_read_roundtrip = lw_reader.read_roundtrip

lemma bb_read_roundtrip_witness:
  "\<exists>s'. bbc_Read (sample_bbenv\<lparr>be_net := \<lambda>_ _. Some ''1;Title;ann;dawn;hello world;0$1;Re;bob;noon;yes;1''\<rparr>) sample_client = Inr (2, s')
     \<and> map la_content (articleList s') = [''hello world'', ''yes''] \<and> map la_hierachy (articleList s') = [0, 1]"
proof -
  let ?as = "sort_key art_ID sample_articles"
  have m: "article_message ?as = ''1;Title;ann;dawn;hello world;0$1;Re;bob;noon;yes;1''"
    and v: "map la_content (local_articles ?as) = [''hello world'', ''yes'']" "map la_hierachy (local_articles ?as) = [0, 1]"
    and ip: "isValidIP ''10.0.0.7''" by code_simp+
  let ?env = "sample_bbenv\<lparr>be_net := \<lambda>_ _. Some (article_message ?as)\<rparr>"
  define sv where "sv = \<lparr>local_ip = ''10.0.0.2'', inbox = (\<lambda>_. []), outbox = [], coordinatorIP = ''10.0.0.1'',
     IsCoordinator = False, SIPs = [], CIPs = [], articles = sample_articles, seq_ID = 0, requestQ = [], ack_num = []\<rparr>"
  have it: "pickRandomServer ?env sample_client = Inr \<lparr>bs_addr = ''10.0.0.2'', bs_port = 5105\<rparr>"
    by (simp add: pickRandomServer_def sample_client_def sample_bbenv_def)
  have l: "length (article_message ?as) < 8000" unfolding m by simp
  have "\<exists>s'. bbc_Read ?env sample_client = Inr (length ?as, s') \<and> articleList s' = local_articles ?as"
    using bb_read_roundtrip [of ?env sv, OF _ _ _ it]
      ip sample_articles_five l unfolding Let_def by (auto simp: sample_bbenv_def sv_def)
  then show ?thesis using v unfolding m by (auto simp: sample_articles_def)
qed

section \<open>Posts\<close>

lemma drop_request_app: "CHR '';'' \<notin> set a \<Longrightarrow> drop_request_field (a @ CHR '';'' # b) = b"
  by (simp add: drop_request_field_def clib_simps)

lemma listen_post:
  assumes "isValidIP ip" "CHR 0x00 \<notin> set ip" "CHR 0x00 \<notin> set r" "length r \<le> 7900"
  shows "bb_listen_step vt src (''POST;'' @ ip @ '';'' @ ''5106'' @ '';'' @ r) sv = Post_handler vt \<lparr>sa_ip = ip, sa_port = CLIENTPORT\<rparr> r sv"
    "snprintf_buf BB_BUFLEN (''POST;'' @ ip @ '';'' @ ''5106'' @ '';'' @ r) = ''POST;'' @ ip @ '';'' @ ''5106'' @ '';'' @ r"
    "cstr (''POST;'' @ ip @ '';'' @ ''5106'' @ '';'' @ r) = ''POST;'' @ ip @ '';'' @ ''5106'' @ '';'' @ r"
proof -
  let ?d = "''POST;'' @ ip @ '';'' @ ''5106'' @ '';'' @ r"
  have f: "ip \<noteq> []" "CHR '';'' \<notin> set ip" "length ip \<le> 15"
    using assms(1,2) isValidIP_clean [of ip] isValidIP_not_Nil [of ip] isValidIP_length [of ip] by auto
  show c: "cstr ?d = ?d" using assms(2,3) f by simp
  have l: "length ?d < BB_BUFLEN" using assms(4) f by simp
  show "snprintf_buf BB_BUFLEN ?d = ?d" using c l unfolding snprintf_buf_def by (simp add: take_all del: append_Cons)
  have "tokens '';'' ?d = ''POST'' # ip # ''5106'' # tokens '';'' r"
    using tokens_join_app [of "[''POST'', ip, ''5106'']" "CHR '';''" r] f by simp
  moreover have "cstr (take BB_BUFLEN ?d) = ?d" using c l by (simp add: take_all del: append_Cons)
  moreover have "atoi ''5106'' = CLIENTPORT" by code_simp
  moreover have "strcpy_buf 16 ip = Inr ip" using assms(2) f by (simp add: strcpy_buf_def)
  moreover have "(drop_request_field ^^ 3) ?d = r"
    using drop_request_app [of "''POST''" "ip @ '';'' @ ''5106'' @ '';'' @ r"] drop_request_app [OF f(2), of "''5106'' @ '';'' @ r"]
      drop_request_app [of "''5106''" r] by (simp add: numeral_3_eq_3)
  ultimately show "bb_listen_step vt src ?d sv = Post_handler vt \<lparr>sa_ip = ip, sa_port = CLIENTPORT\<rparr> r sv"
    using assms(1) unfolding bb_listen_step_tokens Let_def
    by (simp add: isValidPort_def del: append_Cons)
qed

lemma seq_post_sends:
  assumes "inbox sv BACKUPPORT = w5 # ds" "length w5 < BB_BUFLEN" "CHR 0x00 \<notin> set r" "CHR 0x00 \<notin> set (local_ip sv)"
  shows "\<exists>s1. Post_handler seq_vtable c r sv = Inr s1
     \<and> outbox s1 = outbox sv @ [(coordinatorIP sv, PRIMARYPORT,
          frame ''forward_req'' (local_ip sv) BACKUPPORT (field ''-1'' @ r @ '';'' @ field (local_ip sv) @ ''5101'')),
        (sa_ip c, sa_port c mod 65536, cstr w5)] \<and> articles s1 = articles sv"
proof -
  let ?m = "frame ''forward_req'' (local_ip sv) BACKUPPORT (field ''-1'' @ r @ '';'' @ field (local_ip sv) @ ''5101'')"
  have m: "''forward_req;'' @ field (checkip sv) @ field (to_string BACKUPPORT) @ ''-1;'' @ r @ '';'' @ field (checkip sv) @ to_string BACKUPPORT = ?m"
    by (simp add: frame_def field_def checkip_def to_string_ports)
  have n: "cstr ?m = ?m" using assms(3,4) by (simp add: frame_def field_def)
  show ?thesis
    unfolding seq_vtable_def vtable.simps seq_Post_handler_def seq_forwardW2_def Let_def append_assoc m
    using assms(1,2) n by (simp add: UDP_send_def UDP_receive_def)
qed



end
