(* ===== verification/SeqCluster.thy ===== *)
theory SeqCluster
  imports SeqServer
begin

text \<open>
  A whole bulletin board with sequential consistency: a primary (server 0) and backups
  that exchange datagrams over a network which may lose, repeat, delay and reorder them.
  The step relation runs the handlers of \<open>SeqServer\<close>; the network is the set of all
  datagrams sent so far. Membership is fixed, clients post and read (replies are left
  out: a refused reply takes its ID back, see \<open>seq_failed_reply_reuses_ID\<close>), and
  delivered datagrams fit the receive buffer. The invariant is a log: which text each
  article ID stands for.
\<close>

section \<open>Steps of the cluster\<close>

definition seq_net :: "seq_server list \<Rightarrow> (string \<times> int \<times> string) set" where
  "seq_net C = (\<Union>s\<in>set C. set (outbox s))"

inductive seq_step :: "seq_server list \<Rightarrow> seq_server list \<Rightarrow> bool" where
  post: "i < length C \<Longrightarrow> sa_port c mod 65536 \<noteq> PRIMARYPORT \<Longrightarrow> CHR 0x00 \<notin> set request \<Longrightarrow>
    seq_Post_handler c request ((C ! i)\<lparr>inbox := (inbox (C ! i))(BACKUPPORT := [w5])\<rparr>) = Inr s' \<Longrightarrow>
    seq_step C (C[i := s'])"
| read: "i < length C \<Longrightarrow> sa_port c mod 65536 \<noteq> PRIMARYPORT \<Longrightarrow>
    seq_Read_handler c (C ! i) = Inr s' \<Longrightarrow> seq_step C (C[i := s'])"
| deliver: "i < length C \<Longrightarrow> (ip, PRIMARYPORT, d) \<in> seq_net C \<Longrightarrow> length d \<le> BB_BUFLEN \<Longrightarrow>
    seq_listen_step d (C ! i) = Inr s' \<Longrightarrow> seq_step C (C[i := s'])"

definition seq_start :: "seq_server list \<Rightarrow> bool" where
  "seq_start C \<longleftrightarrow> C \<noteq> [] \<and> (\<forall>i<length C. IsCoordinator (C ! i) = (i = 0) \<and> isValidIP (local_ip (C ! i))
     \<and> CHR 0x00 \<notin> set (local_ip (C ! i)) \<and> outbox (C ! i) = [] \<and> articles (C ! i) = []
     \<and> requestQ (C ! i) = [] \<and> seq_ID (C ! i) = 0)"

section \<open>The log invariant\<close>

text \<open>What a server stores of an update, as a function of the request alone.\<close>

definition body_text :: "string \<Rightarrow> string" where
  "body_text body =
     (let c = drop_last_field body
      in skip_field (case pos_pred (find_last_of c '';'') of None \<Rightarrow> c | Some i \<Rightarrow> take i c))"

definition log_article :: "(int \<Rightarrow> string) \<Rightarrow> int \<Rightarrow> Article" where
  "log_article L ID = \<lparr>art_ID = word_of_int (atoi (to_string ID)), art_primaryIP = [],
     art_content = [body_text (L ID)], art_hierachy = 0\<rparr>"

inductive wf_msg :: "(int \<Rightarrow> string) \<Rightarrow> int \<Rightarrow> string \<Rightarrow> bool" for L ID where
  forward: "frame_ok ''forward_req'' ip BACKUPPORT (field ''-1'' @ r) \<Longrightarrow>
    wf_msg L ID (frame ''forward_req'' ip BACKUPPORT (field ''-1'' @ r))"
| update: "frame_ok ''update'' ip PRIMARYPORT (field (to_string k) @ field (to_string n) @ field ''-1'' @ r) \<Longrightarrow>
    0 < n \<Longrightarrow> n \<le> ID \<Longrightarrow> L n = field ''-1'' @ r \<Longrightarrow> wf_msg L ID (update_msg ip k n (field ''-1'' @ r))"
| ack: "frame_ok ''ACK_up'' ip PRIMARYPORT (field (to_string k) @ field ''1'' @ r) \<Longrightarrow>
    wf_msg L ID (frame ''ACK_up'' ip PRIMARYPORT (field (to_string k) @ field ''1'' @ r))"
| comp: "wf_msg L ID ''ACK_comp;1''"

definition server_ok :: "(int \<Rightarrow> string) \<Rightarrow> int \<Rightarrow> bool \<Rightarrow> seq_server \<Rightarrow> bool" where
  "server_ok L ID prim s \<longleftrightarrow> IsCoordinator s = prim \<and> isValidIP (local_ip s) \<and> CHR 0x00 \<notin> set (local_ip s)
     \<and> requestQ s = [] \<and> (\<forall>ip m. (ip, PRIMARYPORT, m) \<in> set (outbox s) \<longrightarrow> wf_msg L ID m)
     \<and> (\<forall>a\<in>set (articles s). \<exists>n. 0 < n \<and> n \<le> ID \<and> a = log_article L n)"

definition log_inv :: "(int \<Rightarrow> string) \<Rightarrow> seq_server list \<Rightarrow> bool" where
  "log_inv L C \<longleftrightarrow> C \<noteq> [] \<and> 0 \<le> seq_ID (C ! 0)
     \<and> (\<forall>i<length C. server_ok L (seq_ID (C ! 0)) (i = 0) (C ! i))"

lemma wf_msg_mono:
  assumes "wf_msg L ID m" "ID \<le> ID'" "\<forall>n\<le> ID. L' n = L n"
  shows "wf_msg L' ID' m"
  using assms(1)
proof cases
  case (update ip k n r)
  with assms(2,3) show ?thesis using wf_msg.update [of ip k n r ID' L'] by simp
qed (auto intro: wf_msg.intros)

lemma server_ok_mono:
  assumes "server_ok L ID p s" "ID \<le> ID'" "\<forall>n\<le> ID. L' n = L n"
  shows "server_ok L' ID' p s"
proof -
  have "\<exists>n. 0 < n \<and> n \<le> ID' \<and> a = log_article L' n" if "a \<in> set (articles s)" for a
  proof -
    from assms(1) that obtain n where "0 < n" "n \<le> ID" "a = log_article L n"
      by (auto simp: server_ok_def)
    with assms(2,3) show ?thesis by (intro exI [of _ n]) (simp add: log_article_def)
  qed
  moreover have "wf_msg L' ID' m" if "(ip, PRIMARYPORT, m) \<in> set (outbox s)" for ip m
    using assms that wf_msg_mono [of L ID m ID' L'] by (auto simp: server_ok_def)
  ultimately show ?thesis using assms(1) by (simp add: server_ok_def)
qed

lemma log_inv_update:
  assumes "log_inv L C" "i < length C" "seq_ID (C ! 0) \<le> ID'"
    and "ID' = (if i = 0 then seq_ID s' else seq_ID (C ! 0))"
    and "\<forall>n\<le> seq_ID (C ! 0). L' n = L n" "server_ok L' ID' (i = 0) s'"
  shows "log_inv L' (C[i := s'])"
proof -
  have ID: "seq_ID (C[i := s'] ! 0) = ID'" using assms(2,4) by (cases "i = 0") auto
  have "server_ok L' ID' (j = 0) (C[i := s'] ! j)" if "j < length C" for j
    using assms that server_ok_mono [of L "seq_ID (C ! 0)" "j = 0" "C ! j" ID' L']
    by (cases "j = i") (auto simp: log_inv_def)
  with assms ID show ?thesis by (auto simp: log_inv_def)
qed

lemma log_inv_start: "seq_start C \<Longrightarrow> log_inv (\<lambda>_. []) C"
  by (auto simp: seq_start_def log_inv_def server_ok_def)

section \<open>Every step keeps the log\<close>

lemma seq_update_backup_eq:
  "seq_update_backup request s =
     (case reply_hierachy (atoi (tok_at (tokens '';'' request) (Suc (Suc 0)))) s of
        None \<Rightarrow> Inr (False, s)
      | Some h \<Rightarrow> Inr (True, s\<lparr>articles := articles s @
          [\<lparr>art_ID = word_of_int (atoi (first_field (skip_field request))), art_primaryIP = [],
            art_content = [body_text (skip_field (skip_field request))], art_hierachy = h\<rparr>]\<rparr>))"
proof -
  have p: "substr c 0 (pos_pred q) = Inr (case pos_pred q of None \<Rightarrow> c | Some i \<Rightarrow> take i c)" for c q
    by (cases "pos_pred q") (simp_all add: substr_def)
  show ?thesis
    unfolding seq_update_backup_def Split_tz bindE.simps GetNext_tz prod.case Let_def substr_skip_field
      substr_first_field substr_drop_last_field p body_text_def
    by (rule refl)
qed

lemma update_preserves:
  assumes "server_ok L ID p s" "0 < n" "n \<le> ID" "L n = field ''-1'' @ r"
    and "frame_ok ''update'' ip PRIMARYPORT (field (to_string k) @ field (to_string n) @ field ''-1'' @ r)"
    and "seq_update_step ip (field (to_string k) @ field (to_string n) @ field ''-1'' @ r) s = Inr s'"
  shows "server_ok L ID p s' \<and> seq_ID s' = seq_ID s"
proof -
  let ?q = "field (to_string k) @ field (to_string n) @ field ''-1'' @ r"
  have nul: "CHR 0x00 \<notin> set ?q" "CHR 0x00 \<notin> set (local_ip s)" "isValidIP (local_ip s)"
    using assms(1,5) by (auto simp: frame_ok_def server_ok_def)
  have t: "tok_at (tokens '';'' ?q) (Suc (Suc 0)) = ''-1''"
    using tokens_field [of "''-1''" "CHR '';''" r] by (simp add: field_def tokens_field)
  have f: "first_field ?q = to_string k" "skip_field ?q = field (to_string n) @ field ''-1'' @ r"
    "first_field (field (to_string n) @ field ''-1'' @ r) = to_string n"
    "skip_field (field (to_string n) @ field ''-1'' @ r) = field ''-1'' @ r"
    by (simp_all add: field_def first_field_app skip_field_app)
  have b: "seq_update_backup ?q s = Inr (True, s\<lparr>articles := articles s @ [log_article L n]\<rparr>)"
    using assms(4) by (simp add: seq_update_backup_eq t f log_article_def del: append_assoc)
  define x where "x = field (last_field (drop_last_field ?q)) @ last_field ?q"
  have x: "CHR 0x00 \<notin> set x"
    using nul(1) set_field_ops(3) [of ?q] set_field_ops(3) [of "drop_last_field ?q"] set_field_ops(2) [of ?q]
    unfolding x_def field_def by auto
  let ?m = "frame ''ACK_up'' (local_ip s) PRIMARYPORT (field (to_string k) @ field ''1'' @ x)"
  have m: "''ACK_up;'' @ field (local_ip s) @ field (to_string PRIMARYPORT) @ field (to_string k) @ ''1;'' @ x = ?m"
    by (simp add: frame_def field_def)
  have ok: "frame_ok ''ACK_up'' (local_ip s) PRIMARYPORT (field (to_string k) @ field ''1'' @ x)"
    using x nul by (simp add: frame_ok_def field_def isValidPort_def)
  have "s' = UDP_send ip PRIMARYPORT ?m (s\<lparr>articles := articles s @ [log_article L n]\<rparr>)"
    using assms(6) unfolding seq_update_step_def b bindE.simps prod.case Let_def f if_True checkip_def
    by (simp add: m [unfolded x_def, simplified] x_def)
  then show ?thesis
    using assms(1-3) frame_no_nul [OF ok] wf_msg.ack [OF ok]
    by (auto simp: server_ok_def UDP_send_def)
qed

lemma forward_preserves:
  assumes "server_ok L (seq_ID s) True s" "0 \<le> seq_ID s"
    and "frame_ok ''forward_req'' ip BACKUPPORT (field ''-1'' @ r)"
  shows "server_ok (L(seq_ID s + 1 := field ''-1'' @ r)) (seq_ID s + 1) True (seq_forward_step (field ''-1'' @ r) s)
    \<and> seq_ID (seq_forward_step (field ''-1'' @ r) s) = seq_ID s + 1"
proof -
  let ?n = "seq_ID s + 1" let ?q = "field ''-1'' @ r" let ?L = "L(?n := ?q)"
  obtain k v where kv: "free_slot (ack_num s) = (k, v)" by fastforce
  have s: "requestQ s = []" "CHR 0x00 \<notin> set ?q" "CHR 0x00 \<notin> set (local_ip s)" "isValidIP (local_ip s)"
    using assms(1,3) by (auto simp: server_ok_def frame_ok_def)
  have m: "server_ok ?L ?n True s"
    using server_ok_mono [OF assms(1), of ?n ?L] by simp
  have f: "frame_ok ''update'' (local_ip s) PRIMARYPORT (field (to_string (int k)) @ field (to_string ?n) @ ?q)"
    using s by (simp add: frame_ok_def field_def isValidPort_def)
  have "wf_msg ?L ?n (update_msg (local_ip s) (int k) ?n ?q)"
    using f assms(2) by (intro wf_msg.update) auto
  with m show ?thesis
    unfolding seq_forward_step_eq [OF s(1-3)] kv prod.case
    by (auto simp: server_ok_def)
qed

lemma ack_preserves:
  assumes "server_ok L ID p s" "seq_ack_step (field (to_string k) @ field ''1'' @ r) s = Inr s'"
  shows "server_ok L ID p s' \<and> seq_ID s' = seq_ID s"
proof -
  have f: "skip_field (field (to_string k) @ field ''1'' @ r) = field ''1'' @ r"
    "first_field (field ''1'' @ r) = ''1''"
    using first_field_app [of "''1''" r] by (simp_all add: field_def skip_field_app)
  have a: "atoi ''1'' = 1" by code_simp
  have c: "cstr ''ACK_comp;1'' = ''ACK_comp;1''" by code_simp
  show ?thesis
    using assms(2,1) unfolding seq_ack_step_def Let_def f a
    by (auto simp: server_ok_def UDP_send_def c wf_msg.comp split: if_splits)
qed

lemma seq_listen_comp: "seq_listen_step ''ACK_comp;1'' s = Inr s"
proof -
  have "cstr (take BB_BUFLEN ''ACK_comp;1'') = ''ACK_comp;1''" by code_simp
  moreover have "tokens '';'' ''ACK_comp;1'' = [''ACK_comp'', ''1'']" by code_simp
  moreover have "\<not> isValidIP ''1''" by code_simp
  ultimately show ?thesis by (simp add: seq_listen_step_tokens)
qed

lemma deliver_preserves:
  assumes "server_ok L ID p s" "p \<Longrightarrow> ID = seq_ID s" "0 \<le> ID" "wf_msg L ID d" "length d \<le> BB_BUFLEN"
    and "seq_listen_step d s = Inr s'"
  shows "\<exists>L'. (\<forall>n\<le> ID. L' n = L n) \<and> ID \<le> (if p then seq_ID s' else ID)
           \<and> server_ok L' (if p then seq_ID s' else ID) p s'"
  using assms(4)
proof cases
  case (forward ip r)
  show ?thesis
  proof (cases p)
    case True
    then have c: "IsCoordinator s" using assms(1) by (simp add: server_ok_def)
    have "s' = seq_forward_step (field ''-1'' @ r) s"
      using seq_listen_frame [OF forward(2), of s] forward(1) assms(5,6) c by simp
    then show ?thesis
      using forward_preserves [of L s ip r] assms(1,2,3) forward(2) True
      by (intro exI [of _ "L(seq_ID s + 1 := field ''-1'' @ r)"]) simp
  next
    case False
    then have c: "\<not> IsCoordinator s" using assms(1) by (simp add: server_ok_def)
    have "s' = s" using seq_listen_frame [OF forward(2), of s] forward(1) assms(5,6) c by simp
    with assms(1) False show ?thesis by auto
  qed
next
  case (update ip k n r)
  have "seq_update_step ip (field (to_string k) @ field (to_string n) @ field ''-1'' @ r) s = Inr s'"
    using seq_listen_frame [OF update(2), of s] update(1) assms(5,6) by (simp add: update_msg_def)
  with update_preserves [OF assms(1) update(3-5,2)] assms(2) show ?thesis by auto
next
  case (ack ip k r)
  have "s' = s \<or> seq_ack_step (field (to_string k) @ field ''1'' @ r) s = Inr s'"
    using seq_listen_frame [OF ack(2), of s] ack(1) assms(5,6) by (cases "IsCoordinator s") auto
  with ack_preserves [OF assms(1)] assms(1,2) show ?thesis by auto
next
  case comp
  with assms(6) have "s' = s" by (simp add: seq_listen_comp)
  with assms(1,2) show ?thesis by auto
qed

lemma server_ok_send:
  assumes "server_ok L ID p s" "q mod 65536 \<noteq> PRIMARYPORT"
  shows "server_ok L ID p (UDP_send ip q m s)" "server_ok L ID p (s\<lparr>inbox := ib\<rparr>)"
  using assms by (auto simp: server_ok_def UDP_send_def)

lemma post_preserves:
  assumes "server_ok L ID p s" "sa_port c mod 65536 \<noteq> PRIMARYPORT" "CHR 0x00 \<notin> set request"
    and "seq_Post_handler c request (s\<lparr>inbox := ib\<rparr>) = Inr s'"
  shows "server_ok L ID p s' \<and> seq_ID s' = seq_ID s"
proof -
  define q where "q = request @ '';'' @ field (local_ip s) @ to_string BACKUPPORT"
  have f: "frame_ok ''forward_req'' (local_ip s) BACKUPPORT (field ''-1'' @ q)"
    using assms(1,3) by (simp add: frame_ok_def server_ok_def isValidPort_def field_def q_def)
  define s1 where "s1 = seq_forwardW2 (''-1;'' @ q) (s\<lparr>inbox := ib\<rparr>)"
  have "s1 = UDP_send (coordinatorIP s) PRIMARYPORT (frame ''forward_req'' (local_ip s) BACKUPPORT (field ''-1'' @ q))
      (s\<lparr>inbox := ib\<rparr>)"
    by (simp add: s1_def seq_forwardW2_def checkip_def frame_def field_def)
  then have "server_ok L ID p s1 \<and> seq_ID s1 = seq_ID s"
    using assms(1) frame_no_nul [OF f] wf_msg.forward [OF f] by (auto simp: server_ok_def UDP_send_def)
  moreover obtain w s2 where "UDP_receive BACKUPPORT s1 = Inr (w, s2)"
    and "s' = UDP_send (sa_ip c) (sa_port c) w s2"
    using assms(4) by (auto simp: seq_Post_handler_def Let_def bindE_Inr_iff s1_def q_def checkip_def)
  ultimately show ?thesis
    using assms(2) by (auto simp: UDP_receive_def server_ok_def UDP_send_def split: list.splits if_splits)
qed

lemma read_preserves:
  assumes "server_ok L ID p s" "sa_port c mod 65536 \<noteq> PRIMARYPORT" "seq_Read_handler c s = Inr s'"
  shows "server_ok L ID p s' \<and> seq_ID s' = seq_ID s"
  using assms
  by (auto simp: seq_Read_handler_def sendArticle_def Let_def bindE_Inr_iff server_ok_def UDP_send_def)

lemma log_inv_step:
  assumes "seq_step C C'" "log_inv L C"
  shows "\<exists>L'. log_inv L' C'"
proof -
  have ok: "server_ok L (seq_ID (C ! 0)) (i = 0) (C ! i)" if "i < length C" for i
    using assms(2) that by (simp add: log_inv_def)
  show ?thesis
    using assms(1)
  proof cases
    case (post i c request w5 s')
    then show ?thesis
      using post_preserves [OF ok [OF post(2)] post(3,4,5)] log_inv_update [OF assms(2) post(2), of "seq_ID (C ! 0)" s' L]
      by (cases "i = 0") auto
  next
    case (read i c s')
    then show ?thesis
      using read_preserves [OF ok [OF read(2)] read(3,4)] log_inv_update [OF assms(2) read(2), of "seq_ID (C ! 0)" s' L]
      by (cases "i = 0") auto
  next
    case (deliver i ip d s')
    have "wf_msg L (seq_ID (C ! 0)) d"
      using deliver(3) ok by (auto simp: seq_net_def in_set_conv_nth [of _ C] server_ok_def)
    then obtain L' where "\<forall>n\<le> seq_ID (C ! 0). L' n = L n"
      "seq_ID (C ! 0) \<le> (if i = 0 then seq_ID s' else seq_ID (C ! 0))"
      "server_ok L' (if i = 0 then seq_ID s' else seq_ID (C ! 0)) (i = 0) s'"
      using deliver_preserves [OF ok [OF deliver(2)] _ _ _ deliver(4,5)] assms(2)
      by (auto simp: log_inv_def)
    then show ?thesis
      using log_inv_update [OF assms(2) deliver(2), of "if i = 0 then seq_ID s' else seq_ID (C ! 0)" s' L'] deliver(1)
      by auto
  qed
qed

lemma log_inv_reachable: "seq_step\<^sup>*\<^sup>* C C' \<Longrightarrow> log_inv L C \<Longrightarrow> \<exists>L'. log_inv L' C'"
proof (induction rule: rtranclp_induct)
  case base
  then show ?case by blast
next
  case (step y z)
  then show ?case using log_inv_step by blast
qed

lemma log_article_inj:
  assumes "art_ID (log_article L m) = art_ID (log_article L n)" "0 < m" "m < 2 ^ 31" "0 < n" "n < 2 ^ 31"
  shows "m = n"
proof -
  have "is_int32 m" "is_int32 n" using assms by (auto simp: is_int32_def)
  then have "(word_of_int m :: 32 word) = word_of_int n"
    using assms(1) by (simp add: log_article_def atoi_to_string)
  then have "take_bit 32 m = take_bit 32 n" by (simp add: word_of_int_eq_iff)
  moreover have "m < 2 ^ 32" "n < 2 ^ 32" using assms by simp_all
  ultimately show ?thesis
    using assms by (simp add: take_bit_int_eq_self)
qed

section \<open>Agreement\<close>



section \<open>Schedules\<close>

text \<open>A schedule of the cluster can be run; what it reaches is reachable.\<close>

datatype seq_event = Post nat SAddr string string | Read nat SAddr | Deliver nat string

fun seq_fire :: "seq_event \<Rightarrow> seq_server list \<Rightarrow> seq_server list option" where
  "seq_fire (Post i c request w5) C =
     (if i < length C \<and> sa_port c mod 65536 \<noteq> PRIMARYPORT \<and> CHR 0x00 \<notin> set request then
        (case seq_Post_handler c request ((C ! i)\<lparr>inbox := (inbox (C ! i))(BACKUPPORT := [w5])\<rparr>) of
           Inl _ \<Rightarrow> None | Inr s' \<Rightarrow> Some (C[i := s']))
      else None)"
| "seq_fire (Read i c) C =
     (if i < length C \<and> sa_port c mod 65536 \<noteq> PRIMARYPORT then
        (case seq_Read_handler c (C ! i) of Inl _ \<Rightarrow> None | Inr s' \<Rightarrow> Some (C[i := s']))
      else None)"
| "seq_fire (Deliver i d) C =
     (if i < length C \<and> list_ex (\<lambda>s. list_ex (\<lambda>(_, p, m). p = PRIMARYPORT \<and> m = d) (outbox s)) C
         \<and> length d \<le> BB_BUFLEN then
        (case seq_listen_step d (C ! i) of Inl _ \<Rightarrow> None | Inr s' \<Rightarrow> Some (C[i := s']))
      else None)"

fun seq_schedule :: "seq_event list \<Rightarrow> seq_server list \<Rightarrow> seq_server list option" where
  "seq_schedule [] C = Some C"
| "seq_schedule (e # es) C = (case seq_fire e C of None \<Rightarrow> None | Some C' \<Rightarrow> seq_schedule es C')"

lemma seq_fire_sound: "seq_fire e C = Some C' \<Longrightarrow> seq_step C C'"
proof (cases e)
  case (Post i c request w5)
  then show "seq_fire e C = Some C' \<Longrightarrow> seq_step C C'"
    by (auto split: if_splits sum.splits intro: seq_step.post)
next
  case (Read i c)
  then show "seq_fire e C = Some C' \<Longrightarrow> seq_step C C'"
    by (auto split: if_splits sum.splits intro: seq_step.read)
next
  case (Deliver i d)
  then show "seq_fire e C = Some C' \<Longrightarrow> seq_step C C'"
    by (auto simp: list_ex_iff seq_net_def split: if_splits sum.splits intro!: seq_step.deliver)
qed

lemma seq_schedule_sound: "seq_schedule es C = Some C' \<Longrightarrow> seq_step\<^sup>*\<^sup>* C C'"
  by (induction es arbitrary: C)
    (auto split: option.splits intro: converse_rtranclp_into_rtranclp dest: seq_fire_sound)

definition sample_server :: "string \<Rightarrow> bool \<Rightarrow> seq_server" where
  "sample_server ip prim = \<lparr>local_ip = ip, inbox = (\<lambda>_. []), outbox = [], coordinatorIP = ''10.0.0.1'',
     IsCoordinator = prim, SIPs = (if prim then [\<lparr>sa_ip = ''10.0.0.1'', sa_port = 5105\<rparr>, \<lparr>sa_ip = ''10.0.0.2'', sa_port = 5105\<rparr>]
       else []), CIPs = [], articles = [], seq_ID = 0, requestQ = [], ack_num = replicate 3 0\<rparr>"

definition sample_cluster :: "seq_server list" where
  "sample_cluster = [sample_server ''10.0.0.1'' True, sample_server ''10.0.0.2'' False]"

definition sample_run :: "seq_event list" where
  "sample_run =
    [Post 1 \<lparr>sa_ip = ''10.0.0.9'', sa_port = 5106\<rparr> ''one!'' ''ACK_comp;1'',
     Post 0 \<lparr>sa_ip = ''10.0.0.8'', sa_port = 5106\<rparr> ''two!'' ''ACK_comp;1'',
     Deliver 0 ''forward_req;10.0.0.2;5101;-1;one!;10.0.0.2;5101'',
     Deliver 0 ''forward_req;10.0.0.1;5101;-1;two!;10.0.0.1;5101'',
     Deliver 0 ''update;10.0.0.1;5100;0;1;-1;one!;10.0.0.2;5101'',
     Deliver 1 ''update;10.0.0.1;5100;0;2;-1;two!;10.0.0.1;5101'',
     Deliver 1 ''update;10.0.0.1;5100;0;1;-1;one!;10.0.0.2;5101'',
     Deliver 0 ''update;10.0.0.1;5100;0;2;-1;two!;10.0.0.1;5101'']"

definition sample_end :: "seq_server list" where
  "sample_end = (case seq_schedule sample_run sample_cluster of Some C \<Rightarrow> C | None \<Rightarrow> [])"

lemma sample_start: "seq_start sample_cluster"
proof -
  have "isValidIP ''10.0.0.1''" "isValidIP ''10.0.0.2''" by code_simp+
  then show ?thesis by (auto simp: seq_start_def sample_cluster_def sample_server_def nth_Cons' less_Suc_eq)
qed

lemma sample_reached: "seq_step\<^sup>*\<^sup>* sample_cluster sample_end"
proof -
  have "\<not> Option.is_none (seq_schedule sample_run sample_cluster)" by code_simp
  then have "seq_schedule sample_run sample_cluster = Some sample_end"
    by (auto simp: sample_end_def Option.is_none_def split: option.splits)
  then show ?thesis by (rule seq_schedule_sound)
qed

lemma sample_articles:
  "map articles sample_end =
     [[\<lparr>art_ID = 1, art_primaryIP = [], art_content = [''one''], art_hierachy = 0\<rparr>,
       \<lparr>art_ID = 2, art_primaryIP = [], art_content = [''two''], art_hierachy = 0\<rparr>],
      [\<lparr>art_ID = 2, art_primaryIP = [], art_content = [''two''], art_hierachy = 0\<rparr>,
       \<lparr>art_ID = 1, art_primaryIP = [], art_content = [''one''], art_hierachy = 0\<rparr>]]"
  by code_simp

lemma sample_ID: "seq_ID (sample_end ! 0) = 2" "length sample_end = 2"
  by code_simp+




end
