(* ===== verification/QuorumRound.thy ===== *)
theory QuorumRound
  imports QuorumServer
begin

text \<open>
  A whole round of the quorum coordinator: writing to the selected servers, finding the
  newest, reading its list and synchronising every server with it. \<open>keeps P s s'\<close> is what
  the exchanges of a round leave alone: address and server vector, the ports outside \<open>P\<close>,
  and everything sent before.
\<close>

definition keeps :: "int set \<Rightarrow> qum_server \<Rightarrow> qum_server \<Rightarrow> bool" where
  "keeps P s s' \<longleftrightarrow> local_ip s' = local_ip s \<and> SIPs s' = SIPs s \<and> (\<forall>p. p \<notin> P \<longrightarrow> inbox s' p = inbox s p)
     \<and> (\<exists>out. outbox s' = outbox s @ out)"

lemma keeps_refl [simp]: "keeps P s s"
  by (simp add: keeps_def)

lemma keeps_trans: "keeps P s1 s2 \<Longrightarrow> keeps P s2 s3 \<Longrightarrow> keeps P s1 s3"
  by (auto simp: keeps_def)

lemma keeps_mono: "keeps P s s' \<Longrightarrow> P \<subseteq> Q \<Longrightarrow> keeps Q s s'"
  by (auto simp: keeps_def)

lemma ask_keeps: "ask target port command s = Inr (r, s') \<Longrightarrow> keeps {port} s s' \<and> articles s' = articles s
     \<and> (target, PRIMARYPORT, cstr command) \<in> set (outbox s')"
  by (auto simp: ask_def UDP_receive_def UDP_send_def keeps_def split: list.splits if_splits)

lemma newest_loop_keeps:
  "newest_loop command its maxVer newest s = Inr (n, s') \<Longrightarrow> keeps {GETNEWVER_PORT} s s' \<and> articles s' = articles s"
proof (induction its arbitrary: maxVer newest s)
  case (Cons it its)
  then obtain v s1 where 1: "(if sa_ip it = checkip s then Inr (VER s, s)
      else bindE (ask (sa_ip it) GETNEWVER_PORT command s) (\<lambda>(r, s'). Inr (atoi r, s'))) = Inr (v, s1)"
    and 2: "newest_loop command its (if v \<ge> maxVer then v else maxVer) (if v \<ge> maxVer then Some it else newest) s1 = Inr (n, s')"
    by (auto simp: result_simps split: if_splits)
  from 1 have "keeps {GETNEWVER_PORT} s s1 \<and> articles s1 = articles s"
    by (auto simp: result_simps split: if_splits dest: ask_keeps)
  with Cons.IH [OF 2] show ?case using keeps_trans by auto
qed simp

lemma getNewestServer_keeps:
  "getNewestServer l s = Inr (h, s') \<Longrightarrow> keeps {GETNEWVER_PORT} s s' \<and> articles s' = articles s"
  by (auto simp: getNewestServer_def Let_def result_simps split: option.splits dest: newest_loop_keeps)

lemma write_loop_keeps: "write_loop command content preHie its s = Inr s' \<Longrightarrow> keeps {WRITESELECT_PORT} s s'"
proof (induction its arbitrary: s)
  case (Cons it its)
  then obtain s1 where 1: "sa_ip it = checkip s \<and> s1 = writeArticle content preHie s
      \<or> (\<exists>r. ask (sa_ip it) WRITESELECT_PORT command s = Inr (r, s1))" and 2: "write_loop command content preHie its s1 = Inr s'"
    by (auto simp: result_simps split: if_splits)
  from 1 have "keeps {WRITESELECT_PORT} s s1"
    by (auto simp: writeArticle_def keeps_def dest: ask_keeps)
  with Cons.IH [OF 2] show ?case using keeps_trans by blast
qed simp

lemma sendArticle_keeps: "sendArticle ip p s = Inr s' \<Longrightarrow> keeps {} s s'"
  by (auto simp: sendArticle_def Let_def result_simps UDP_send_def keeps_def)

lemma UDP_send_keeps: "keeps P s (UDP_send ip p m s)"
  by (simp add: UDP_send_def keeps_def)

lemma fetch_newest_keeps:
  assumes "fetch_newest servers port s = Inr (R, s')" "inbox s port = d # ds" "port \<noteq> GETNEWVER_PORT"
  shows "keeps {GETNEWVER_PORT, port} s s' \<and> R = cstr d"
proof -
  obtain h s1 s2 where 1: "getNewestServer servers s = Inr (h, s1)" and 3: "UDP_receive port s2 = Inr (R, s')"
    and m: "(if h = checkip s1 then sendArticle (checkip s1) port s1
       else Inr (UDP_send h PRIMARYPORT (''OPERATION_READ;SYNCH;'' @ field (checkip s1) @ to_string port) s1)) = Inr s2"
    using assms(1) unfolding fetch_newest_def by (auto simp only: bindE_Inr_iff prod.case)
  have 2: "keeps {} s1 s2"
    using m by (cases "h = checkip s1") (simp_all only: if_True if_False sum.inject, auto simp: sendArticle_keeps intro: UDP_send_keeps)
  have "keeps {GETNEWVER_PORT} s s1" using getNewestServer_keeps [OF 1] by simp
  then have k: "keeps {GETNEWVER_PORT} s s2" using 2 keeps_mono [of "{}" s1 s2] keeps_trans by blast
  then have "inbox s2 port = d # ds" using assms(2,3) by (simp add: keeps_def)
  then have "R = cstr d" "keeps {port} s2 s'" using 3 by (auto simp: UDP_receive_def keeps_def split: if_splits)
  then show ?thesis using keeps_trans [OF keeps_mono [OF k] keeps_mono, of "{GETNEWVER_PORT, port}" "{port}"] by blast
qed

lemma synch_loop_all:
  assumes "synch_loop (synch_msg ip (article_message as)) (article_message as) its s = Inr s'"
    and "list_all five_fields as" "local_ip s = ip" "CHR 0x00 \<notin> set ip"
  shows "keeps {SYNCH_PORT} s s' \<and> articles s' = (if ip \<in> sa_ip ` set its then renumber as 0 else articles s)
     \<and> (\<forall>it\<in>set its. sa_ip it \<noteq> ip \<longrightarrow> (sa_ip it, PRIMARYPORT, synch_msg ip (article_message as)) \<in> set (outbox s'))"
  using assms(1,3)
proof (induction its arbitrary: s)
  case (Cons it its)
  let ?c = "synch_msg ip (article_message as)"
  have nul: "cstr ?c = ?c"
    using article_message_no_nul [OF list_five_fields_clean [OF assms(2)]] assms(4)
    by (simp add: synch_msg_def qum_frame_def field_def)
  obtain s1 where s1: "synch_loop ?c (article_message as) its s1 = Inr s'" "keeps {SYNCH_PORT} s s1"
    "articles s1 = (if sa_ip it = ip then renumber as 0 else articles s)"
    "sa_ip it \<noteq> ip \<longrightarrow> (sa_ip it, PRIMARYPORT, ?c) \<in> set (outbox s1)"
  proof (cases "sa_ip it = ip")
    case True
    then show ?thesis using that [of "s\<lparr>articles := renumber as 0\<rparr>"] Cons.prems
      by (simp add: checkip_def loadArticle_message [OF assms(2)] keeps_def)
  next
    case False
    then obtain r s1 where "ask (sa_ip it) SYNCH_PORT ?c s = Inr (r, s1)" "synch_loop ?c (article_message as) its s1 = Inr s'"
      using Cons.prems by (auto simp: checkip_def result_simps)
    then show ?thesis using that [of s1] ask_keeps nul False by fastforce
  qed
  have ip: "local_ip s1 = ip" using s1(2) Cons.prems(2) by (simp add: keeps_def)
  from Cons.IH [OF s1(1) ip] show ?case
    using s1(2-4) keeps_trans [OF s1(2), of s'] by (auto simp: keeps_def)
qed simp

text \<open>One list everywhere: the state of the coordinator, and what each member's message does to it.\<close>

definition holds_list :: "(SAddr list \<Rightarrow> nat \<Rightarrow> SAddr) \<Rightarrow> (nat \<Rightarrow> nat) \<Rightarrow> Article list \<Rightarrow> qum_server \<Rightarrow> SAddr \<Rightarrow> bool" where
  "holds_list freed rnd as s' it \<longleftrightarrow>
     (if sa_ip it = local_ip s' then articles s' = as
      else (\<exists>m. (sa_ip it, 5100, m) \<in> set (outbox s')
              \<and> (\<forall>t. \<exists>t'. qum_listen_step freed rnd m t = Inr t' \<and> articles t' = as)))"

lemma synchSelectedServer_all:
  assumes "synchSelectedServer (SIPs s) (article_message as) s = Inr s'" "list_all five_fields as"
    and "isValidIP (local_ip s)" "CHR 0x00 \<notin> set (local_ip s)"
    and "length (synch_msg (local_ip s) (article_message as)) \<le> BB_BUFLEN"
  shows "keeps {SYNCH_PORT} s s' \<and> (\<forall>it\<in>set (SIPs s). holds_list freed rnd (renumber as 0) s' it)"
proof -
  have c: "''OPERATION_SYNCH;SYNCH;'' @ field (checkip s) @ field (to_string SYNCH_PORT) @ article_message as
      = synch_msg (local_ip s) (article_message as)"
    by (simp add: synch_msg_def qum_frame_def field_def checkip_def)
  have l: "synch_loop (synch_msg (local_ip s) (article_message as)) (article_message as) (SIPs s) s = Inr s'"
    using assms(1) unfolding synchSelectedServer_def Let_def c .
  note a = synch_loop_all [OF l assms(2) refl assms(4)]
  then have "local_ip s' = local_ip s" by (simp add: keeps_def)
  moreover have "\<exists>t'. qum_listen_step freed rnd (synch_msg (local_ip s) (article_message as)) t = Inr t' \<and> articles t' = renumber as 0" for t
    by (rule exI, rule conjI, rule quorum_synch_copies [OF assms(2,3,4,5)]) simp
  ultimately show ?thesis
    using a unfolding holds_list_def by (metis image_eqI)
qed

text \<open>
  A round of the quorum brings the servers together. When the coordinator completes a
  post and the list it read back from the newest server has the client's five fields, the
  client is told of the success, and every server of the vector holds that one list: the
  coordinator at once, each member when it handles the message it was sent, whatever it
  held before.
\<close>

theorem quorum_post_converges:
  assumes "FORWARD_post freed rnd request host port pre s = Inr s'"
    and "isValidIP (local_ip s)" "CHR 0x00 \<notin> set (local_ip s)"
    and "inbox s 6102 = article_message as # ds" "as \<noteq> []" "list_all five_fields as"
    and "length (synch_msg (local_ip s) (article_message as)) \<le> 8000"
  shows "\<exists>p. stoi port = Inr p \<and> last (outbox s') = (host, p mod 65536, ''Success;1'')
     \<and> (\<forall>it\<in>set (SIPs s). holds_list freed rnd (renumber as 0) s' it)"
proof -
  obtain l preHie result s1 R s2 s3 p where
    w: "writeSelectedServer l request preHie s = Inr (result, s1)" and f: "fetch_newest l REQUESTPORT s1 = Inr (R, s2)"
    and y: "(if R \<noteq> [] then synchSelectedServer (SIPs s2) R s2 else Inr s2) = Inr s3" and p: "stoi port = Inr p"
    and s': "s' = UDP_send host p (if result then ''Success;1'' else ''Fail;0'') s3"
    using assms(1) unfolding FORWARD_post_def by (auto simp only: bindE_Inr_iff prod.case sum.inject)
  have w': "result" "keeps {WRITESELECT_PORT} s s1"
    using w by (auto simp: writeSelectedServer_def Let_def result_simps dest: write_loop_keeps)
  then have "inbox s1 REQUESTPORT = article_message as # ds" using assms(4) by (simp add: keeps_def)
  from fetch_newest_keeps [OF f this] have k2: "keeps {GETNEWVER_PORT, REQUESTPORT} s1 s2" "R = cstr (article_message as)" by auto
  have R: "R = article_message as" "R \<noteq> []"
    using k2(2) article_message_no_nul [OF list_five_fields_clean [OF assms(6)]]
      article_message_empty_iff [OF list_five_fields_clean [OF assms(6)]] assms(5) by simp_all
  have ip: "local_ip s2 = local_ip s" "SIPs s2 = SIPs s" using w'(2) k2(1) by (simp_all add: keeps_def)
  have "synchSelectedServer (SIPs s2) (article_message as) s2 = Inr s3" using y R by simp
  from synchSelectedServer_all [OF this assms(6)] ip assms(2,3,7)
  have h: "keeps {SYNCH_PORT} s2 s3" "\<forall>it\<in>set (SIPs s). holds_list freed rnd (renumber as 0) s3 it" by simp_all
  have "last (outbox s') = (host, p mod 65536, ''Success;1'')" using s' w'(1) by (simp add: UDP_send_def)
  moreover have "holds_list freed rnd (renumber as 0) s' it" if "holds_list freed rnd (renumber as 0) s3 it" for it
    using that by (auto simp: holds_list_def s' UDP_send_def split: if_splits)
  ultimately show ?thesis using p h(2) by blast
qed

lemma quorum_post_converges_witness:
  "\<exists>s'. FORWARD_post (\<lambda>l k. l ! k) (\<lambda>i. i) ''1;T;A;now;text'' ''10.0.0.9'' ''5106'' ''-1''
      ((qum_sample three_servers 2 2)\<lparr>inbox := (\<lambda>p. if p = 6102 then [''1;T;A;now;text;0''] else [''1'', ''1'', ''1'', ''1''])\<rparr>) = Inr s'
     \<and> articles s' = [(sample_article 1)\<lparr>art_primaryIP := []\<rparr>]
     \<and> holds_list (\<lambda>l k. l ! k) (\<lambda>i. i) (articles s') s' \<lparr>sa_ip = ''10.0.0.3'', sa_port = 5105\<rparr>"
proof -
  let ?s = "(qum_sample three_servers 2 2)\<lparr>inbox := (\<lambda>p. if p = 6102 then [''1;T;A;now;text;0''] else [''1'', ''1'', ''1'', ''1''])\<rparr>"
  let ?r = "FORWARD_post (\<lambda>l k. l ! k) (\<lambda>i. i) ''1;T;A;now;text'' ''10.0.0.9'' ''5106'' ''-1'' ?s"
  have "ok (map_sum id (\<lambda>s. ()) ?r)" "map_sum id local_ip ?r = Inr ''10.0.0.1''" by code_simp+
  then obtain s' where s': "?r = Inr s'" "local_ip s' = ''10.0.0.1''" by (cases ?r) simp_all
  have m: "article_message [sample_article 9] = ''1;T;A;now;text;0''" "isValidIP ''10.0.0.1''"
    "length (synch_msg ''10.0.0.1'' (article_message [sample_article 9])) \<le> 8000"
    by code_simp+
  have "\<forall>it\<in>set (SIPs ?s). holds_list (\<lambda>l k. l ! k) (\<lambda>i. i) (renumber [sample_article 9] 0) s' it"
    using quorum_post_converges [OF s'(1), of "[sample_article 9]" "[]"] m sample_five_fields by (auto simp: qum_sample_def)
  then show ?thesis using s' by (auto simp: qum_sample_def three_servers_def holds_list_def sample_article_def)
qed

end
