(* ===== verification/QuorumNet.thy ===== *)
theory QuorumNet
  imports QuorumServer
begin

text \<open>
  The quorum coordinator among its servers. \<open>deliver\<close> hands one datagram to the server it
  is addressed to, which handles it with \<open>qum_listen_step\<close>; what is addressed to nobody in
  the cluster (the coordinator's reply ports, a client) is kept as mail. \<open>qum_turn\<close> is a
  whole turn of the coordinator: it handles a datagram, and the replies it reads while it
  does so are those its own datagrams, delivered in the order it sends them, produce.

  The phases of a turn all send one message to a list of servers and wait for each answer;
  \<open>deliver_broadcast\<close> says what such a phase does to the servers, the \<open>_sent\<close> lemmas what
  it does to the coordinator.
\<close>

section \<open>The network\<close>

type_synonym mail = "string \<times> int \<Rightarrow> string list"

type_synonym members = "string \<Rightarrow> qum_server option"

definition put_mail :: "string \<times> int \<times> string \<Rightarrow> mail \<Rightarrow> mail" where
  "put_mail x mail = (case x of (ip, p, m) \<Rightarrow> mail((ip, p) := mail (ip, p) @ [m]))"

definition deliver ::
  "(SAddr list \<Rightarrow> nat \<Rightarrow> SAddr) \<Rightarrow> (nat \<Rightarrow> nat) \<Rightarrow> string \<times> int \<times> string \<Rightarrow> members \<times> mail \<Rightarrow> (members \<times> mail) result"
where
  "deliver freed rnd x net =
     (case (x, net) of ((ip, p, m), (cl, mail)) \<Rightarrow>
        (case (if p = PRIMARYPORT then cl ip else None) of
           None \<Rightarrow> Inr (cl, put_mail x mail)
         | Some s \<Rightarrow>
             bindE (qum_listen_step freed rnd m (s\<lparr>outbox := []\<rparr>))
               (\<lambda>s'. Inr (cl(ip \<mapsto> s'\<lparr>outbox := []\<rparr>), fold put_mail (outbox s') mail))))"

fun deliver_all ::
  "(SAddr list \<Rightarrow> nat \<Rightarrow> SAddr) \<Rightarrow> (nat \<Rightarrow> nat) \<Rightarrow> (string \<times> int \<times> string) list \<Rightarrow> members \<times> mail \<Rightarrow>
   (members \<times> mail) result"
where
  "deliver_all freed rnd [] net = Inr net"
| "deliver_all freed rnd (x # xs) net = bindE (deliver freed rnd x net) (deliver_all freed rnd xs)"

text \<open>A turn of the coordinator \<open>s\<close>, for whatever it does (\<open>act\<close>).\<close>

definition qum_turn ::
  "(SAddr list \<Rightarrow> nat \<Rightarrow> SAddr) \<Rightarrow> (nat \<Rightarrow> nat) \<Rightarrow> (qum_server \<Rightarrow> qum_server result) \<Rightarrow>
   qum_server \<Rightarrow> members \<Rightarrow> qum_server \<Rightarrow> members \<Rightarrow> mail \<Rightarrow> bool"
where
  "qum_turn freed rnd act s cl s' cl' mail \<longleftrightarrow>
     act (s\<lparr>outbox := [], inbox := (\<lambda>p. mail (local_ip s, p))\<rparr>) = Inr s'
     \<and> deliver_all freed rnd (outbox s') (cl, (\<lambda>_. [])) = Inr (cl', mail)"

lemma deliver_all_append:
  "deliver_all freed rnd (xs @ ys) net = bindE (deliver_all freed rnd xs net) (deliver_all freed rnd ys)"
proof (induction xs arbitrary: net)
  case (Cons x xs)
  then have "deliver_all freed rnd (xs @ ys) = (\<lambda>net. bindE (deliver_all freed rnd xs net) (deliver_all freed rnd ys))" by blast
  then show ?case by (simp add: bindE_assoc)
qed simp

lemma deliver_all_appendI: "deliver_all freed rnd xs net = Inr net1 \<Longrightarrow> deliver_all freed rnd (xs @ ys) net = deliver_all freed rnd ys net1"
  by (simp add: deliver_all_append)

lemma deliver_all_appendE:
  assumes "deliver_all freed rnd (xs @ ys) net = Inr net'"
  obtains net1 where "deliver_all freed rnd xs net = Inr net1" "deliver_all freed rnd ys net1 = Inr net'"
  using assms by (auto simp: deliver_all_append bindE_Inr_iff)

text \<open>Mail is only added.\<close>

lemma fold_put_mail: "\<exists>e. fold put_mail xs mail k = mail k @ e"
proof (induction xs arbitrary: mail)
  case (Cons x xs)
  obtain ip p m where x: "x = (ip, p, m)" by (cases x)
  obtain e where "fold put_mail xs (put_mail x mail) k = put_mail x mail k @ e" using Cons.IH by blast
  moreover have "\<exists>e. put_mail x mail k = mail k @ e" by (simp add: x put_mail_def)
  ultimately show ?case by auto
qed simp

lemma deliver_all_mail:
  assumes "deliver_all freed rnd xs (cl, mail) = Inr (cl', mail')"
  shows "\<exists>e. mail' k = mail k @ e"
  using assms
proof (induction xs arbitrary: cl mail)
  case (Cons x xs)
  then obtain cl1 mail1 where 1: "deliver freed rnd x (cl, mail) = Inr (cl1, mail1)"
    "deliver_all freed rnd xs (cl1, mail1) = Inr (cl', mail')"
    by (auto simp: bindE_Inr_iff)
  then obtain ys where "mail1 = fold put_mail ys mail"
    by (cases x) (auto simp: deliver_def bindE_Inr_iff split: option.splits if_splits intro: that [of "[_]"])
  then obtain e where "mail1 k = mail k @ e" using fold_put_mail by metis
  moreover obtain e' where "mail' k = mail1 k @ e'" using Cons.IH [OF 1(2)] by blast
  ultimately show ?case by simp
qed simp

lemma deliver_mail [simp]: "p \<noteq> PRIMARYPORT \<or> cl ip = None \<Longrightarrow> deliver freed rnd (ip, p, m) (cl, mail) = Inr (cl, mail((ip, p) := mail (ip, p) @ [m]))"
  by (simp add: deliver_def put_mail_def)

text \<open>One message to a list of servers, each of which handles it and answers \<open>c\<close> at port \<open>q\<close>.\<close>

definition update_members :: "(qum_server \<Rightarrow> qum_server) \<Rightarrow> string set \<Rightarrow> members \<Rightarrow> members" where
  "update_members f ips cl = (\<lambda>ip. if ip \<in> ips then map_option f (cl ip) else cl ip)"

lemma deliver_broadcast:
  assumes "\<And>m. qum_listen_step freed rnd cmd (m\<lparr>outbox := []\<rparr>) = Inr ((f m)\<lparr>outbox := [(c, q, r m)]\<rparr>)"
    and "distinct (map sa_ip l)" "\<forall>a\<in>set l. cl (sa_ip a) \<noteq> None" "\<And>m. outbox (f m) = []"
  shows "deliver_all freed rnd (map (\<lambda>a. (sa_ip a, PRIMARYPORT, cmd)) l) (cl, mail) =
     Inr (update_members f (sa_ip ` set l) cl,
          mail((c, q) := mail (c, q) @ map (\<lambda>a. r (the (cl (sa_ip a)))) l))"
  using assms(2,3)
proof (induction l arbitrary: cl mail)
  case Nil
  then show ?case by (simp add: update_members_def)
next
  case (Cons a l)
  obtain m where m: "cl (sa_ip a) = Some m" using Cons.prems(2) by auto
  have e: "(f m)\<lparr>outbox := []\<rparr> = f m" using assms(4) [of m] by simp
  let ?cl = "cl(sa_ip a \<mapsto> f m)" and ?mail = "mail((c, q) := mail (c, q) @ [r m])"
  have d: "deliver freed rnd (sa_ip a, PRIMARYPORT, cmd) (cl, mail) = Inr (?cl, ?mail)"
    by (simp add: deliver_def m assms(1) put_mail_def e)
  have n: "\<forall>b\<in>set l. sa_ip b \<noteq> sa_ip a" using Cons.prems(1) by (metis distinct.simps(2) image_eqI list.set_map list.simps(9))
  have e: "map (\<lambda>b. r (the (?cl (sa_ip b)))) l = map (\<lambda>b. r (the (cl (sa_ip b)))) l"
    "update_members f (sa_ip ` set l) ?cl = update_members f (sa_ip ` set (a # l)) cl"
    using n m by (auto simp: update_members_def fun_eq_iff)
  have "deliver_all freed rnd (map (\<lambda>a. (sa_ip a, PRIMARYPORT, cmd)) l) (?cl, ?mail) =
     Inr (update_members f (sa_ip ` set l) ?cl, ?mail((c, q) := ?mail (c, q) @ map (\<lambda>a. r (the (?cl (sa_ip a)))) l))"
    using Cons.prems n by (intro Cons.IH) auto
  then show ?case unfolding e by (simp add: d m fun_upd_def [symmetric])
qed

section \<open>What a phase does to the coordinator\<close>

text \<open>The state but for the network.\<close>

definition core :: "qum_server \<Rightarrow> qum_server" where
  "core s = s\<lparr>inbox := (\<lambda>_. []), outbox := []\<rparr>"

definition others :: "string \<Rightarrow> SAddr list \<Rightarrow> SAddr list" where
  "others ip l = filter (\<lambda>a. sa_ip a \<noteq> ip) l"

text \<open>\<open>s'\<close> is \<open>s\<close> but for \<open>upd\<close>, the messages to the servers \<open>l\<close>, and what was read at \<open>port\<close>.\<close>

definition sent_to :: "int \<Rightarrow> string \<Rightarrow> SAddr list \<Rightarrow> (qum_server \<Rightarrow> qum_server) \<Rightarrow> qum_server \<Rightarrow> qum_server \<Rightarrow> bool" where
  "sent_to port cmd l upd s s' \<longleftrightarrow> core s' = core (upd s)
     \<and> outbox s' = outbox s @ map (\<lambda>a. (sa_ip a, PRIMARYPORT, cmd)) l
     \<and> (\<forall>p. p \<noteq> port \<longrightarrow> inbox s' p = inbox s p) \<and> inbox s' port = drop (length l) (inbox s port)"

lemma core_simps:
  assumes "core s' = core s"
  shows "local_ip s' = local_ip s" "SIPs s' = SIPs s" "articles s' = articles s" "VER s' = VER s"
    "qum_ID s' = qum_ID s" "IsCoordinator s' = IsCoordinator s" "qum_N s' = qum_N s" "Nr s' = Nr s" "checkip s' = checkip s"
  using arg_cong [OF assms, of local_ip] arg_cong [OF assms, of SIPs] arg_cong [OF assms, of articles]
    arg_cong [OF assms, of VER] arg_cong [OF assms, of qum_ID] arg_cong [OF assms, of IsCoordinator]
    arg_cong [OF assms, of qum_N] arg_cong [OF assms, of Nr]
  by (simp_all add: core_def checkip_def)

lemma core_updates [simp]:
  "core (s\<lparr>outbox := x\<rparr>) = core s" "core (s\<lparr>inbox := y\<rparr>) = core s"
  by (simp_all add: core_def)

lemma core_articles:
  assumes "core s' = core s"
  shows "core (s'\<lparr>articles := as\<rparr>) = core (s\<lparr>articles := as\<rparr>)"
proof -
  have "core (x\<lparr>articles := as\<rparr>) = (core x)\<lparr>articles := as\<rparr>" for x by (simp add: core_def)
  then show ?thesis using assms by simp
qed

lemma core_writeArticle: "core s' = core s \<Longrightarrow> core (writeArticle content pre s') = core (writeArticle content pre s)"
proof -
  have "core (writeArticle content pre x) = writeArticle content pre (core x)" for x
    by (simp add: core_def writeArticle_def checkip_def)
  then show "core s' = core s \<Longrightarrow> ?thesis" by simp
qed

lemma sent_to_refl: "upd s = s \<Longrightarrow> sent_to port cmd [] upd s s"
  by (simp add: sent_to_def)

lemma ask_sent:
  assumes "ask target port command s = Inr (r, s')" "CHR 0x00 \<notin> set command"
  shows "core s' = core s \<and> outbox s' = outbox s @ [(target, PRIMARYPORT, command)]
     \<and> (\<forall>p. p \<noteq> port \<longrightarrow> inbox s' p = inbox s p) \<and> inbox s' port = drop 1 (inbox s port)"
  using assms by (auto simp: ask_def UDP_receive_def UDP_send_def split: list.splits if_splits)

lemma sent_to_ask:
  assumes "ask (sa_ip a) port cmd s = Inr (r, s1)" "CHR 0x00 \<notin> set cmd" "sent_to port cmd l upd s1 s'"
    and "core (upd s1) = core (upd s)"
  shows "sent_to port cmd (a # l) upd s s'"
  using ask_sent [OF assms(1,2)] assms(3,4) by (simp add: sent_to_def)

lemma ask_local_ip:
  assumes "ask (sa_ip a) port cmd s = Inr (r, s1)" "CHR 0x00 \<notin> set cmd"
  shows "local_ip s1 = local_ip s" "core s1 = core s"
  using ask_sent [OF assms] core_simps(1) by blast+

lemma others_simps [simp]:
  "others ip [] = []" "others ip (a # l) = (if sa_ip a = ip then others ip l else a # others ip l)"
  by (simp_all add: others_def)

lemma write_loop_sent:
  assumes "write_loop cmd content pre l s = Inr s'" "distinct (map sa_ip l)" "CHR 0x00 \<notin> set cmd"
  shows "sent_to WRITESELECT_PORT cmd (others (local_ip s) l)
     (if local_ip s \<in> sa_ip ` set l then writeArticle content pre else (\<lambda>x. x)) s s'"
  using assms(1,2)
proof (induction l arbitrary: s)
  case Nil
  then show ?case by (simp add: sent_to_def)
next
  case (Cons a l)
  show ?case
  proof (cases "sa_ip a = local_ip s")
    case True
    let ?s = "writeArticle content pre s"
    have "sent_to WRITESELECT_PORT cmd (others (local_ip ?s) l) (if local_ip ?s \<in> sa_ip ` set l then writeArticle content pre else (\<lambda>x. x)) ?s s'"
      using Cons.prems True by (intro Cons.IH) (simp_all add: checkip_def)
    moreover have "local_ip s \<notin> sa_ip ` set l" using Cons.prems(2) True by simp
    ultimately show ?thesis using True by (simp add: sent_to_def writeArticle_def)
  next
    case False
    then obtain r s1 where 1: "ask (sa_ip a) WRITESELECT_PORT cmd s = Inr (r, s1)" "write_loop cmd content pre l s1 = Inr s'"
      using Cons.prems(1) by (auto simp: checkip_def result_simps)
    note a = ask_local_ip [OF 1(1) assms(3)]
    let ?upd = "if local_ip s \<in> sa_ip ` set l then writeArticle content pre else (\<lambda>x. x)"
    have "sent_to WRITESELECT_PORT cmd (others (local_ip s) l) ?upd s1 s'"
      using Cons.IH [OF 1(2)] Cons.prems(2) a by simp
    moreover have "core (?upd s1) = core (?upd s)" using core_writeArticle [OF a(2)] a(2) by simp
    ultimately have "sent_to WRITESELECT_PORT cmd (a # others (local_ip s) l) ?upd s s'"
      by (rule sent_to_ask [OF 1(1) assms(3)])
    then show ?thesis using False by simp
  qed
qed

lemma newest_loop_sent:
  assumes "newest_loop cmd l m b s = Inr (b', s')" "CHR 0x00 \<notin> set cmd"
  shows "sent_to GETNEWVER_PORT cmd (others (local_ip s) l) (\<lambda>x. x) s s' \<and> (b' = b \<or> b' \<in> Some ` set l)"
  using assms(1)
proof (induction l arbitrary: m b s)
  case Nil
  then show ?case by (simp add: sent_to_def)
next
  case (Cons a l)
  then obtain v s1 where 1: "(if sa_ip a = checkip s then Inr (VER s, s)
      else bindE (ask (sa_ip a) GETNEWVER_PORT cmd s) (\<lambda>(r, s'). Inr (atoi r, s'))) = Inr (v, s1)"
    and 2: "newest_loop cmd l (if v \<ge> m then v else m) (if v \<ge> m then Some a else b) s1 = Inr (b', s')"
    by (auto simp: result_simps split: if_splits)
  note ih = Cons.IH [OF 2]
  show ?case
  proof (cases "sa_ip a = local_ip s")
    case True
    then show ?thesis using 1 ih by (auto simp: checkip_def split: if_splits)
  next
    case False
    then obtain r where "ask (sa_ip a) GETNEWVER_PORT cmd s = Inr (r, s1)" using 1 by (auto simp: checkip_def result_simps)
    note ask = this and a = ask_local_ip [OF this assms(2)]
    have "sent_to GETNEWVER_PORT cmd (a # others (local_ip s) l) (\<lambda>x. x) s s'"
      using ih a by (intro sent_to_ask [OF ask assms(2)]) simp_all
    then show ?thesis using ih False by (auto split: if_splits)
  qed
qed

lemma synch_loop_sent:
  assumes "synch_loop cmd content l s = Inr s'" "CHR 0x00 \<notin> set cmd"
    and "\<And>s. loadArticle content s = Inr (s\<lparr>articles := as\<rparr>)"
  shows "sent_to SYNCH_PORT cmd (others (local_ip s) l)
     (if local_ip s \<in> sa_ip ` set l then (\<lambda>s. s\<lparr>articles := as\<rparr>) else (\<lambda>x. x)) s s'"
  using assms(1)
proof (induction l arbitrary: s)
  case Nil
  then show ?case by (simp add: sent_to_def)
next
  case (Cons a l)
  show ?case
  proof (cases "sa_ip a = local_ip s")
    case True
    let ?s = "s\<lparr>articles := as\<rparr>"
    have "sent_to SYNCH_PORT cmd (others (local_ip ?s) l) (if local_ip ?s \<in> sa_ip ` set l then (\<lambda>s. s\<lparr>articles := as\<rparr>) else (\<lambda>x. x)) ?s s'"
      using Cons.prems True by (intro Cons.IH) (simp add: checkip_def assms(3))
    then show ?thesis using True by (simp add: sent_to_def)
  next
    case False
    then obtain r s1 where 1: "ask (sa_ip a) SYNCH_PORT cmd s = Inr (r, s1)" "synch_loop cmd content l s1 = Inr s'"
      using Cons.prems(1) by (auto simp: checkip_def result_simps)
    note a = ask_local_ip [OF 1(1) assms(2)]
    let ?upd = "if local_ip s \<in> sa_ip ` set l then (\<lambda>s. s\<lparr>articles := as\<rparr>) else (\<lambda>x. x)"
    have "sent_to SYNCH_PORT cmd (others (local_ip s) l) ?upd s1 s'"
      using Cons.IH [OF 1(2)] a by simp
    moreover have "core (?upd s1) = core (?upd s)" using core_articles [OF a(2)] a(2) by simp
    ultimately have "sent_to SYNCH_PORT cmd (a # others (local_ip s) l) ?upd s s'"
      by (rule sent_to_ask [OF 1(1) assms(2)])
    then show ?thesis using False by simp
  qed
qed

section \<open>When a phase ends\<close>

text \<open>Enough answers wait at the port, and none fills the buffer.\<close>

definition answered :: "qum_server \<Rightarrow> int \<Rightarrow> SAddr list \<Rightarrow> bool" where
  "answered s port l \<longleftrightarrow> length (others (local_ip s) l) \<le> length (inbox s port) \<and> (\<forall>d\<in>set (inbox s port). length d < BB_BUFLEN)"

lemma answered_ask:
  assumes "answered s port (a # l)" "sa_ip a \<noteq> local_ip s"
  shows "\<exists>r s'. ask (sa_ip a) port command s = Inr (r, s') \<and> answered s' port l"
proof -
  obtain d ds where d: "inbox s port = d # ds" using assms by (cases "inbox s port") (auto simp: answered_def)
  then have "length d < BB_BUFLEN" using assms(1) by (simp add: answered_def)
  from ask_eq [OF d this, of "sa_ip a" command] show ?thesis using assms d by (auto simp: answered_def)
qed

lemma write_loop_ok: "answered s WRITESELECT_PORT l \<Longrightarrow> \<exists>s'. write_loop cmd content pre l s = Inr s'"
proof (induction l arbitrary: s)
  case (Cons a l)
  show ?case
  proof (cases "sa_ip a = local_ip s")
    case True
    with Cons.prems have "answered (writeArticle content pre s) WRITESELECT_PORT l"
      by (simp add: answered_def writeArticle_def)
    then show ?thesis using Cons.IH True by (simp add: checkip_def)
  next
    case False
    then show ?thesis using answered_ask [OF Cons.prems False, of cmd] Cons.IH by (fastforce simp: checkip_def)
  qed
qed simp

lemma synch_loop_ok:
  assumes "\<And>s. loadArticle content s = Inr (s\<lparr>articles := as\<rparr>)"
  shows "answered s SYNCH_PORT l \<Longrightarrow> \<exists>s'. synch_loop cmd content l s = Inr s'"
proof (induction l arbitrary: s)
  case (Cons a l)
  show ?case
  proof (cases "sa_ip a = local_ip s")
    case True
    with Cons.prems have "answered (s\<lparr>articles := as\<rparr>) SYNCH_PORT l" by (simp add: answered_def)
    then show ?thesis using Cons.IH True by (simp add: checkip_def assms)
  next
    case False
    then show ?thesis using answered_ask [OF Cons.prems False, of cmd] Cons.IH by (fastforce simp: checkip_def)
  qed
qed simp

section \<open>The messages of a turn, at the server that gets them\<close>

text \<open>The requests without a closing \<open>;\<close>: a version, or the list.\<close>

definition qum_open :: "string \<Rightarrow> string \<Rightarrow> string \<Rightarrow> int \<Rightarrow> string" where
  "qum_open cmd oper ip p = field cmd @ field oper @ field ip @ to_string p"

lemma qum_listen_open:
  assumes "word_ok cmd" "word_ok oper" "isValidIP ip" "CHR 0x00 \<notin> set ip" "isValidPort p"
    and "length cmd + length oper \<le> 7900"
  shows "qum_command_of (IsCoordinator s) cmd = REQUESTVER \<Longrightarrow> qum_listen_step freed rnd (qum_open cmd oper ip p) s =
      Inr (UDP_send ip p (to_string (VER s)) s)"
    and "qum_command_of (IsCoordinator s) cmd = OPERATION_READ \<Longrightarrow> qum_listen_step freed rnd (qum_open cmd oper ip p) s =
      sendArticle ip p s"
proof -
  have ip: "ip \<noteq> []" "CHR '';'' \<notin> set ip"
    using assms isValidIP_not_Nil [of ip] isValidIP_clean [of ip] by auto
  let ?m = "qum_open cmd oper ip p"
  have "length ip < 16" using addr_ok_fits [OF assms(3,4)] by (simp add: fits16_def)
  moreover have "is_int32 p" using assms(5) by (simp add: isValidPort_def is_int32_def split: if_splits)
  ultimately have "length ?m \<le> BB_BUFLEN" using assms(6) length_to_string_int32 [of p] by (simp add: qum_open_def)
  then have c: "cstr (take BB_BUFLEN ?m) = ?m"
    using assms by (simp add: qum_open_def field_def word_ok_def)
  have t: "tokens '';'' ?m = [cmd, oper, ip, to_string p]"
    using assms ip by (simp add: qum_open_def field_def word_ok_def tokens_field tokens_last)
  have v: "isValidIP ip \<and> isValidPort (atoi (to_string p))" "atoi (to_string p) = p"
    using assms by (simp_all add: atoi_to_string)
  show "qum_command_of (IsCoordinator s) cmd = REQUESTVER \<Longrightarrow> qum_listen_step freed rnd ?m s =
      Inr (UDP_send ip p (to_string (VER s)) s)"
    unfolding qum_listen_step_def Let_def c Split_tz bindE.simps GetNext_tz prod.case t tok_at_simps
    using v by (simp only: if_True simp_thms qum_command.case)
  show "qum_command_of (IsCoordinator s) cmd = OPERATION_READ \<Longrightarrow> qum_listen_step freed rnd ?m s = sendArticle ip p s"
    unfolding qum_listen_step_def Let_def c Split_tz bindE.simps GetNext_tz prod.case t tok_at_simps
    using v by (simp only: if_True simp_thms qum_command.case)
qed

end
