(* ===== verification/QuorumCluster.thy ===== *)
theory QuorumCluster
  imports QuorumNet
begin

text \<open>
  The whole quorum cluster under turns of its coordinator. \<open>agreed as\<close> says that every
  server, the coordinator included, holds the list \<open>as\<close>. A turn of the coordinator for a
  post, a read, a synchronisation or a heartbeat takes an agreed cluster to an agreed
  cluster, and \<open>qum_cluster\<close> is the runs made of such turns: the multiset of the texts and
  levels it carries is the abstract bulletin board, to which only a post adds.
\<close>

section \<open>Lists of articles\<close>

definition view :: "Article \<Rightarrow> string list \<times> 32 word" where
  "view a = (art_content a, art_hierachy a)"

lemma map_view_renumber [simp]: "map view (renumber as i) = map view as"
  by (induction as arbitrary: i) (simp_all add: view_def)

lemma article_text_view: "article_text a = (\<lambda>(c, h). hd c @ '';'' @ to_string (uint h)) (view a)"
  by (simp add: article_text_def view_def)

lemma map_article_text: "map article_text as = map (\<lambda>(c, h). hd c @ '';'' @ to_string (uint h)) (map view as)"
  by (simp add: article_text_view)

lemma article_message_view: "map view as = map view bs \<Longrightarrow> article_message as = article_message bs"
  by (simp only: article_message_def map_article_text)

lemma five_fields_view: "view a = view b \<Longrightarrow> five_fields a \<longleftrightarrow> five_fields b"
  by (simp add: five_fields_def view_def)

lemma list_five_fields_view:
  assumes "set (map view as) \<subseteq> set (map view bs)" "list_all five_fields bs"
  shows "list_all five_fields as"
  unfolding list_all_iff
proof
  fix a assume "a \<in> set as"
  then obtain b where b: "b \<in> set bs" "view a = view b" using assms(1) by auto
  then have "five_fields b" using assms(2) by (simp add: list_all_iff)
  then show "five_fields a" using five_fields_view [OF b(2)] by blast
qed

lemma length_join_fields: "length (join_fields d fs) = sum_list (map length fs) + (length fs - 1)"
  by (induction fs rule: induct_list012) simp_all

lemma length_article_message_mset:
  assumes "mset (map view as) = mset (map view bs)"
  shows "length (article_message as) = length (article_message bs)"
proof -
  have "mset (map article_text as) = mset (map article_text bs)"
    unfolding map_article_text mset_map [of _ "map view _"] assms ..
  then have "mset (map length (map article_text as)) = mset (map length (map article_text bs))" by (simp only: mset_map)
  then have "sum_list (map length (map article_text as)) = sum_list (map length (map article_text bs))"
    by (metis sum_mset_sum_list)
  moreover have "length as = length bs" using arg_cong [OF assms, of size] by simp
  ultimately show ?thesis by (simp add: article_message_def length_join_fields)
qed

lemma length_le_article_message: "length as \<le> Suc (length (article_message as))"
  by (simp add: article_message_def length_join_fields)

text \<open>What every server holds between turns: texts of five fields, numbered from 1, that fit a datagram.\<close>

definition listed :: "Article list \<Rightarrow> bool" where
  "listed as \<longleftrightarrow> renumber as 0 = as \<and> list_all five_fields as \<and> length (article_message as) \<le> 7900"

lemma map_art_ID_renumber: "map art_ID (renumber as i) = map (\<lambda>k. word_of_int (i + 1 + int k)) [0..<length as]"
proof (induction as arbitrary: i)
  case (Cons a as)
  have "[0..<length (a # as)] = 0 # map Suc [0..<length as]" by (simp add: upt_conv_Cons map_Suc_upt del: upt_Suc)
  then show ?case by (simp add: Cons.IH algebra_simps comp_def del: upt_Suc)
qed simp

lemma renumber_renumber [simp]: "renumber (renumber as i) i = renumber as i"
  by (induction as arbitrary: i) simp_all

lemma sort_listed:
  assumes "listed as"
  shows "sort_key art_ID as = as"
proof -
  have n: "length as \<le> 7901" using assms length_le_article_message [of as] by (simp add: listed_def)
  have u: "uint (word_of_int (0 + 1 + int k) :: 32 word) = 0 + 1 + int k" if "k < length as" for k
    unfolding uint_word_of_int using n that by (intro mod_pos_pos_trivial) auto
  have "sorted (map (\<lambda>k. word_of_int (0 + 1 + int k) :: 32 word) [0..<length as])"
    unfolding sorted_iff_nth_mono word_le_def
  proof (intro allI impI)
    fix i j assume "i \<le> j" "j < length (map (\<lambda>k. word_of_int (0 + 1 + int k) :: 32 word) [0..<length as])"
    then show "uint (map (\<lambda>k. word_of_int (0 + 1 + int k) :: 32 word) [0..<length as] ! i)
        \<le> uint (map (\<lambda>k. word_of_int (0 + 1 + int k) :: 32 word) [0..<length as] ! j)"
      using u [of i] u [of j] by simp
  qed
  then have "sorted (map art_ID as)" using map_art_ID_renumber [of as 0] assms by (simp add: listed_def)
  then show ?thesis by (rule sort_key_id_if_sorted)
qed

lemma listed_clean: "listed as \<Longrightarrow> list_all article_clean as"
  by (simp add: listed_def list_five_fields_clean)

lemma listed_renumber:
  assumes "mset (map view as) = mset (map view bs)" "list_all five_fields bs" "length (article_message bs) \<le> 7900"
  shows "listed (renumber as 0)" "list_all five_fields as"
proof -
  have s: "set (map view as) = set (map view bs)" using assms(1) by (metis set_mset_mset)
  then show f: "list_all five_fields as" using assms(2) list_five_fields_view by blast
  have "list_all five_fields (renumber as 0)"
    using list_five_fields_view [of "renumber as 0" as] f by simp
  moreover have "length (article_message (renumber as 0)) \<le> 7900"
    using length_article_message_mset [of "renumber as 0" bs] assms(1,3) by simp
  ultimately show "listed (renumber as 0)" by (simp add: listed_def)
qed

section \<open>The cluster\<close>

definition cluster :: "(SAddr list \<Rightarrow> nat \<Rightarrow> SAddr) \<Rightarrow> qum_server \<Rightarrow> members \<Rightarrow> bool" where
  "cluster freed s cl \<longleftrightarrow> IsCoordinator s \<and> distinct (map sa_ip (SIPs s)) \<and> local_ip s \<in> sa_ip ` set (SIPs s)
     \<and> dom cl = sa_ip ` set (SIPs s) - {local_ip s} \<and> isValidIP (local_ip s) \<and> CHR 0x00 \<notin> set (local_ip s)
     \<and> qum_N s = int (length (SIPs s)) \<and> Nr s \<le> qum_N s \<and> freed_intact freed (SIPs s)"

definition agreed :: "Article list \<Rightarrow> qum_server \<Rightarrow> members \<Rightarrow> bool" where
  "agreed as s cl \<longleftrightarrow> articles s = as \<and> (\<forall>ip m. cl ip = Some m \<longrightarrow> articles m = as)"

text \<open>A client whose port is not one the coordinator reads answers at.\<close>

definition client_ok :: "string \<Rightarrow> string \<Rightarrow> int \<Rightarrow> bool" where
  "client_ok ip host p \<longleftrightarrow> isValidIP host \<and> CHR 0x00 \<notin> set host \<and> isValidPort p \<and> p \<noteq> PRIMARYPORT
     \<and> (host = ip \<longrightarrow> p \<notin> {REQUESTPORT, GETNEWVER_PORT, WRITESELECT_PORT, SYNCH_PORT, HEARTBEAT_PORT})"

lemma cluster_core: "core s' = core (s\<lparr>articles := as\<rparr>) \<Longrightarrow> dom cl' = dom cl \<Longrightarrow> cluster freed s cl \<Longrightarrow> cluster freed s' cl'"
  using core_simps [of s' "s\<lparr>articles := as\<rparr>"] by (simp add: cluster_def)

lemma selected_servers:
  assumes "cluster freed s cl" "selectRandomServer freed rnd (qum_N s) (Nr s) (SIPs s) s = Inr l"
  shows "distinct (map sa_ip l) \<and> set l \<subseteq> set (SIPs s)"
proof (cases "0 \<le> Nr s")
  case True
  let ?n = "length (SIPs s)" let ?q = "qum_shuffle rnd (?n - 1) [0..<?n]"
  have "SIPs s \<noteq> []" using assms(1) by (auto simp: cluster_def)
  then have l: "l = map (\<lambda>k. SIPs s ! k) (take (nat (Nr s)) ?q)"
    using selectRandomServer_eq [of freed s "Nr s" rnd] assms True by (simp add: cluster_def)
  have q: "distinct ?q" "set ?q = {0..<?n}"
    using qum_shuffle_perm [of rnd ?n] mset_eq_setD [of ?q "[0..<?n]"] mset_eq_imp_distinct_iff [of ?q "[0..<?n]"] by auto
  then have sub: "set (take (nat (Nr s)) ?q) \<subseteq> {0..<?n}" using set_take_subset by fastforce
  have "inj_on (\<lambda>k. sa_ip (SIPs s ! k)) {0..<?n}"
    using assms(1) by (auto simp: cluster_def inj_on_def distinct_conv_nth)
  then have "distinct (map sa_ip l)"
    using q(1) sub by (simp add: l distinct_map comp_def inj_on_subset)
  then show ?thesis using sub by (auto simp: l)
next
  case False
  then have "l = []" using assms(2) by (cases "qum_shuffle rnd (nat (qum_N s - 1)) [0..<nat (qum_N s)]")
      (auto simp: selectRandomServer_def Let_def split: if_splits)
  then show ?thesis by simp
qed

lemma cluster_others:
  assumes "cluster freed s cl" "set l \<subseteq> set (SIPs s)" "a \<in> set (others (local_ip s) l)"
  shows "cl (sa_ip a) \<noteq> None"
  using assms by (auto simp: cluster_def others_def)

section \<open>The phases of a turn among the servers\<close>

definition arts :: "members \<Rightarrow> string \<Rightarrow> Article list option" where
  "arts cl ip = map_option articles (cl ip)"

definition vers :: "members \<Rightarrow> string \<Rightarrow> int option" where
  "vers cl ip = map_option VER (cl ip)"

lemma agreed_arts: "agreed as s cl \<longleftrightarrow> articles s = as \<and> (\<forall>ip\<in>dom cl. arts cl ip = Some as)"
proof -
  have "(\<forall>ip\<in>dom cl. P ip) \<longleftrightarrow> (\<forall>ip m. cl ip = Some m \<longrightarrow> P ip)" for P by auto
  then show ?thesis by (simp add: agreed_def arts_def) (metis option.inject)
qed

lemma arts_update: "arts (update_members f ips cl) ip = (if ip \<in> ips then map_option (articles \<circ> f) (cl ip) else arts cl ip)"
  by (simp add: arts_def update_members_def option.map_comp)

lemma dom_update_members [simp]: "dom (update_members f ips cl) = dom cl"
  by (auto simp: update_members_def dom_def split: if_splits)

lemma word_ok_messages: "word_ok ''REQUESTVER''" "word_ok ''READ''" "word_ok ''OPERATION_READ''" "word_ok ''SYNCH''"
  "word_ok ''FORWARD_QUM''" "word_ok ''POST''"
  by (simp_all add: word_ok_def)

definition version_msg :: "string \<Rightarrow> string" where
  "version_msg ip = qum_open ''REQUESTVER'' ''READ'' ip GETNEWVER_PORT"

definition read_msg :: "string \<Rightarrow> string \<Rightarrow> int \<Rightarrow> string" where
  "read_msg oper ip p = qum_open ''OPERATION_READ'' oper ip p"

lemma qum_open_no_nul:
  "word_ok cmd \<Longrightarrow> word_ok oper \<Longrightarrow> CHR 0x00 \<notin> set ip \<Longrightarrow> CHR 0x00 \<notin> set (qum_open cmd oper ip p)"
  by (simp add: qum_open_def field_def word_ok_def)

text \<open>Versions are asked and change nothing.\<close>

lemma deliver_versions:
  assumes "isValidIP ip" "CHR 0x00 \<notin> set ip" "distinct (map sa_ip l)" "\<forall>a\<in>set l. cl (sa_ip a) \<noteq> None"
  shows "\<exists>cl'. deliver_all freed rnd (map (\<lambda>a. (sa_ip a, PRIMARYPORT, version_msg ip)) l) (cl, mail) =
      Inr (cl', mail((ip, GETNEWVER_PORT) := mail (ip, GETNEWVER_PORT) @ map (\<lambda>a. to_string (VER (the (cl (sa_ip a))))) l))
    \<and> dom cl' = dom cl \<and> arts cl' = arts cl \<and> vers cl' = vers cl"
proof -
  let ?f = "\<lambda>m. m\<lparr>outbox := []\<rparr> :: qum_server"
  have step: "qum_listen_step freed rnd (version_msg ip) (m\<lparr>outbox := []\<rparr>) =
      Inr ((?f m)\<lparr>outbox := [(ip, GETNEWVER_PORT, to_string (VER m))]\<rparr>)" for m
    unfolding version_msg_def
    using qum_listen_open(1) [of "''REQUESTVER''" "''READ''" ip GETNEWVER_PORT "m\<lparr>outbox := []\<rparr>" freed rnd] assms(1,2)
    by (simp add: word_ok_messages isValidPort_def UDP_send_def)
  have "deliver_all freed rnd (map (\<lambda>a. (sa_ip a, PRIMARYPORT, version_msg ip)) l) (cl, mail) =
      Inr (update_members ?f (sa_ip ` set l) cl,
           mail((ip, GETNEWVER_PORT) := mail (ip, GETNEWVER_PORT) @ map (\<lambda>a. to_string (VER (the (cl (sa_ip a))))) l))"
    by (rule deliver_broadcast [OF step assms(3,4)]) simp
  moreover have "arts (update_members ?f (sa_ip ` set l) cl) = arts cl"
    unfolding fun_eq_iff arts_update by (simp add: arts_def comp_def)
  moreover have "vers (update_members ?f (sa_ip ` set l) cl) = vers cl"
    unfolding fun_eq_iff by (simp add: vers_def update_members_def option.map_comp comp_def)
  ultimately show ?thesis using dom_update_members by blast
qed

text \<open>The list is fetched from a member: it sorts its articles and answers with them.\<close>

lemma deliver_read:
  assumes "cl h = Some m" "list_all article_clean (articles m)" "isValidIP ip" "CHR 0x00 \<notin> set ip" "isValidPort p" "word_ok oper"
    and "length oper \<le> 100"
  shows "\<exists>cl'. deliver freed rnd (h, PRIMARYPORT, read_msg oper ip p) (cl, mail) =
      Inr (cl', mail((ip, p) := mail (ip, p) @ [article_message (sort_key art_ID (articles m))]))
    \<and> dom cl' = dom cl \<and> arts cl' = (arts cl)(h := Some (sort_key art_ID (articles m))) \<and> vers cl' = vers cl"
proof -
  have "p mod 65536 = p" using assms(5) by (auto simp: isValidPort_def split: if_splits)
  then have "qum_listen_step freed rnd (read_msg oper ip p) (m\<lparr>outbox := []\<rparr>) =
      Inr (m\<lparr>articles := sort_key art_ID (articles m), outbox := [(ip, p, article_message (sort_key art_ID (articles m)))]\<rparr>)"
    unfolding read_msg_def
    using qum_listen_open(2) [of "''OPERATION_READ''" oper ip p "m\<lparr>outbox := []\<rparr>" freed rnd]
      sendArticle_eq [of "m\<lparr>outbox := []\<rparr>" ip p] assms
    by (simp add: word_ok_messages)
  then show ?thesis
    using assms(1) by (intro exI [of _ "cl(h \<mapsto> m\<lparr>articles := sort_key art_ID (articles m), outbox := []\<rparr>)"])
      (auto simp: deliver_def put_mail_def arts_def vers_def fun_eq_iff)
qed

text \<open>A write of the quorum.\<close>

definition wrote :: "string \<Rightarrow> int \<Rightarrow> qum_server \<Rightarrow> qum_server" where
  "wrote content pre m = (writeArticle content pre m)\<lparr>outbox := []\<rparr>"

lemma deliver_writes:
  assumes "isValidIP ip" "CHR 0x00 \<notin> set ip" "CHR 0x00 \<notin> set content" "is_int32 pre"
    and "length (write_msg ip pre content) \<le> BB_BUFLEN"
    and "distinct (map sa_ip l)" "\<forall>a\<in>set l. cl (sa_ip a) \<noteq> None"
  shows "deliver_all freed rnd (map (\<lambda>a. (sa_ip a, PRIMARYPORT, write_msg ip pre content)) l) (cl, mail) =
     Inr (update_members (wrote content pre) (sa_ip ` set l) cl,
          mail((ip, WRITESELECT_PORT) := mail (ip, WRITESELECT_PORT) @ map (\<lambda>a. to_string (VER (the (cl (sa_ip a))) + 1)) l))"
proof (rule deliver_broadcast [OF _ assms(6,7)])
  show "qum_listen_step freed rnd (write_msg ip pre content) (m\<lparr>outbox := []\<rparr>) =
     Inr ((wrote content pre m)\<lparr>outbox := [(ip, WRITESELECT_PORT, to_string (VER m + 1))]\<rparr>)" for m
    using quorum_write_stores [OF assms(1-5), of freed rnd "m\<lparr>outbox := []\<rparr>"]
    by (simp add: wrote_def writeArticle_def checkip_def)
qed (simp add: wrote_def)

text \<open>All members load the list.\<close>

lemma deliver_synch:
  assumes "isValidIP ip" "CHR 0x00 \<notin> set ip" "list_all five_fields as"
    and "length (synch_msg ip (article_message as)) \<le> BB_BUFLEN"
    and "distinct (map sa_ip l)" "sa_ip ` set l = dom cl"
  shows "\<exists>cl'. deliver_all freed rnd (map (\<lambda>a. (sa_ip a, PRIMARYPORT, synch_msg ip (article_message as))) l) (cl, mail) =
      Inr (cl', mail((ip, SYNCH_PORT) := mail (ip, SYNCH_PORT) @ map (\<lambda>a. to_string (VER (the (cl (sa_ip a))))) l))
    \<and> dom cl' = dom cl \<and> (\<forall>ip\<in>dom cl. arts cl' ip = Some (renumber as 0))"
proof -
  let ?f = "\<lambda>m. m\<lparr>articles := renumber as 0, outbox := []\<rparr> :: qum_server"
  have step: "qum_listen_step freed rnd (synch_msg ip (article_message as)) (m\<lparr>outbox := []\<rparr>) =
     Inr ((?f m)\<lparr>outbox := [(ip, SYNCH_PORT, to_string (VER m))]\<rparr>)" for m
    using quorum_synch_copies [OF assms(3,1,2,4), of freed rnd "m\<lparr>outbox := []\<rparr>"] by simp
  have m: "\<forall>a\<in>set l. cl (sa_ip a) \<noteq> None" using assms(6) by blast
  have "deliver_all freed rnd (map (\<lambda>a. (sa_ip a, PRIMARYPORT, synch_msg ip (article_message as))) l) (cl, mail) =
      Inr (update_members ?f (sa_ip ` set l) cl,
           mail((ip, SYNCH_PORT) := mail (ip, SYNCH_PORT) @ map (\<lambda>a. to_string (VER (the (cl (sa_ip a))))) l))"
    by (rule deliver_broadcast [OF step assms(5) m]) simp
  moreover have "\<forall>ip\<in>dom cl. arts (update_members ?f (sa_ip ` set l) cl) ip = Some (renumber as 0)"
    using assms(6) by (auto simp: arts_update)
  ultimately show ?thesis using dom_update_members by blast
qed

section \<open>Fetching the newest list and handing it out\<close>

text \<open>What the coordinator and its members hold.\<close>

definition held :: "qum_server \<Rightarrow> members \<Rightarrow> string \<Rightarrow> Article list" where
  "held s cl h = (if h = local_ip s then articles s else the (arts cl h))"

definition reply_keys :: "string \<Rightarrow> (string \<times> int) set" where
  "reply_keys ip = {ip} \<times> {REQUESTPORT, GETNEWVER_PORT, WRITESELECT_PORT, SYNCH_PORT, HEARTBEAT_PORT}"

lemma getNewestServer_sent:
  assumes "getNewestServer l s = Inr (h, s')" "CHR 0x00 \<notin> set (local_ip s)"
  shows "sent_to GETNEWVER_PORT (version_msg (local_ip s)) (others (local_ip s) l) (\<lambda>x. x) s s' \<and> h \<in> sa_ip ` set l"
proof -
  have c: "''REQUESTVER;READ;'' @ field (checkip s) @ to_string GETNEWVER_PORT = version_msg (local_ip s)"
    by (simp add: version_msg_def qum_open_def field_def checkip_def)
  obtain b where b: "newest_loop (version_msg (local_ip s)) l 0 None s = Inr (Some b, s')" "h = sa_ip b"
    using assms(1) unfolding getNewestServer_def Let_def c by (auto simp: result_simps split: option.splits)
  have "CHR 0x00 \<notin> set (version_msg (local_ip s))"
    unfolding version_msg_def using assms(2) by (intro qum_open_no_nul word_ok_messages)
  from newest_loop_sent [OF b(1) this] b(2) show ?thesis by auto
qed

lemma fetch_newest_sent:
  assumes f: "fetch_newest l port s = Inr (R, s')" and ip: "CHR 0x00 \<notin> set (local_ip s)"
    and port: "isValidPort port" "port \<noteq> GETNEWVER_PORT" and cl: "list_all article_clean (articles s)"
  shows "\<exists>h. h \<in> sa_ip ` set l \<and> (\<exists>s1. getNewestServer l s = Inr (h, s1)) \<and> R = cstr (hd (inbox s port))
     \<and> (\<forall>q. q \<notin> {GETNEWVER_PORT, port} \<longrightarrow> inbox s' q = inbox s q)
     \<and> core s' = core (s\<lparr>articles := (if h = local_ip s then sort_key art_ID (articles s) else articles s)\<rparr>)
     \<and> outbox s' = outbox s @ map (\<lambda>a. (sa_ip a, PRIMARYPORT, version_msg (local_ip s))) (others (local_ip s) l)
          @ [if h = local_ip s then (local_ip s, port, article_message (sort_key art_ID (articles s)))
             else (h, PRIMARYPORT, read_msg ''SYNCH'' (local_ip s) port)]"
proof -
  obtain h s1 s2 where n: "getNewestServer l s = Inr (h, s1)" and r: "UDP_receive port s2 = Inr (R, s')"
    and m: "(if h = checkip s1 then sendArticle (checkip s1) port s1
       else Inr (UDP_send h PRIMARYPORT (''OPERATION_READ;SYNCH;'' @ field (checkip s1) @ to_string port) s1)) = Inr s2"
    using f unfolding fetch_newest_def by (auto simp only: bindE_Inr_iff prod.case)
  note v = getNewestServer_sent [OF n ip]
  then have c: "core s1 = core s" and i: "\<forall>q. q \<noteq> GETNEWVER_PORT \<longrightarrow> inbox s1 q = inbox s q"
    and o1: "outbox s1 = outbox s @ map (\<lambda>a. (sa_ip a, PRIMARYPORT, version_msg (local_ip s))) (others (local_ip s) l)"
    by (auto simp: sent_to_def)
  note cs = core_simps [OF c]
  have p: "port mod 65536 = port" using port(1) by (auto simp: isValidPort_def split: if_splits)
  have msg: "''OPERATION_READ;SYNCH;'' @ field (checkip s1) @ to_string port = read_msg ''SYNCH'' (local_ip s) port"
    using cs by (simp add: read_msg_def qum_open_def field_def checkip_def)
  have nul: "cstr (read_msg ''SYNCH'' (local_ip s) port) = read_msg ''SYNCH'' (local_ip s) port"
    using qum_open_no_nul [OF word_ok_messages(3,4) ip] by (simp add: read_msg_def)
  let ?as = "if h = local_ip s then sort_key art_ID (articles s) else articles s"
  have "core s2 = core (s1\<lparr>articles := ?as\<rparr>) \<and> (\<forall>q. q \<noteq> GETNEWVER_PORT \<longrightarrow> inbox s2 q = inbox s q) \<and> outbox s2 = outbox s1
      @ [if h = local_ip s then (local_ip s, port, article_message (sort_key art_ID (articles s)))
             else (h, PRIMARYPORT, read_msg ''SYNCH'' (local_ip s) port)]"
  proof (cases "h = local_ip s")
    case True
    then have "sendArticle h port s1 = Inr s2" using m cs by (simp add: checkip_def)
    with True show ?thesis using sendArticle_eq [of s1 h port] cl cs i p by (auto simp: core_def)
  next
    case False
    then have "s2 = UDP_send h PRIMARYPORT (read_msg ''SYNCH'' (local_ip s) port) s1"
      using m msg cs by (simp add: checkip_def)
    moreover have "core (s1\<lparr>articles := articles s\<rparr>) = core s1" using cs(3) [symmetric] by (simp add: core_def)
    ultimately show ?thesis using False i by (simp add: UDP_send_def nul)
  qed
  moreover have "R = cstr (hd (inbox s2 port)) \<and> core s' = core s2 \<and> outbox s' = outbox s2 \<and> (\<forall>q. q \<noteq> port \<longrightarrow> inbox s' q = inbox s2 q)"
    using r by (auto simp: UDP_receive_def split: list.splits if_splits)
  moreover have "core (s1\<lparr>articles := ?as\<rparr>) = core (s\<lparr>articles := ?as\<rparr>)" using c by (rule core_articles)
  ultimately show ?thesis using v o1 n port(2) by (intro exI [of _ h]) simp
qed

lemma fetch_newest_ok:
  assumes n: "getNewestServer l s = Inr (h, s1)" and "CHR 0x00 \<notin> set (local_ip s)" "list_all article_clean (articles s)"
    and "inbox s port = d # ds" "length d < BB_BUFLEN" "port \<noteq> GETNEWVER_PORT"
  shows "\<exists>s'. fetch_newest l port s = Inr (cstr d, s')"
proof -
  note v = getNewestServer_sent [OF n assms(2)]
  then have i: "inbox s1 port = d # ds" "articles s1 = articles s"
    using assms(4,6) core_simps(3) [of s1 s] by (auto simp: sent_to_def)
  have "\<exists>s2. (if h = checkip s1 then sendArticle (checkip s1) port s1
       else Inr (UDP_send h PRIMARYPORT (''OPERATION_READ;SYNCH;'' @ field (checkip s1) @ to_string port) s1)) = Inr s2
     \<and> inbox s2 port = d # ds"
    using i assms(3) sendArticle_eq [of s1 "checkip s1" port] by (simp add: UDP_send_def)
  then show ?thesis using assms(5) by (auto simp: fetch_newest_def n UDP_receive_def)
qed

lemma deliver_fetch:
  assumes wf: "cluster freed s cl" and l: "distinct (map sa_ip l)" "set l \<subseteq> set (SIPs s)" "h \<in> sa_ip ` set l"
    and clean: "\<forall>h\<in>sa_ip ` set l. list_all article_clean (held s cl h)" and port: "isValidPort port" "port \<noteq> PRIMARYPORT" "(host, port) \<noteq> (local_ip s, GETNEWVER_PORT)"
    and host: "isValidIP host" "CHR 0x00 \<notin> set host" "word_ok oper" "length oper \<le> 100"
  shows "\<exists>cl' mail'. deliver_all freed rnd (map (\<lambda>a. (sa_ip a, PRIMARYPORT, version_msg (local_ip s))) (others (local_ip s) l)
          @ [if h = local_ip s then (host, port, article_message (sort_key art_ID (articles s)))
             else (h, PRIMARYPORT, read_msg oper host port)]) (cl, mail) = Inr (cl', mail')
     \<and> dom cl' = dom cl \<and> vers cl' = vers cl \<and> mail' (host, port) = mail (host, port) @ [article_message (sort_key art_ID (held s cl h))]
     \<and> arts cl' = (if h = local_ip s then arts cl else (arts cl)(h := Some (sort_key art_ID (held s cl h))))
     \<and> mail' (local_ip s, GETNEWVER_PORT) = mail (local_ip s, GETNEWVER_PORT) @ map (\<lambda>a. to_string (VER (the (cl (sa_ip a))))) (others (local_ip s) l)
     \<and> (\<forall>k. k \<noteq> (local_ip s, GETNEWVER_PORT) \<and> k \<noteq> (host, port) \<longrightarrow> mail' k = mail k)"
proof -
  have ip: "isValidIP (local_ip s)" "CHR 0x00 \<notin> set (local_ip s)" "cl (local_ip s) = None"
    using wf by (auto simp: cluster_def)
  have "distinct (map sa_ip (others (local_ip s) l))" using l(1) by (simp add: others_def distinct_map_filter)
  from deliver_versions [OF ip(1,2) this, of cl freed rnd mail] cluster_others [OF wf l(2)]
  obtain cl1 mail1 where v: "deliver_all freed rnd (map (\<lambda>a. (sa_ip a, PRIMARYPORT, version_msg (local_ip s))) (others (local_ip s) l)) (cl, mail)
       = Inr (cl1, mail1)" "dom cl1 = dom cl" "arts cl1 = arts cl" "vers cl1 = vers cl"
       "mail1 (local_ip s, GETNEWVER_PORT) = mail (local_ip s, GETNEWVER_PORT) @ map (\<lambda>a. to_string (VER (the (cl (sa_ip a))))) (others (local_ip s) l)" "\<forall>k. k \<noteq> (local_ip s, GETNEWVER_PORT) \<longrightarrow> mail1 k = mail k"
    by auto
  show ?thesis
  proof (cases "h = local_ip s")
    case True
    then show ?thesis using v port by (auto simp: deliver_all_append held_def)
  next
    case False
    obtain a where a: "a \<in> set l" "h = sa_ip a" using l(3) by blast
    then have "h \<in> dom cl1" using False cluster_others [OF wf l(2), of a] v(2) by (auto simp: others_def)
    then obtain m where m: "cl1 h = Some m" by blast
    then have e: "articles m = held s cl h" using fun_cong [OF v(3), of h] False by (simp add: arts_def held_def) (metis option.sel option.map_sel option.simps(3) option.map_disc_iff)
    with clean l(3) have cm: "list_all article_clean (articles m)" by metis
    from deliver_read [of cl1 h m host port oper freed rnd mail1] m cm host port(1)
    obtain cl2 where d: "deliver freed rnd (h, PRIMARYPORT, read_msg oper host port) (cl1, mail1) =
      Inr (cl2, mail1((host, port) := mail1 (host, port) @ [article_message (sort_key art_ID (articles m))]))"
      "dom cl2 = dom cl1" "vers cl2 = vers cl1" "arts cl2 = (arts cl1)(h := Some (sort_key art_ID (articles m)))" by auto
    show ?thesis
      by (rule exI [of _ cl2], rule exI [of _ "mail1((host, port) := mail1 (host, port) @ [article_message (sort_key art_ID (articles m))])"])
        (use False d v port e in \<open>auto simp: deliver_all_append\<close>)
  qed
qed

lemma synch_msg_fits:
  assumes "isValidIP ip" "CHR 0x00 \<notin> set ip" "length (article_message as) \<le> 7900"
  shows "length (synch_msg ip (article_message as)) \<le> BB_BUFLEN"
proof -
  have "length ip < 16" using addr_ok_fits [OF assms(1,2)] by (simp add: fits16_def)
  moreover have "length (to_string SYNCH_PORT) = 4" by code_simp
  ultimately show ?thesis using assms(3) by (simp add: synch_msg_def qum_frame_def)
qed

lemma synchSelectedServer_sent:
  assumes "synchSelectedServer (SIPs s) (article_message as) s = Inr s'" "cluster freed s cl" "list_all five_fields as"
  shows "core s' = core (s\<lparr>articles := renumber as 0\<rparr>)
     \<and> outbox s' = outbox s @ map (\<lambda>a. (sa_ip a, PRIMARYPORT, synch_msg (local_ip s) (article_message as))) (others (local_ip s) (SIPs s))"
proof -
  have ip: "CHR 0x00 \<notin> set (local_ip s)" "local_ip s \<in> sa_ip ` set (SIPs s)" using assms(2) by (auto simp: cluster_def)
  have c: "''OPERATION_SYNCH;SYNCH;'' @ field (checkip s) @ field (to_string SYNCH_PORT) @ article_message as
      = synch_msg (local_ip s) (article_message as)"
    by (simp add: synch_msg_def qum_frame_def field_def checkip_def)
  have "CHR 0x00 \<notin> set (synch_msg (local_ip s) (article_message as))"
    using article_message_no_nul [OF list_five_fields_clean [OF assms(3)]] ip(1) by (simp add: synch_msg_def qum_frame_def field_def)
  from synch_loop_sent [OF assms(1) [unfolded synchSelectedServer_def Let_def c] this loadArticle_message [OF assms(3)]]
  show ?thesis using ip(2) by (simp add: sent_to_def)
qed

lemma deliver_synch_all:
  assumes "cluster freed s cl" "list_all five_fields as" "length (article_message as) \<le> 7900"
  shows "\<exists>cl' mail'. deliver_all freed rnd (map (\<lambda>a. (sa_ip a, PRIMARYPORT, synch_msg (local_ip s) (article_message as)))
        (others (local_ip s) (SIPs s))) (cl, mail) = Inr (cl', mail')
     \<and> dom cl' = dom cl \<and> (\<forall>ip\<in>dom cl. arts cl' ip = Some (renumber as 0))
     \<and> mail' (local_ip s, SYNCH_PORT) = mail (local_ip s, SYNCH_PORT)
         @ map (\<lambda>a. to_string (VER (the (cl (sa_ip a))))) (others (local_ip s) (SIPs s))
     \<and> (\<forall>k. k \<noteq> (local_ip s, SYNCH_PORT) \<longrightarrow> mail' k = mail k)"
proof -
  have ip: "isValidIP (local_ip s)" "CHR 0x00 \<notin> set (local_ip s)" using assms(1) by (auto simp: cluster_def)
  have d: "distinct (map sa_ip (others (local_ip s) (SIPs s)))" "sa_ip ` set (others (local_ip s) (SIPs s)) = dom cl"
    using assms(1) by (auto simp: cluster_def others_def distinct_map_filter)
  from deliver_synch [OF ip assms(2) synch_msg_fits [OF ip assms(3)] d, of freed rnd mail] show ?thesis by auto
qed

lemma synchSelectedServer_keeps_outbox:
  assumes "synchSelectedServer l content s = Inr s'"
  shows "\<exists>out. outbox s' = outbox s @ out"
proof -
  have "synch_loop cmd content l s = Inr s' \<Longrightarrow> \<exists>out. outbox s' = outbox s @ out" for cmd
  proof (induction l arbitrary: s)
    case (Cons a l)
    then obtain s1 where 1: "synch_loop cmd content l s1 = Inr s'" "\<exists>out. outbox s1 = outbox s @ out"
      by (auto simp: bindE_Inr_iff loadArticle_def ask_def UDP_send_def UDP_receive_def split: if_splits list.splits)
    then show ?case using Cons.IH by (metis append.assoc)
  qed simp
  then show ?thesis using assms by (simp add: synchSelectedServer_def Let_def)
qed

text \<open>
  One server's list for all: the coordinator fetches the list of one of the servers \<open>l\<close>,
  whichever is the newest, and then every server has it. \<open>mailF\<close> is all the mail of the
  turn, of which the coordinator reads.
\<close>

text \<open>The list spread to everybody, and a fetch in a cluster where nobody holds an article.\<close>

lemma spread_turn:
  assumes y: "synchSelectedServer (SIPs s1) (article_message as) s1 = Inr s2"
    and wf: "cluster freed s1 cl1" and as: "list_all five_fields as" "length (article_message as) \<le> 7900"
    and os: "outbox s2 = outbox s1 @ os" "deliver_all freed rnd os (cl1, mail1) = Inr (cl2, mail2)"
  shows "agreed (renumber as 0) s2 cl2 \<and> cluster freed s2 cl2 \<and> local_ip s2 = local_ip s1
     \<and> (\<forall>k. k \<noteq> (local_ip s1, SYNCH_PORT) \<longrightarrow> mail2 k = mail1 k)"
proof -
  note s2 = synchSelectedServer_sent [OF y wf as(1)]
  note c = core_simps [OF conjunct1 [OF s2]]
  have "os = map (\<lambda>a. (sa_ip a, PRIMARYPORT, synch_msg (local_ip s1) (article_message as))) (others (local_ip s1) (SIPs s1))"
    using s2 os(1) by simp
  with deliver_synch_all [OF wf as, of rnd mail1] os(2)
  have d2: "dom cl2 = dom cl1" "\<forall>ip\<in>dom cl1. arts cl2 ip = Some (renumber as 0)" "\<forall>k. k \<noteq> (local_ip s1, SYNCH_PORT) \<longrightarrow> mail2 k = mail1 k"
    by auto
  have "agreed (renumber as 0) s2 cl2" using c(3) d2 by (simp add: agreed_arts)
  then show ?thesis using cluster_core [OF conjunct1 [OF s2] d2(1) wf] c(1) d2(3) by simp
qed

lemma fetch_empty:
  assumes "\<forall>h\<in>insert (local_ip s) (dom cl). held s cl h = []" "cl (local_ip s) = None"
    and "dom cl1 = dom cl" "arts cl1 = (if h = local_ip s then arts cl else (arts cl)(h := Some []))"
    and "articles s1 = (if h = local_ip s then sort_key art_ID (articles s) else articles s)"
  shows "agreed [] s1 cl1"
proof -
  have nils: "articles s = []" "\<forall>ip\<in>dom cl. held s cl ip = []" using assms(1) by (simp_all add: held_def)
  have "arts cl ip = Some []" if "ip \<in> dom cl" for ip
    using bspec [OF nils(2) that] that assms(2) by (auto simp: held_def arts_def split: if_splits)
  then have "\<forall>ip\<in>dom cl1. arts cl1 ip = Some []" using assms(3,4) by simp
  then show ?thesis using assms(5) nils(1) by (simp add: agreed_arts)
qed

lemma refresh_turn:
  assumes f: "fetch_newest l port s = Inr (R, s1)"
    and y: "(if R \<noteq> [] \<or> always then synchSelectedServer (SIPs s1) R s1 else Inr s1) = Inr s2"
    and d: "deliver_all freed rnd out (cl, mail) = Inr (cl2, mail2)" "outbox s2 = outbox s @ out"
    and F: "inbox s port = mail2 (local_ip s, port) @ e" "mail (local_ip s, port) = []"
    and wf: "cluster freed s cl" "distinct (map sa_ip l)" "set l \<subseteq> set (SIPs s)"
    and five: "\<forall>h\<in>insert (local_ip s) (sa_ip ` set l). list_all five_fields (held s cl h) \<and> length (article_message (held s cl h)) \<le> 7900"
    and nil: "\<forall>h\<in>sa_ip ` set l. held s cl h = [] \<longrightarrow> (\<forall>h\<in>insert (local_ip s) (dom cl). held s cl h = [])"
    and port: "isValidPort port" "port \<noteq> PRIMARYPORT" "port \<noteq> GETNEWVER_PORT" "port \<noteq> SYNCH_PORT"
  shows "\<exists>h\<in>sa_ip ` set l. agreed (renumber (sort_key art_ID (held s cl h)) 0) s2 cl2 \<and> cluster freed s2 cl2
     \<and> local_ip s2 = local_ip s \<and> (\<forall>k. k \<notin> {local_ip s} \<times> {port, GETNEWVER_PORT, SYNCH_PORT} \<longrightarrow> mail2 k = mail k)"
proof -
  let ?ip = "local_ip s"
  have ip: "CHR 0x00 \<notin> set ?ip" and vip: "isValidIP ?ip" and out: "cl ?ip = None" using wf(1) by (auto simp: cluster_def)
  have clean: "\<forall>h\<in>insert ?ip (sa_ip ` set l). list_all article_clean (held s cl h)" using five list_five_fields_clean by blast
  then have "list_all article_clean (articles s)" by (simp add: held_def)
  from fetch_newest_sent [OF f ip port(1,3) this] obtain h where h: "h \<in> sa_ip ` set l" and R: "R = cstr (hd (inbox s port))"
    and s1: "core s1 = core (s\<lparr>articles := (if h = ?ip then sort_key art_ID (articles s) else articles s)\<rparr>)"
    and o1: "outbox s1 = outbox s @ map (\<lambda>a. (sa_ip a, PRIMARYPORT, version_msg ?ip)) (others ?ip l)
          @ [if h = ?ip then (?ip, port, article_message (sort_key art_ID (articles s))) else (h, PRIMARYPORT, read_msg ''SYNCH'' ?ip port)]"
      (is "_ = _ @ ?o1")
    by blast
  have "\<forall>h\<in>sa_ip ` set l. list_all article_clean (held s cl h)" using clean by blast
  from deliver_fetch [OF wf(1) wf(2,3) h this port(1,2) _ vip ip word_ok_messages(4), of rnd mail] port(3)
  obtain cl1 mail1 where d1: "deliver_all freed rnd ?o1 (cl, mail) = Inr (cl1, mail1)" "dom cl1 = dom cl"
      "mail1 (?ip, port) = [article_message (sort_key art_ID (held s cl h))]"
      "arts cl1 = (if h = ?ip then arts cl else (arts cl)(h := Some (sort_key art_ID (held s cl h))))"
    and k1: "\<forall>k. k \<noteq> (?ip, GETNEWVER_PORT) \<and> k \<noteq> (?ip, port) \<longrightarrow> mail1 k = mail k"
    using F(2) by auto
  define as where "as = sort_key art_ID (held s cl h)"
  have perm: "mset (map view as) = mset (map view (held s cl h))" by (simp only: as_def mset_map mset_sort)
  have held: "list_all five_fields (held s cl h)" "length (article_message (held s cl h)) \<le> 7900" using five h by auto
  have as: "list_all five_fields as" "length (article_message as) \<le> 7900"
    using listed_renumber(2) [OF perm held] length_article_message_mset [OF perm] held(2) by simp_all
  have wf1: "cluster freed s1 cl1" using cluster_core [OF s1 d1(2) wf(1)] .
  have c1: "local_ip s1 = ?ip" "SIPs s1 = SIPs s" using core_simps [OF s1] by simp_all
  obtain os where os: "outbox s2 = outbox s1 @ os" "out = ?o1 @ os" "deliver_all freed rnd os (cl1, mail1) = Inr (cl2, mail2)"
  proof -
    have "\<exists>os. outbox s2 = outbox s1 @ os"
      using y synchSelectedServer_keeps_outbox by (cases "R \<noteq> [] \<or> always") auto
    then obtain os where os: "outbox s2 = outbox s1 @ os" ..
    then have "out = ?o1 @ os" using d(2) o1 by simp
    with os d(1) d1(1) show thesis using that by (simp only: deliver_all_append bindE.simps)
  qed
  obtain e2 where "mail2 (?ip, port) = mail1 (?ip, port) @ e2" using deliver_all_mail [OF os(3)] by blast
  then have Rm: "R = article_message as"
    using F(1) R d1(3) article_message_no_nul [OF list_five_fields_clean [OF as(1)]] by (simp add: as_def)
  show ?thesis
  proof (cases "R \<noteq> [] \<or> always")
    case True
    then have "synchSelectedServer (SIPs s1) (article_message as) s1 = Inr s2" using y Rm by simp
    from spread_turn [OF this wf1 as os(1,3)] show ?thesis
      using h k1 c1 by (intro bexI [of _ h]) (auto simp: as_def)
  next
    case False
    then have s2: "s2 = s1" "as = []" using y Rm article_message_empty_iff [OF list_five_fields_clean [OF as(1)]] by auto
    then have "held s cl h = []" using arg_cong [OF perm, of size] by simp
    then have nils: "\<forall>h\<in>insert ?ip (dom cl). held s cl h = []" using nil h by blast
    have "arts cl1 = (if h = ?ip then arts cl else (arts cl)(h := Some []))" using d1(4) s2(2) by (simp add: as_def)
    from fetch_empty [OF nils out d1(2) this] have "agreed [] s1 cl1" using core_simps(3) [OF s1] by simp
    moreover have "cl2 = cl1" "mail2 = mail1" using os s2(1) by simp_all
    ultimately show ?thesis using h s2 wf1 c1 k1 by (intro bexI [of _ h]) (auto simp: as_def)
  qed
qed

end
