(* ===== verification/QuorumBoard.thy ===== *)
theory QuorumBoard
  imports QuorumCluster
begin

text \<open>
  The turns of the quorum coordinator (post, read, synchronisation, heartbeat) and the runs
  of the cluster made of them, against the abstract bulletin board: a multiset of articles
  to which a post adds one and nothing else does anything.
\<close>

section \<open>The requests\<close>

definition post_msg :: "string \<Rightarrow> int \<Rightarrow> int \<Rightarrow> string \<Rightarrow> string" where
  "post_msg host p pre req = ''FORWARD_QUM;'' @ generatePrefix \<lparr>sa_ip = host, sa_port = p\<rparr> req ''POST'' pre"

definition client_msg :: "string \<Rightarrow> string \<Rightarrow> int \<Rightarrow> string" where
  "client_msg cmd host p = ''FORWARD_QUM;'' @ generatePrefix \<lparr>sa_ip = host, sa_port = p\<rparr> [] cmd (- 2)"

lemma handlers_send:
  "qum_Post_handler \<lparr>sa_ip = host, sa_port = p\<rparr> req s = Inr (UDP_send (coordinatorIP s) PRIMARYPORT (post_msg host p (- 1) req) s)"
  "SIPs s \<noteq> [] \<Longrightarrow> qum_Read_handler \<lparr>sa_ip = host, sa_port = p\<rparr> s = Inr (UDP_send (coordinatorIP s) PRIMARYPORT (client_msg ''READ'' host p) s)"
  "qum_Choose_handler \<lparr>sa_ip = host, sa_port = p\<rparr> req s = Inr (UDP_send (coordinatorIP s) PRIMARYPORT (client_msg ''SYNCH'' host p) s)"
  by (simp_all add: qum_Post_handler_def qum_Read_handler_def qum_Choose_handler_def qum_forward_def post_msg_def client_msg_def)

lemma qum_forward_command [simp]: "qum_command_of True ''FORWARD_QUM'' = FORWARD_QUM"
  by (simp add: qum_command_of_def strcaseeq_def)

definition post_article :: "int \<Rightarrow> string \<Rightarrow> Article" where
  "post_article pre req = \<lparr>art_ID = 0, art_primaryIP = [], art_content = [req], art_hierachy = word_of_int (pre + 1)\<rparr>"

lemma host_fields:
  assumes "isValidIP host" "CHR 0x00 \<notin> set host" "isValidPort p"
  shows "host \<noteq> []" "CHR '';'' \<notin> set host" "length host < 16" "is_int32 p" "length (to_string p) \<le> 11" "p mod 65536 = p"
proof -
  show "host \<noteq> []" "CHR '';'' \<notin> set host" using isValidIP_not_Nil [of host] isValidIP_clean [of host] assms by auto
  show "length host < 16" using addr_ok_fits [OF assms(1,2)] by (simp add: fits16_def)
  show i: "is_int32 p" and "p mod 65536 = p" using assms(3) by (auto simp: isValidPort_def is_int32_def split: if_splits)
  show "length (to_string p) \<le> 11" using length_to_string_int32 [OF i] by simp
qed

lemma listen_post_msg:
  assumes "isValidIP host" "CHR 0x00 \<notin> set host" "isValidPort p" "CHR 0x00 \<notin> set req" "length req \<le> 7900" "is_int32 pre" "pre \<noteq> - 2"
    and "IsCoordinator s"
  shows "qum_listen_step freed rnd (post_msg host p pre req) s = FORWARD_post freed rnd req host (to_string p) (to_string pre) s"
proof -
  note hf = host_fields [OF assms(1-3)]
  let ?r = "field (to_string pre) @ req"
  have m: "post_msg host p pre req = qum_frame ''FORWARD_QUM'' ''POST'' host p ?r"
    using assms(7) by (simp add: post_msg_def generatePrefix_def qum_frame_def field_def)
  have "length (qum_frame ''FORWARD_QUM'' ''POST'' host p ?r) \<le> BB_BUFLEN"
    using hf(3,5) assms(5) length_to_string_int32 [OF assms(6)] by (simp add: qum_frame_def)
  moreover have "CHR 0x00 \<notin> set ?r" using assms(4) by (simp add: field_def)
  ultimately have l: "qum_listen_step freed rnd (post_msg host p pre req) s
      = FORWARD_handler freed rnd (field ''POST'' @ field host @ field (to_string p) @ ?r) s"
    using qum_listen_frame [OF word_ok_messages(5,6) assms(1,2,3), of ?r freed rnd s] assms(8)
    by (simp add: m Let_def)
  let ?q = "field ''POST'' @ field host @ field (to_string p) @ ?r"
  have "tokens '';'' (field c @ field host @ field (to_string p) @ ?r) = c # host # to_string p # to_string pre # tokens '';'' req"
    if "word_ok c" for c
    using hf(1,2) that by (simp add: field_def tokens_field word_ok_def)
  note t = this [OF word_ok_messages(6)]
  have "(skip_field ^^ 4) (field c @ field host @ field (to_string p) @ ?r) = req" if "word_ok c" for c
    using hf(2) that by (simp add: field_def word_ok_def skip_field_app numeral_eq_Suc)
  note k = this [OF word_ok_messages(6)]
  have "strcaseeq ''POST'' ''POST''" "\<not> strcaseeq ''POST'' ''READ''" by code_simp+
  then show ?thesis
    unfolding l FORWARD_handler_def Split_tz bindE.simps GetNext_tz prod.case t tok_at_simps Let_def k
    by (simp only: if_True if_False)
qed

lemma listen_client:
  assumes "isValidIP host" "CHR 0x00 \<notin> set host" "isValidPort p" "IsCoordinator s"
  shows "qum_listen_step freed rnd (client_msg ''READ'' host p) s = FORWARD_read freed rnd host (to_string p) s"
    "qum_listen_step freed rnd (client_msg ''SYNCH'' host p) s = FORWARD_synch host (to_string p) s"
proof -
  note hf = host_fields [OF assms(1-3)]
  have m: "client_msg cmd host p = qum_frame ''FORWARD_QUM'' cmd host p []" for cmd
    by (simp add: client_msg_def generatePrefix_def qum_frame_def field_def)
  have l: "qum_listen_step freed rnd (client_msg cmd host p) s
      = FORWARD_handler freed rnd (field cmd @ field host @ field (to_string p)) s" if "word_ok cmd" "length cmd < 100" for cmd
    using qum_listen_frame [OF word_ok_messages(5) that(1) assms(1,2,3), of "[]" freed rnd s] assms(4) hf(3,5) that(2)
    by (simp add: m Let_def qum_frame_def)
  have t: "tokens '';'' (field cmd @ field host @ field (to_string p)) = [cmd, host, to_string p]" if "word_ok cmd" for cmd
    using hf(1,2) that by (simp add: field_def tokens_field word_ok_def)
  have c: "strcaseeq ''READ'' ''READ''" "strcaseeq ''SYNCH'' ''SYNCH''" "\<not> strcaseeq ''SYNCH'' ''READ''" "\<not> strcaseeq ''SYNCH'' ''POST''"
    by code_simp+
  show "qum_listen_step freed rnd (client_msg ''READ'' host p) s = FORWARD_read freed rnd host (to_string p) s"
    using c by (simp add: l word_ok_messages FORWARD_handler_def Split_tz GetNext_tz t tok_at_simps)
  show "qum_listen_step freed rnd (client_msg ''SYNCH'' host p) s = FORWARD_synch host (to_string p) s"
    using c by (simp add: l word_ok_messages FORWARD_handler_def Split_tz GetNext_tz t tok_at_simps)
qed

section \<open>A post\<close>

lemma cluster_cong:
  assumes "local_ip s' = local_ip s" "SIPs s' = SIPs s" "IsCoordinator s' = IsCoordinator s" "qum_N s' = qum_N s" "Nr s' = Nr s"
    and "dom cl' = dom cl"
  shows "cluster freed s' cl' \<longleftrightarrow> cluster freed s cl"
  using assms by (simp add: cluster_def)

lemma write_msg_fits:
  assumes "isValidIP ip" "CHR 0x00 \<notin> set ip" "is_int32 pre" "length req \<le> 7900"
  shows "length (write_msg ip pre req) \<le> BB_BUFLEN"
proof -
  have "length (to_string WRITESELECT_PORT) = 4" by code_simp
  then show ?thesis
    using addr_ok_fits [OF assms(1,2)] length_to_string_int32 [OF assms(3)] assms(4)
    by (simp add: write_msg_def qum_frame_def fits16_def)
qed

lemma writeArticle_core:
  "local_ip (writeArticle c pre s) = local_ip s" "SIPs (writeArticle c pre s) = SIPs s"
  "IsCoordinator (writeArticle c pre s) = IsCoordinator s" "qum_N (writeArticle c pre s) = qum_N s" "Nr (writeArticle c pre s) = Nr s"
  "\<exists>n ip. articles (writeArticle c pre s) = articles s @ [(post_article pre c)\<lparr>art_ID := n, art_primaryIP := ip\<rparr>]"
  by (simp_all add: writeArticle_def post_article_def)

text \<open>Coordinator and members after the write of the quorum \<open>l\<close>.\<close>

definition written :: "SAddr list \<Rightarrow> string \<Rightarrow> int \<Rightarrow> qum_server \<Rightarrow> qum_server" where
  "written l req pre s = (if local_ip s \<in> sa_ip ` set l then writeArticle req pre s else s)"

definition written_members :: "string \<Rightarrow> SAddr list \<Rightarrow> string \<Rightarrow> int \<Rightarrow> members \<Rightarrow> members" where
  "written_members ip l req pre cl = update_members (wrote req pre) (sa_ip ` set (others ip l)) cl"

lemma written_simps [simp]:
  "local_ip (written l req pre s) = local_ip s" "SIPs (written l req pre s) = SIPs s"
  "dom (written_members ip l req pre cl) = dom cl"
  "cluster freed (written l req pre s) (written_members ip l req pre cl) = cluster freed s cl"
  by (simp_all add: written_def writeArticle_core written_members_def cluster_def)

lemma write_sent:
  assumes w: "writeSelectedServer l req pre s = Inr (result, s1)"
    and l: "distinct (map sa_ip l)" and nul: "CHR 0x00 \<notin> set (local_ip s)" "CHR 0x00 \<notin> set req"
  shows "result \<and> sent_to WRITESELECT_PORT (write_msg (local_ip s) pre req) (others (local_ip s) l) (written l req pre) s s1"
proof -
  let ?W = "write_msg (local_ip s) pre req"
  have c: "''OPERATION_WRITE;WRITE;'' @ field (checkip s) @ field (to_string WRITESELECT_PORT) @ field (to_string pre) @ req = ?W"
    by (simp add: write_msg_def qum_frame_def field_def checkip_def)
  have result and wl: "write_loop ?W req pre l s = Inr s1"
    using w unfolding writeSelectedServer_def Let_def c by (auto simp: bindE_Inr_iff)
  have "CHR 0x00 \<notin> set ?W" using nul by (simp add: write_msg_def qum_frame_def field_def)
  from write_loop_sent [OF wl l this] \<open>result\<close> show ?thesis
    by (simp add: sent_to_def written_def split: if_splits)
qed

text \<open>The servers written to hold the new article behind the old ones, the others what they held.\<close>

lemma written_held:
  assumes ag: "agreed as s cl" and out: "cl (local_ip s) = None" and h: "h \<in> insert (local_ip s) (dom cl)"
  shows "if h \<in> sa_ip ` set l then map view (held (written l req pre s) (written_members (local_ip s) l req pre cl) h) = map view (as @ [post_article pre req])
     else held (written l req pre s) (written_members (local_ip s) l req pre cl) h = as"
proof -
  have new: "map view (articles (writeArticle req pre m)) = map view (articles m) @ [view (post_article pre req)]" for m
    using writeArticle_core(6) [of req pre m] by (auto simp: view_def)
  show ?thesis
  proof (cases "h = local_ip s")
    case True
    then show ?thesis using ag new [of s] by (simp add: held_def agreed_def written_def writeArticle_core(1))
  next
    case False
    then obtain m where m: "cl h = Some m" "articles m = as" using h ag by (auto simp: agreed_def)
    have "h \<in> sa_ip ` set (others (local_ip s) l) \<longleftrightarrow> h \<in> sa_ip ` set l" using False by (auto simp: others_def)
    then show ?thesis using False m new [of m] by (simp add: held_def written_members_def arts_update wrote_def) (simp add: arts_def)
  qed
qed

lemma refresh_out:
  assumes "fetch_newest l port s = Inr (R, s1)" "(if R \<noteq> [] \<or> always then synchSelectedServer (SIPs s1) R s1 else Inr s1) = Inr s2"
    and "CHR 0x00 \<notin> set (local_ip s)" "isValidPort port" "port \<noteq> GETNEWVER_PORT" "list_all article_clean (articles s)"
  shows "\<exists>out. outbox s2 = outbox s @ out"
proof -
  obtain o1 where "outbox s1 = outbox s @ o1" using fetch_newest_sent [OF assms(1,3-6)] by blast
  moreover have "\<exists>o2. outbox s2 = outbox s1 @ o2"
    using assms(2) synchSelectedServer_keeps_outbox by (cases "R \<noteq> [] \<or> always") auto
  ultimately show ?thesis by auto
qed

definition post_ok :: "Article list \<Rightarrow> int \<Rightarrow> string \<Rightarrow> bool" where
  "post_ok as pre req \<longleftrightarrow> is_int32 pre \<and> pre \<noteq> - 2 \<and> five_fields (post_article pre req)
     \<and> length (article_message (as @ [post_article pre req])) \<le> 7900"

lemma post_okD:
  assumes "post_ok as pre req"
  shows "CHR 0x00 \<notin> set req" "length req \<le> 7900" "is_int32 pre" "pre \<noteq> - 2"
proof -
  let ?a = "post_article pre req"
  have "article_clean ?a" using assms five_fields_clean by (simp add: post_ok_def)
  then show "CHR 0x00 \<notin> set req" by (auto simp: article_clean_def post_article_def)
  have "length req \<le> length (article_text ?a)" by (simp add: article_text_def post_article_def)
  also have "\<dots> \<le> length (article_message (as @ [?a]))" by (simp add: article_message_def length_join_fields)
  finally show "length req \<le> 7900" using assms by (simp add: post_ok_def)
  show "is_int32 pre" "pre \<noteq> - 2" using assms by (simp_all add: post_ok_def)
qed

lemma client_okD:
  assumes "client_ok ip host p"
  shows "isValidIP host" "CHR 0x00 \<notin> set host" "isValidPort p" "p \<noteq> PRIMARYPORT" "(host, p) \<notin> reply_keys ip"
  using assms by (auto simp: client_ok_def reply_keys_def)

lemma deliver_client:
  assumes "client_ok ip host p" "CHR 0x00 \<notin> set m"
  shows "deliver freed rnd (host, p mod 65536, cstr m) (cl, mail) = Inr (cl, mail((host, p) := mail (host, p) @ [m]))"
  using client_okD(4) [OF assms(1)] host_fields(6) [OF client_okD(1-3) [OF assms(1)]] assms(2) by simp

text \<open>After the write every list is one the coordinator can hand out, and those of the quorum have the post.\<close>

lemma written_ok:
  assumes ag: "agreed as s cl" "listed as" and out: "cl (local_ip s) = None" and req: "post_ok as pre req"
    and l: "sa_ip ` set l \<subseteq> insert (local_ip s) (dom cl)" and h: "h \<in> insert (local_ip s) (sa_ip ` set l)"
  defines "H \<equiv> held (written l req pre s) (written_members (local_ip s) l req pre cl) h"
  shows "list_all five_fields H" "length (article_message H) \<le> 7900"
    and "h \<in> sa_ip ` set l \<Longrightarrow> mset (map view (sort_key art_ID H)) = add_mset (view (post_article pre req)) (mset (map view as)) \<and> H \<noteq> []
      \<and> listed (renumber (sort_key art_ID H) 0)"
proof -
  have five: "list_all five_fields (as @ [post_article pre req])" "length (article_message as) \<le> 7900" "length (article_message (as @ [post_article pre req])) \<le> 7900"
    using ag(2) req by (auto simp: listed_def post_ok_def)
  have "h \<in> insert (local_ip s) (dom cl)" using h l by blast
  note w = written_held [OF ag(1) out this, of l req pre, folded H_def]
  have v: "mset (map view H) = mset (map view (as @ [post_article pre req]))" if "h \<in> sa_ip ` set l"
    using w that by (intro arg_cong [where f = mset]) simp
  show "list_all five_fields H" "length (article_message H) \<le> 7900"
    using listed_renumber(2) [OF v five(1,3)] length_article_message_mset [OF v] five w by (cases "h \<in> sa_ip ` set l"; simp)+
  assume h: "h \<in> sa_ip ` set l"
  have v': "mset (map view (sort_key art_ID H)) = mset (map view (as @ [post_article pre req]))"
    using v [OF h] by (simp only: mset_map mset_sort)
  moreover have "H \<noteq> []" using v [OF h] by fastforce
  ultimately show "mset (map view (sort_key art_ID H)) = add_mset (view (post_article pre req)) (mset (map view as)) \<and> H \<noteq> []
      \<and> listed (renumber (sort_key art_ID H) 0)"
    using listed_renumber(1) [OF v' five(1,3)] by simp
qed

lemma held_core: "core s = core t \<Longrightarrow> held s cl h = held t cl h"
  using core_simps [of s t] by (simp add: held_def)

lemma REQUESTPORT_ok: "isValidPort REQUESTPORT" "REQUESTPORT \<noteq> PRIMARYPORT" "REQUESTPORT \<noteq> GETNEWVER_PORT" "REQUESTPORT \<noteq> SYNCH_PORT"
  by (simp_all add: isValidPort_def)

text \<open>The coordinator and its quorum after the write, and its questions on their way.\<close>

lemma post_written:
  assumes w: "writeSelectedServer l req pre s = Inr (result, s1)"
    and wf: "cluster freed s cl" and ag: "agreed as s cl" "listed as" and req: "post_ok as pre req"
    and l: "distinct (map sa_ip l)" "set l \<subseteq> set (SIPs s)"
  defines "cl1 \<equiv> written_members (local_ip s) l req pre cl"
    and "W \<equiv> map (\<lambda>a. (sa_ip a, PRIMARYPORT, write_msg (local_ip s) pre req)) (others (local_ip s) l)"
  shows "result \<and> outbox s1 = outbox s @ W \<and> (\<forall>p. p \<noteq> WRITESELECT_PORT \<longrightarrow> inbox s1 p = inbox s p)"
    and "core s1 = core (written l req pre s)" and "cluster freed s1 cl1"
    and "\<exists>mail1. deliver_all freed rnd W (cl, \<lambda>_. []) = Inr (cl1, mail1) \<and> (\<forall>k. k \<noteq> (local_ip s, WRITESELECT_PORT) \<longrightarrow> mail1 k = [])"
    and "\<forall>h\<in>insert (local_ip s1) (sa_ip ` set l). list_all five_fields (held s1 cl1 h) \<and> length (article_message (held s1 cl1 h)) \<le> 7900"
    and "\<forall>h\<in>sa_ip ` set l. mset (map view (sort_key art_ID (held s1 cl1 h))) = add_mset (view (post_article pre req)) (mset (map view as))
      \<and> held s1 cl1 h \<noteq> [] \<and> listed (renumber (sort_key art_ID (held s1 cl1 h)) 0)"
proof -
  note post = post_okD [OF req]
  have ip: "isValidIP (local_ip s)" "CHR 0x00 \<notin> set (local_ip s)" "cl (local_ip s) = None" using wf by (auto simp: cluster_def)
  have lin: "sa_ip ` set l \<subseteq> insert (local_ip s) (dom cl)" using l wf by (auto simp: cluster_def)
  from write_sent [OF w l(1) ip(2) post(1)]
  show "result \<and> outbox s1 = outbox s @ W \<and> (\<forall>p. p \<noteq> WRITESELECT_PORT \<longrightarrow> inbox s1 p = inbox s p)"
    and c1: "core s1 = core (written l req pre s)"
    by (auto simp: sent_to_def W_def)
  show "cluster freed s1 cl1"
    using wf cluster_cong [of s1 "written l req pre s" cl1 cl1 freed] core_simps [OF c1] by (simp add: cl1_def)
  have "distinct (map sa_ip (others (local_ip s) l))" "\<forall>a\<in>set (others (local_ip s) l). cl (sa_ip a) \<noteq> None"
    using l cluster_others [OF wf] by (auto simp: others_def distinct_map_filter)
  from deliver_writes [OF ip(1,2) post(1,3) write_msg_fits [OF ip(1,2) post(3,2)] this, of freed rnd "\<lambda>_. []"]
  show "\<exists>mail1. deliver_all freed rnd W (cl, \<lambda>_. []) = Inr (cl1, mail1) \<and> (\<forall>k. k \<noteq> (local_ip s, WRITESELECT_PORT) \<longrightarrow> mail1 k = [])"
    by (auto simp: written_members_def cl1_def W_def)
  have "held s1 cl1 h = held (written l req pre s) cl1 h" for h using held_core [OF c1] by simp
  moreover have "local_ip s1 = local_ip s" using core_simps [OF c1] by simp
  moreover note wo = written_ok [OF ag ip(3) req lin, of _, folded cl1_def]
  ultimately show "\<forall>h\<in>insert (local_ip s1) (sa_ip ` set l). list_all five_fields (held s1 cl1 h) \<and> length (article_message (held s1 cl1 h)) \<le> 7900"
    and "\<forall>h\<in>sa_ip ` set l. mset (map view (sort_key art_ID (held s1 cl1 h))) = add_mset (view (post_article pre req)) (mset (map view as))
      \<and> held s1 cl1 h \<noteq> [] \<and> listed (renumber (sort_key art_ID (held s1 cl1 h)) 0)"
    by auto
qed

lemma post_turn:
  assumes turn: "qum_turn freed rnd (qum_listen_step freed rnd (post_msg host p pre req)) s cl s' cl' mail"
    and wf: "cluster freed s cl" and ag: "agreed as s cl" "listed as"
    and req: "post_ok as pre req" and client: "client_ok (local_ip s) host p"
  shows "\<exists>as'. agreed as' s' cl' \<and> listed as' \<and> cluster freed s' cl'
     \<and> mset (map view as') = add_mset (view (post_article pre req)) (mset (map view as))
     \<and> mail (host, p) = [''Success;1''] \<and> local_ip s' = local_ip s"
proof -
  let ?ip = "local_ip s" let ?s0 = "s\<lparr>outbox := [], inbox := (\<lambda>p. mail (?ip, p))\<rparr>"
  note post = post_okD [OF req] and cl = client_okD [OF client]
  have wf0: "cluster freed ?s0 cl" and ag0: "agreed as ?s0 cl" using wf ag(1) by (simp_all add: cluster_def agreed_def)
  have ip: "isValidIP ?ip" "CHR 0x00 \<notin> set ?ip" "cl ?ip = None" using wf by (auto simp: cluster_def)
  have "FORWARD_post freed rnd req host (to_string p) (to_string pre) ?s0 = Inr s'"
    using turn listen_post_msg [OF cl(1-3) post, of ?s0] wf by (simp add: qum_turn_def cluster_def)
  then obtain l result s1 R s2 s3 where sel: "selectRandomServer freed rnd (qum_N ?s0) (Nr ?s0) (SIPs ?s0) ?s0 = Inr l"
    and w: "writeSelectedServer l req pre ?s0 = Inr (result, s1)" and f: "fetch_newest l REQUESTPORT s1 = Inr (R, s2)"
    and y: "(if R \<noteq> [] \<or> False then synchSelectedServer (SIPs s2) R s2 else Inr s2) = Inr s3"
    and s': "s' = UDP_send host p (if result then ''Success;1'' else ''Fail;0'') s3"
    unfolding FORWARD_post_def using stoi_to_string [OF host_fields(4) [OF cl(1-3)]] stoi_to_string [OF post(3)]
    by (auto simp only: bindE_Inr_iff prod.case sum.inject simp_thms)
  have l: "distinct (map sa_ip l)" "set l \<subseteq> set (SIPs ?s0)" using selected_servers [OF wf0 sel] by simp_all
  let ?cl1 = "written_members ?ip l req pre cl"
  let ?W = "map (\<lambda>a. (sa_ip a, PRIMARYPORT, write_msg ?ip pre req)) (others ?ip l)"
  note pw = post_written [OF w wf0 ag0 ag(2) req l]
  note c1 = pw(2)
  have result and o1: "outbox s1 = ?W" and i1: "\<forall>p. p \<noteq> WRITESELECT_PORT \<longrightarrow> inbox s1 p = mail (?ip, p)"
    using pw(1) by simp_all
  have wf1: "cluster freed s1 ?cl1" using pw(3) by simp
  have e1: "local_ip s1 = ?ip" "SIPs s1 = SIPs s" using core_simps [OF c1] by simp_all
  obtain mail1 where m1: "deliver_all freed rnd ?W (cl, \<lambda>_. []) = Inr (?cl1, mail1)" "\<forall>k. k \<noteq> (?ip, WRITESELECT_PORT) \<longrightarrow> mail1 k = []"
    using pw(4) [where rnd = rnd] by auto
  have five: "\<forall>h\<in>insert (local_ip s1) (sa_ip ` set l). list_all five_fields (held s1 ?cl1 h) \<and> length (article_message (held s1 ?cl1 h)) \<le> 7900"
    using pw(5) by simp
  have nil: "\<forall>h\<in>sa_ip ` set l. held s1 ?cl1 h = [] \<longrightarrow> (\<forall>h\<in>insert (local_ip s1) (dom ?cl1). held s1 ?cl1 h = [])"
    using pw(6) by simp
  have "list_all article_clean (articles s1)" "CHR 0x00 \<notin> set (local_ip s1)"
    using five list_five_fields_clean [of "articles s1"] ip(2) e1(1) by (simp_all add: held_def)
  then obtain out where out: "outbox s3 = outbox s1 @ out" using refresh_out [OF f y _ REQUESTPORT_ok(1,3)] by blast
  have nul: "CHR 0x00 \<notin> set ''Success;1''" by simp
  have o': "outbox s' = ?W @ out @ [(host, p mod 65536, cstr ''Success;1'')]" using s' \<open>result\<close> o1 out by (simp add: UDP_send_def)
  then obtain cl2 mail2 where d2: "deliver_all freed rnd out (?cl1, mail1) = Inr (cl2, mail2)"
    and F: "cl' = cl2" "mail = mail2((host, p) := mail2 (host, p) @ [''Success;1''])"
    using turn m1(1) deliver_client [OF client nul, of freed rnd] by (auto simp: qum_turn_def deliver_all_append bindE_Inr_iff)
  have "(host, p) \<noteq> (?ip, REQUESTPORT)" using cl(5) by (auto simp: reply_keys_def)
  then have i: "inbox s1 REQUESTPORT = mail2 (local_ip s1, REQUESTPORT) @ []" "mail1 (local_ip s1, REQUESTPORT) = []"
    using i1 F(2) m1(2) e1(1) by auto
  have ld: "distinct (map sa_ip l)" "set l \<subseteq> set (SIPs s1)" using l e1(2) by simp_all
  from refresh_turn [OF f y d2 out i wf1 ld five nil REQUESTPORT_ok]
  obtain h where h: "h \<in> sa_ip ` set l" "agreed (renumber (sort_key art_ID (held s1 ?cl1 h)) 0) s3 cl2" "cluster freed s3 cl2" "local_ip s3 = ?ip"
    and k2: "\<forall>k. k \<notin> {?ip} \<times> {REQUESTPORT, GETNEWVER_PORT, SYNCH_PORT} \<longrightarrow> mail2 k = mail1 k"
    using e1(1) by auto
  have "mail (host, p) = [''Success;1'']" using cl(5) k2 m1(2) F(2) by (auto simp: reply_keys_def)
  moreover have "agreed (renumber (sort_key art_ID (held s1 ?cl1 h)) 0) s' cl'" "cluster freed s' cl'" "local_ip s' = ?ip"
    using h F(1) by (simp_all add: s' UDP_send_def agreed_def cluster_def)
  ultimately show ?thesis
    using bspec [OF pw(6) h(1)]
    by (intro exI [of _ "renumber (sort_key art_ID (held s1 ?cl1 h)) 0"]) simp
qed

section \<open>Synchronisation, heartbeat, read\<close>

lemma held_agreed: "agreed as s cl \<Longrightarrow> h \<in> insert (local_ip s) (dom cl) \<Longrightarrow> held s cl h = as"
  by (auto simp: held_def agreed_def arts_def)

lemma cluster_servers: "cluster freed s cl \<Longrightarrow> sa_ip ` set (SIPs s) = insert (local_ip s) (dom cl)"
  by (auto simp: cluster_def)

text \<open>Where all servers agree, fetching and handing out changes nothing.\<close>

lemma refresh_agreed:
  assumes f: "fetch_newest (SIPs s) port s = Inr (R, s1)"
    and y: "(if R \<noteq> [] \<or> always then synchSelectedServer (SIPs s1) R s1 else Inr s1) = Inr s2"
    and d: "deliver_all freed rnd out (cl, mail) = Inr (cl2, mail2)" "outbox s2 = outbox s @ out"
    and F: "inbox s port = mail2 (local_ip s, port) @ e" "mail (local_ip s, port) = []"
    and wf: "cluster freed s cl" and ag: "agreed as s cl" "listed as"
    and port: "isValidPort port" "port \<noteq> PRIMARYPORT" "port \<noteq> GETNEWVER_PORT" "port \<noteq> SYNCH_PORT"
  shows "agreed as s2 cl2 \<and> cluster freed s2 cl2 \<and> local_ip s2 = local_ip s
     \<and> (\<forall>k. k \<notin> {local_ip s} \<times> {port, GETNEWVER_PORT, SYNCH_PORT} \<longrightarrow> mail2 k = mail k)"
proof -
  note sv = cluster_servers [OF wf] and h = held_agreed [OF ag(1)]
  have ds: "distinct (map sa_ip (SIPs s))" using wf by (simp add: cluster_def)
  have five: "\<forall>h\<in>insert (local_ip s) (sa_ip ` set (SIPs s)). list_all five_fields (held s cl h) \<and> length (article_message (held s cl h)) \<le> 7900"
    unfolding sv using ag(2) h by (simp add: listed_def)
  have nil: "\<forall>h\<in>sa_ip ` set (SIPs s). held s cl h = [] \<longrightarrow> (\<forall>h\<in>insert (local_ip s) (dom cl). held s cl h = [])"
    unfolding sv using h by simp
  obtain h' where h': "h' \<in> sa_ip ` set (SIPs s)" "agreed (renumber (sort_key art_ID (held s cl h')) 0) s2 cl2" "cluster freed s2 cl2"
    "local_ip s2 = local_ip s" "\<forall>k. k \<notin> {local_ip s} \<times> {port, GETNEWVER_PORT, SYNCH_PORT} \<longrightarrow> mail2 k = mail k"
    using refresh_turn [OF f y d F wf ds order_refl five nil port] by blast
  moreover have "renumber (sort_key art_ID (held s cl h')) 0 = as"
    using h h'(1) sort_listed [OF ag(2)] ag(2) by (simp only: sv listed_def)
  ultimately show ?thesis by metis
qed

lemma turn_start:
  "cluster freed (s\<lparr>outbox := out, inbox := inb\<rparr>) cl = cluster freed s cl"
  "agreed as (s\<lparr>outbox := out, inbox := inb\<rparr>) cl = agreed as s cl"
  "cluster freed (UDP_send ip p m s) cl = cluster freed s cl" "agreed as (UDP_send ip p m s) cl = agreed as s cl"
  by (simp_all add: cluster_def agreed_def UDP_send_def)

lemma heartbeat_turn:
  assumes turn: "qum_turn freed rnd qum_heartBeat s cl s' cl' mail"
    and wf: "cluster freed s cl" and ag: "agreed as s cl" "listed as"
  shows "agreed as s' cl' \<and> cluster freed s' cl' \<and> local_ip s' = local_ip s"
proof -
  let ?s0 = "s\<lparr>outbox := [], inbox := (\<lambda>p. mail (local_ip s, p))\<rparr>"
  have wf0: "cluster freed ?s0 cl" and ag0: "agreed as ?s0 cl" using wf ag(1) by (simp_all add: turn_start)
  then have "qum_heartBeat ?s0 = Inr s'" "IsCoordinator ?s0" "deliver_all freed rnd (outbox s') (cl, \<lambda>_. []) = Inr (cl', mail)"
    using turn by (simp_all add: qum_turn_def cluster_def)
  then obtain R s1 where f: "fetch_newest (SIPs ?s0) HEARTBEAT_PORT ?s0 = Inr (R, s1)" and y: "synchSelectedServer (SIPs s1) R s1 = Inr s'"
    and d: "deliver_all freed rnd (outbox s') (cl, \<lambda>_. []) = Inr (cl', mail)"
    by (auto simp: qum_heartBeat_def bindE_Inr_iff)
  have y': "(if R \<noteq> [] \<or> True then synchSelectedServer (SIPs s1) R s1 else Inr s1) = Inr s'"
    and d': "outbox s' = outbox ?s0 @ outbox s'"
    and i: "inbox ?s0 HEARTBEAT_PORT = mail (local_ip ?s0, HEARTBEAT_PORT) @ []"
    using y by simp_all
  have "agreed as s' cl' \<and> cluster freed s' cl' \<and> local_ip s' = local_ip ?s0"
    using refresh_agreed [OF f y' d d' i refl wf0 ag0 ag(2)] by (simp add: isValidPort_def)
  then show ?thesis by simp
qed

lemma synch_turn:
  assumes turn: "qum_turn freed rnd (qum_listen_step freed rnd (client_msg ''SYNCH'' host p)) s cl s' cl' mail"
    and wf: "cluster freed s cl" and ag: "agreed as s cl" "listed as" and client: "client_ok (local_ip s) host p"
  shows "agreed as s' cl' \<and> cluster freed s' cl' \<and> local_ip s' = local_ip s \<and> mail (host, p) = [''Success;1'']"
proof -
  let ?s0 = "s\<lparr>outbox := [], inbox := (\<lambda>p. mail (local_ip s, p))\<rparr>"
  note cl = client_okD [OF client]
  have wf0: "cluster freed ?s0 cl" and ag0: "agreed as ?s0 cl" using wf ag(1) by (simp_all add: turn_start)
  then have "FORWARD_synch host (to_string p) ?s0 = Inr s'"
    using turn listen_client(2) [OF cl(1-3), of ?s0 freed rnd] by (simp add: qum_turn_def cluster_def)
  then obtain R s1 s2 where f: "fetch_newest (SIPs ?s0) REQUESTPORT ?s0 = Inr (R, s1)"
    and y: "(if R \<noteq> [] \<or> False then synchSelectedServer (SIPs s1) R s1 else Inr s1) = Inr s2"
    and s': "s' = UDP_send host p ''Success;1'' s2"
    unfolding FORWARD_synch_def using stoi_to_string [OF host_fields(4) [OF cl(1-3)]]
    by (auto simp only: bindE_Inr_iff prod.case sum.inject simp_thms)
  have "list_all article_clean (articles ?s0)" "CHR 0x00 \<notin> set (local_ip ?s0)"
    using ag wf listed_clean by (auto simp: agreed_def cluster_def)
  then obtain out where out: "outbox s2 = outbox ?s0 @ out"
    using refresh_out [OF f y] by (auto simp: isValidPort_def)
  have nul: "CHR 0x00 \<notin> set ''Success;1''" by simp
  have "outbox s' = out @ [(host, p mod 65536, cstr ''Success;1'')]" using s' out by (simp add: UDP_send_def)
  then obtain cl2 mail2 where d2: "deliver_all freed rnd out (cl, \<lambda>_. []) = Inr (cl2, mail2)"
    and F: "cl' = cl2" "mail = mail2((host, p) := mail2 (host, p) @ [''Success;1''])"
    using turn deliver_client [OF client nul, of freed rnd] by (auto simp: qum_turn_def deliver_all_append bindE_Inr_iff)
  have "(host, p) \<noteq> (local_ip s, REQUESTPORT)" using cl(5) by (auto simp: reply_keys_def)
  then have "inbox ?s0 REQUESTPORT = mail2 (local_ip ?s0, REQUESTPORT) @ []" using F(2) by auto
  from refresh_agreed [OF f y d2 out this refl wf0 ag0 ag(2)]
  have r: "agreed as s2 cl2" "cluster freed s2 cl2" "local_ip s2 = local_ip s" "mail2 (host, p) = []"
    using cl(5) by (auto simp: isValidPort_def reply_keys_def)
  then show ?thesis using F by (simp add: s' turn_start) (simp add: UDP_send_def)
qed

lemma read_turn:
  assumes turn: "qum_turn freed rnd (qum_listen_step freed rnd (client_msg ''READ'' host p)) s cl s' cl' mail"
    and wf: "cluster freed s cl" and ag: "agreed as s cl" "listed as" and client: "client_ok (local_ip s) host p"
  shows "agreed as s' cl' \<and> cluster freed s' cl' \<and> local_ip s' = local_ip s \<and> mail (host, p) = [article_message as]"
proof -
  let ?s0 = "s\<lparr>outbox := [], inbox := (\<lambda>p. mail (local_ip s, p))\<rparr>" and ?ip = "local_ip s"
  note cl = client_okD [OF client] and hf = host_fields [OF client_okD(1-3) [OF client]]
  have wf0: "cluster freed ?s0 cl" and ag0: "agreed as ?s0 cl" using wf ag(1) by (simp_all add: turn_start)
  then have "FORWARD_read freed rnd host (to_string p) ?s0 = Inr s'"
    using turn listen_client(1) [OF cl(1-3), of ?s0 freed rnd] by (simp add: qum_turn_def cluster_def)
  then obtain l h s1 where sel: "selectRandomServer freed rnd (qum_N ?s0) (Nr ?s0) (SIPs ?s0) ?s0 = Inr l"
    and n: "getNewestServer l ?s0 = Inr (h, s1)"
    and s': "(if h = checkip s1 then sendArticle host p s1
       else Inr (UDP_send h PRIMARYPORT (''OPERATION_READ;READ;'' @ field host @ to_string p) s1)) = Inr s'"
    unfolding FORWARD_read_def using stoi_to_string [OF hf(4)] by (auto simp only: bindE_Inr_iff prod.case bindE.simps)
  note l = selected_servers [OF wf0 sel]
  have ip: "CHR 0x00 \<notin> set (local_ip ?s0)" using wf by (simp add: cluster_def)
  note v = getNewestServer_sent [OF n ip]
  then have c: "core s1 = core s" and o1: "outbox s1 = map (\<lambda>a. (sa_ip a, PRIMARYPORT, version_msg ?ip)) (others ?ip l)"
    by (auto simp: sent_to_def)
  note cs = core_simps [OF c]
  have clean: "list_all article_clean as" using ag(2) by (rule listed_clean)
  have as: "articles s = as" "sort_key art_ID as = as" using ag sort_listed by (simp_all add: agreed_def)
  have nul: "cstr (read_msg ''READ'' host p) = read_msg ''READ'' host p"
    using qum_open_no_nul [OF word_ok_messages(3,2) cl(2)] by (simp add: read_msg_def)
  have o2: "core s' = core s \<and> outbox s' = outbox s1 @ [if h = ?ip then (host, p, article_message (sort_key art_ID (articles ?s0)))
       else (h, PRIMARYPORT, read_msg ''READ'' host p)]"
  proof (cases "h = ?ip")
    case True
    then have "sendArticle host p s1 = Inr s'" using s' cs by (simp add: checkip_def)
    then show ?thesis using True sendArticle_eq [of s1 host p] clean cs as c hf(6) by (auto simp: core_def)
  next
    case False
    then show ?thesis using s' cs c nul by (auto simp: checkip_def read_msg_def qum_open_def field_def UDP_send_def core_def)
  qed
  have sv: "sa_ip ` set l \<subseteq> insert ?ip (dom cl)" using l wf by (auto simp: cluster_def)
  have held: "held ?s0 cl h = as" if "h \<in> sa_ip ` set l" for h
    using held_agreed [OF ag0, of h] that sv by auto
  have key: "(host, p) \<noteq> (local_ip ?s0, GETNEWVER_PORT)" using cl(5) by (auto simp: reply_keys_def)
  have ld: "distinct (map sa_ip l)" "set l \<subseteq> set (SIPs ?s0)" "h \<in> sa_ip ` set l" using l v by auto
  have "\<forall>h\<in>sa_ip ` set l. list_all article_clean (held ?s0 cl h)" using held clean by simp
  from deliver_fetch [OF wf0 ld this cl(3,4) key cl(1,2) word_ok_messages(2), of rnd "\<lambda>_. []"]
  obtain cl2 mail2 where "deliver_all freed rnd (outbox s') (cl, \<lambda>_. []) = Inr (cl2, mail2)" "dom cl2 = dom cl"
    and m: "mail2 (host, p) = [article_message as]" "arts cl2 = (if h = ?ip then arts cl else (arts cl)(h := Some as))"
    using o1 o2 held [OF ld(3)] as by auto
  then have F: "cl' = cl2" "mail = mail2" "dom cl' = dom cl" using turn by (auto simp: qum_turn_def)
  have "\<forall>ip\<in>dom cl'. arts cl' ip = Some as" using ag(1) F m(2) by (simp add: agreed_arts)
  moreover have "articles s' = as" "cluster freed s' cl'" "local_ip s' = ?ip"
    using core_simps [of s' s] o2 as cluster_cong [of s' s cl' cl freed] wf F(3) by simp_all
  ultimately show ?thesis using F(2) m(1) by (simp add: agreed_arts)
qed

end
