(* ===== verification/QuorumRuns.thy ===== *)
theory QuorumRuns
  imports QuorumBoard
begin

text \<open>
  Runs of the quorum cluster. \<open>post_completes\<close>: in a cluster whose servers agree, the
  coordinator's turn for a post ends. \<open>board\<close>: the clusters that turns lead to, with the
  abstract bulletin board each stands for.
\<close>

section \<open>A post ends\<close>

definition vers_ok :: "qum_server \<Rightarrow> members \<Rightarrow> bool" where
  "vers_ok s cl \<longleftrightarrow> (\<forall>v\<in>insert (VER s) (\<Union>h. set_option (vers cl h)). 0 \<le> v \<and> v < 2 ^ 30)"

lemma vers_okD: "vers_ok s cl \<Longrightarrow> 0 \<le> VER s \<and> VER s < 2 ^ 30" "vers_ok s cl \<Longrightarrow> cl h = Some m \<Longrightarrow> 0 \<le> VER m \<and> VER m < 2 ^ 30"
  by (auto simp: vers_ok_def vers_def)

lemma length_version: "0 \<le> v \<Longrightarrow> v \<le> 2 ^ 30 \<Longrightarrow> length (to_string v) < BB_BUFLEN"
  using length_to_string_int32 [of v] by (simp add: is_int32_def)

text \<open>The answers to the question for the version are there: the newest server is the last of the highest version.\<close>

definition newest_of :: "(string \<Rightarrow> int) \<Rightarrow> SAddr list \<Rightarrow> string" where
  "newest_of ans l = sa_ip (the (snd (last_max 0 None (map (\<lambda>a. (a, ans (sa_ip a))) l))))"

lemma newest_of_in:
  assumes "l \<noteq> []" "\<forall>a\<in>set l. 0 \<le> ans (sa_ip a)"
  shows "newest_of ans l \<in> sa_ip ` set l" "snd (last_max 0 None (map (\<lambda>a. (a, ans (sa_ip a))) l)) \<noteq> None"
proof -
  obtain m b where mb: "last_max 0 None (map (\<lambda>a. (a, ans (sa_ip a))) l) = (m, b)" by fastforce
  obtain x where "x \<in> set l" using assms(1) by (cases l) auto
  with assms(2) have "\<not> (\<forall>b\<in>set l. ans (sa_ip b) < 0)" by force
  then obtain a where "b = Some a" "a \<in> set l" using last_max_spec [OF mb] by auto
  then show "newest_of ans l \<in> sa_ip ` set l" "snd (last_max 0 None (map (\<lambda>a. (a, ans (sa_ip a))) l)) \<noteq> None"
    by (simp_all add: newest_of_def mb)
qed

lemma getNewestServer_ok:
  assumes "inbox s GETNEWVER_PORT = map (\<lambda>a. to_string (ans (sa_ip a))) (others (local_ip s) l)"
    and "\<forall>a\<in>set l. 0 \<le> ans (sa_ip a) \<and> ans (sa_ip a) \<le> 2 ^ 30" "l \<noteq> []" "ans (local_ip s) = VER s"
  shows "\<exists>s'. getNewestServer l s = Inr (newest_of ans l, s')"
proof -
  have r: "zip l (reported (local_ip s) (VER s) ans l) = map (\<lambda>a. (a, ans (sa_ip a))) l" for l
    using assms(4) by (induction l) auto
  let ?c = "''REQUESTVER;READ;'' @ field (checkip s) @ to_string GETNEWVER_PORT"
  have "\<forall>a\<in>set l. is_int32 (ans (sa_ip a))" using assms(2) by (fastforce simp: is_int32_def)
  then obtain s' where n: "newest_loop ?c l 0 None s = Inr (snd (last_max 0 None (map (\<lambda>a. (a, ans (sa_ip a))) l)), s')"
    using newest_loop_eq [of s ans l "[]" ?c 0 None] assms(1) by (auto simp: r others_def)
  then show ?thesis
    using newest_of_in(2) [OF assms(3), of ans] assms(2) by (auto simp: getNewestServer_def Let_def newest_of_def)
qed

text \<open>What the coordinator's datagrams for a post are, and what they bring back.\<close>

definition post_out :: "string \<Rightarrow> string \<Rightarrow> SAddr list \<Rightarrow> SAddr list \<Rightarrow> int \<Rightarrow> string \<Rightarrow> Article list \<Rightarrow> string \<Rightarrow> int \<Rightarrow>
    (string \<times> int \<times> string) list" where
  "post_out ip h l sips pre req as host p =
     map (\<lambda>a. (sa_ip a, PRIMARYPORT, write_msg ip pre req)) (others ip l)
     @ (map (\<lambda>a. (sa_ip a, PRIMARYPORT, version_msg ip)) (others ip l)
        @ [if h = ip then (ip, REQUESTPORT, article_message as) else (h, PRIMARYPORT, read_msg ''SYNCH'' ip REQUESTPORT)])
     @ map (\<lambda>a. (sa_ip a, PRIMARYPORT, synch_msg ip (article_message as))) (others ip sips)
     @ [(host, p mod 65536, cstr ''Success;1'')]"

lemma post_delivered:
  assumes wf: "cluster freed s cl" and ag: "agreed as s cl" "listed as"
    and req: "post_ok as pre req" and client: "client_ok (local_ip s) host p"
    and l: "distinct (map sa_ip l)" "set l \<subseteq> set (SIPs s)" "h \<in> sa_ip ` set l"
  defines "cl1 \<equiv> written_members (local_ip s) l req pre cl"
  defines "H \<equiv> sort_key art_ID (held (written l req pre s) cl1 h)"
  shows "\<exists>cl2 cl' mail. deliver_all freed rnd (post_out (local_ip s) h l (SIPs s) pre req H host p) (cl, \<lambda>_. []) = Inr (cl', mail)
     \<and> mail (local_ip s, WRITESELECT_PORT) = map (\<lambda>a. to_string (VER (the (cl (sa_ip a))) + 1)) (others (local_ip s) l)
     \<and> mail (local_ip s, GETNEWVER_PORT) = map (\<lambda>a. to_string (VER (the (cl1 (sa_ip a))))) (others (local_ip s) l)
     \<and> mail (local_ip s, REQUESTPORT) = [article_message H] \<and> vers cl2 = vers cl1
     \<and> mail (local_ip s, SYNCH_PORT) = map (\<lambda>a. to_string (VER (the (cl2 (sa_ip a))))) (others (local_ip s) (SIPs s))"
proof -
  let ?ip = "local_ip s" and ?s1 = "written l req pre s"
  note post = post_okD [OF req] and cl = client_okD [OF client]
  have ip: "isValidIP ?ip" "CHR 0x00 \<notin> set ?ip" "cl ?ip = None" using wf by (auto simp: cluster_def)
  have lin: "sa_ip ` set l \<subseteq> insert ?ip (dom cl)" using l wf by (auto simp: cluster_def)
  have "distinct (map sa_ip (others ?ip l))" "\<forall>a\<in>set (others ?ip l). cl (sa_ip a) \<noteq> None"
    using l cluster_others [OF wf] by (auto simp: others_def distinct_map_filter)
  from deliver_writes [OF ip(1,2) post(1,3) write_msg_fits [OF ip(1,2) post(3,2)] this, of freed rnd "\<lambda>_. []"]
  obtain mail1 where d1: "deliver_all freed rnd (map (\<lambda>a. (sa_ip a, PRIMARYPORT, write_msg ?ip pre req)) (others ?ip l)) (cl, \<lambda>_. []) = Inr (cl1, mail1)"
    "mail1 (?ip, WRITESELECT_PORT) = map (\<lambda>a. to_string (VER (the (cl (sa_ip a))) + 1)) (others ?ip l)" "\<forall>k. k \<noteq> (?ip, WRITESELECT_PORT) \<longrightarrow> mail1 k = []"
    by (auto simp: cl1_def written_members_def)
  have wf1: "cluster freed ?s1 cl1" using wf by (simp add: cl1_def)
  note wo = written_ok [OF ag ip(3) req lin, of _, folded cl1_def]
  have clean: "\<forall>h\<in>sa_ip ` set l. list_all article_clean (held ?s1 cl1 h)" using wo(1) list_five_fields_clean by blast
  have ld: "distinct (map sa_ip l)" "set l \<subseteq> set (SIPs ?s1)" "h \<in> sa_ip ` set l" using l by simp_all
  have key: "(?ip, REQUESTPORT) \<noteq> (local_ip ?s1, GETNEWVER_PORT)" by simp
  from deliver_fetch [OF wf1 ld clean REQUESTPORT_ok(1,2) key ip(1,2) word_ok_messages(4), of rnd mail1]
  obtain cl2 mail2 where d2: "deliver_all freed rnd (map (\<lambda>a. (sa_ip a, PRIMARYPORT, version_msg ?ip)) (others ?ip l)
        @ [if h = ?ip then (?ip, REQUESTPORT, article_message H) else (h, PRIMARYPORT, read_msg ''SYNCH'' ?ip REQUESTPORT)]) (cl1, mail1) = Inr (cl2, mail2)"
      "dom cl2 = dom cl1" "vers cl2 = vers cl1" "mail2 (?ip, REQUESTPORT) = [article_message H]"
      "mail2 (?ip, GETNEWVER_PORT) = map (\<lambda>a. to_string (VER (the (cl1 (sa_ip a))))) (others ?ip l)"
      "\<forall>k. k \<noteq> (?ip, GETNEWVER_PORT) \<and> k \<noteq> (?ip, REQUESTPORT) \<longrightarrow> mail2 k = mail1 k"
    using d1(3) by (auto simp: H_def held_def cong: if_cong)
  have wf2: "cluster freed s cl2" using wf d2(2) by (simp add: cluster_def cl1_def)
  have hin: "h \<in> insert ?ip (sa_ip ` set l)" using l(3) by simp
  have perm: "mset (map view H) = mset (map view (held ?s1 cl1 h))" by (simp only: H_def mset_map mset_sort)
  have Hok: "list_all five_fields H" "length (article_message H) \<le> 7900"
    using listed_renumber(2) [OF perm wo(1,2) [OF hin]] length_article_message_mset [OF perm] wo(2) [OF hin] by simp_all
  from deliver_synch_all [OF wf2 Hok, of rnd mail2]
  obtain cl3 mail3 where d3: "deliver_all freed rnd (map (\<lambda>a. (sa_ip a, PRIMARYPORT, synch_msg ?ip (article_message H))) (others ?ip (SIPs s))) (cl2, mail2)
      = Inr (cl3, mail3)" "\<forall>k. k \<noteq> (?ip, SYNCH_PORT) \<longrightarrow> mail3 k = mail2 k"
      "mail3 (?ip, SYNCH_PORT) = mail2 (?ip, SYNCH_PORT) @ map (\<lambda>a. to_string (VER (the (cl2 (sa_ip a))))) (others ?ip (SIPs s))"
    by blast
  have nul: "CHR 0x00 \<notin> set ''Success;1''" by simp
  let ?mail = "mail3((host, p) := mail3 (host, p) @ [''Success;1''])"
  have "deliver_all freed rnd (post_out ?ip h l (SIPs s) pre req H host p) (cl, \<lambda>_. []) = Inr (cl3, ?mail)"
    unfolding post_out_def deliver_all_appendI [OF d1(1)] deliver_all_appendI [OF d2(1)] deliver_all_appendI [OF d3(1)]
    using deliver_client [OF client nul, of freed rnd cl3 mail3] by simp
  moreover have "?mail (?ip, q) = mail3 (?ip, q)" if "q \<in> {REQUESTPORT, GETNEWVER_PORT, WRITESELECT_PORT, SYNCH_PORT}" for q
    using cl(5) that by (auto simp: reply_keys_def)
  ultimately show ?thesis
    using d1(2,3) d2(3-6) d3(2,3)
    by - (rule exI [of _ cl2], rule exI [of _ cl3], rule exI [of _ ?mail], simp only: simp_thms insert_iff fun_upd_other, auto)
qed

text \<open>With these answers the coordinator gets through.\<close>

lemma fetch_list:
  assumes n: "getNewestServer l s1 = Inr (h, s1')" and box: "inbox s1 REQUESTPORT = [article_message H]"
    and H: "list_all five_fields H" "length (article_message H) \<le> 7900"
    and clean: "list_all article_clean (articles s1)" "CHR 0x00 \<notin> set (local_ip s1)"
  shows "\<exists>s2. fetch_newest l REQUESTPORT s1 = Inr (article_message H, s2)
     \<and> (\<forall>q. q \<notin> {GETNEWVER_PORT, REQUESTPORT} \<longrightarrow> inbox s2 q = inbox s1 q)
     \<and> core s2 = core (s1\<lparr>articles := (if h = local_ip s1 then sort_key art_ID (articles s1) else articles s1)\<rparr>)
     \<and> outbox s2 = outbox s1 @ map (\<lambda>a. (sa_ip a, PRIMARYPORT, version_msg (local_ip s1))) (others (local_ip s1) l)
       @ [if h = local_ip s1 then (local_ip s1, REQUESTPORT, article_message (sort_key art_ID (articles s1)))
          else (h, PRIMARYPORT, read_msg ''SYNCH'' (local_ip s1) REQUESTPORT)]"
proof -
  note msg = article_message_no_nul [OF list_five_fields_clean [OF H(1)]]
  obtain s2 where f: "fetch_newest l REQUESTPORT s1 = Inr (article_message H, s2)"
    using fetch_newest_ok [OF n clean(2,1), of REQUESTPORT "article_message H" "[]"] box H(2) msg by auto
  from fetch_newest_sent [OF f clean(2) REQUESTPORT_ok(1,3) clean(1)] n show ?thesis using f by auto
qed

lemma post_runs:
  assumes wf: "cluster freed s cl" and ag: "agreed as s cl" "listed as"
    and req: "post_ok as pre req" and client: "client_ok (local_ip s) host p"
    and sel: "selectRandomServer freed rnd (qum_N s) (Nr s) (SIPs s) s = Inr l" "l \<noteq> []"
    and ans: "ans (local_ip s) = VER (written l req pre s)" "\<forall>a\<in>set l. 0 \<le> ans (sa_ip a) \<and> ans (sa_ip a) \<le> 2 ^ 30"
  defines "cl1 \<equiv> written_members (local_ip s) l req pre cl" and "h \<equiv> newest_of ans l"
  defines "H \<equiv> sort_key art_ID (held (written l req pre s) cl1 h)"
  assumes box: "answered s WRITESELECT_PORT l" "inbox s GETNEWVER_PORT = map (\<lambda>a. to_string (ans (sa_ip a))) (others (local_ip s) l)"
    "inbox s REQUESTPORT = [article_message H]" "answered s SYNCH_PORT (SIPs s)"
  shows "\<exists>s'. FORWARD_post freed rnd req host (to_string p) (to_string pre) s = Inr s'
     \<and> outbox s' = outbox s @ post_out (local_ip s) h l (SIPs s) pre req H host p"
proof -
  let ?ip = "local_ip s"
  note post = post_okD [OF req] and cl = client_okD [OF client] 
  have l: "distinct (map sa_ip l)" "set l \<subseteq> set (SIPs s)" using selected_servers [OF wf sel(1)] by simp_all
  have ip: "CHR 0x00 \<notin> set ?ip" "cl ?ip = None" using wf by (auto simp: cluster_def)
  obtain s1 where w: "writeSelectedServer l req pre s = Inr (True, s1)"
    using write_loop_ok [OF box(1), of "''OPERATION_WRITE;WRITE;'' @ field (checkip s) @ field (to_string WRITESELECT_PORT)
        @ field (to_string pre) @ req" req pre] unfolding writeSelectedServer_def Let_def by fastforce
  note pw = post_written [OF w wf ag req l(1,2), folded cl1_def]
  note c1 = pw(2) and e1 = core_simps [OF pw(2), simplified]
  have o1: "outbox s1 = outbox s @ map (\<lambda>a. (sa_ip a, PRIMARYPORT, write_msg ?ip pre req)) (others ?ip l)"
    and i1: "\<forall>p. p \<noteq> WRITESELECT_PORT \<longrightarrow> inbox s1 p = inbox s p"
    using pw(1) by simp_all
  have "inbox s1 GETNEWVER_PORT = map (\<lambda>a. to_string (ans (sa_ip a))) (others (local_ip s1) l)" using i1 box(2) e1 by simp
  from getNewestServer_ok [OF this ans(2) sel(2)] obtain s1' where n: "getNewestServer l s1 = Inr (h, s1')"
    using ans(1) e1 by (auto simp: h_def)
  have hl: "h \<in> sa_ip ` set l" using newest_of_in(1) [OF sel(2), of ans] ans(2) by (simp add: h_def)
  have H: "H = sort_key art_ID (held s1 cl1 h)" using held_core [OF c1] by (simp add: H_def)
  have perm: "mset (map view H) = mset (map view (held s1 cl1 h))" by (simp only: H mset_map mset_sort)
  have heldok: "list_all five_fields (held s1 cl1 h)" "length (article_message (held s1 cl1 h)) \<le> 7900" "held s1 cl1 h \<noteq> []"
    using bspec [OF pw(5) insertI2 [OF hl]] bspec [OF pw(6) hl] by simp_all
  have Hok: "list_all five_fields H" "length (article_message H) \<le> 7900" "H \<noteq> []"
    using listed_renumber(2) [OF perm heldok(1,2)] length_article_message_mset [OF perm] heldok(2,3) arg_cong [OF perm, of size] by auto
  have clean: "list_all article_clean (articles s1)" "CHR 0x00 \<notin> set (local_ip s1)"
    using bspec [OF pw(5) insertI1] list_five_fields_clean ip(1) e1 by (auto simp: held_def)
  have "inbox s1 REQUESTPORT = [article_message H]" using i1 box(3) by simp
  from fetch_list [OF n this Hok(1,2) clean] obtain s2 where f: "fetch_newest l REQUESTPORT s1 = Inr (article_message H, s2)"
    and i2: "\<forall>q. q \<notin> {GETNEWVER_PORT, REQUESTPORT} \<longrightarrow> inbox s2 q = inbox s1 q"
    and c2: "core s2 = core (s1\<lparr>articles := (if h = ?ip then sort_key art_ID (articles s1) else articles s1)\<rparr>)"
    and o2: "outbox s2 = outbox s1 @ map (\<lambda>a. (sa_ip a, PRIMARYPORT, version_msg ?ip)) (others ?ip l)
       @ [if h = ?ip then (?ip, REQUESTPORT, article_message (sort_key art_ID (articles s1)))
          else (h, PRIMARYPORT, read_msg ''SYNCH'' ?ip REQUESTPORT)]"
    unfolding e1(1) by blast
  have h1: "articles s1 = held (written l req pre s) cl1 ?ip" using e1 by (simp add: held_def)
  note e2 = core_simps [OF c2, simplified]
  have "answered s2 SYNCH_PORT (SIPs s2)" using box(4) i2 i1 e1(1,2) e2(1,2) by (simp add: answered_def)
  from synch_loop_ok [OF loadArticle_message [OF Hok(1)] this] obtain s3
    where y: "synchSelectedServer (SIPs s2) (article_message H) s2 = Inr s3" by (auto simp: synchSelectedServer_def Let_def)
  have "cluster freed s2 cl" using wf cluster_cong [of s2 s cl cl freed] e1 e2 by (simp add: written_def writeArticle_core split: if_splits)
  from synchSelectedServer_sent [OF y this Hok(1)] have o3: "outbox s3 = outbox s2
      @ map (\<lambda>a. (sa_ip a, PRIMARYPORT, synch_msg ?ip (article_message H))) (others ?ip (SIPs s))"
    using e1 e2 by simp
  have "article_message H \<noteq> []" using article_message_empty_iff [OF list_five_fields_clean [OF Hok(1)]] Hok(3) by simp
  then have "FORWARD_post freed rnd req host (to_string p) (to_string pre) s = Inr (UDP_send host p ''Success;1'' s3)"
    using sel(1) w f y stoi_to_string [OF host_fields(4) [OF cl(1-3)]] stoi_to_string [OF post(3)] by (simp add: FORWARD_post_def)
  then show ?thesis using o1 o2 o3 h1 by (simp add: post_out_def UDP_send_def H_def cong: if_cong)
qed

definition written_version :: "SAddr list \<Rightarrow> string \<Rightarrow> int \<Rightarrow> qum_server \<Rightarrow> members \<Rightarrow> string \<Rightarrow> int" where
  "written_version l req pre s cl h = (if h = local_ip s then VER (written l req pre s) else VER (the (written_members (local_ip s) l req pre cl h)))"

lemma written_versions:
  assumes "vers_ok s cl" "h \<in> insert (local_ip s) (dom cl)"
  shows "0 \<le> written_version l req pre s cl h \<and> written_version l req pre s cl h \<le> 2 ^ 30"
proof (cases "h = local_ip s")
  case True
  then show ?thesis using vers_okD(1) [OF assms(1)] by (auto simp: written_version_def written_def writeArticle_def)
next
  case False
  then obtain m where m: "cl h = Some m" using assms(2) by auto
  then show ?thesis
    using False vers_okD(2) [OF assms(1) m]
    by (auto simp: written_version_def written_members_def update_members_def wrote_def writeArticle_def)
qed

lemma selection_nonempty:
  assumes "cluster freed s cl" "1 \<le> Nr s"
  shows "\<exists>l. selectRandomServer freed rnd (qum_N s) (Nr s) (SIPs s) s = Inr l \<and> l \<noteq> []"
proof -
  let ?n = "length (SIPs s)"
  have n: "SIPs s \<noteq> []" using assms(1) by (auto simp: cluster_def)
  then have "0 < length (take (nat (Nr s)) (qum_shuffle rnd (?n - 1) [0..<?n]))" using assms(2) by simp
  then have ne: "take (nat (Nr s)) (qum_shuffle rnd (?n - 1) [0..<?n]) \<noteq> []" by (rule length_greater_0_conv [THEN iffD1])
  have "selectRandomServer freed rnd (qum_N s) (Nr s) (SIPs s) s =
     Inr (map (\<lambda>k. SIPs s ! k) (take (nat (Nr s)) (qum_shuffle rnd (?n - 1) [0..<?n])))"
    using selectRandomServer_eq [of freed s "Nr s" rnd] assms n by (simp add: cluster_def)
  with ne show ?thesis by (metis map_is_Nil_conv)
qed

text \<open>The quorum that is drawn, which does not depend on the mail.\<close>

lemma quorum_drawn:
  assumes wf: "cluster freed s cl" and "1 \<le> Nr s"
  obtains l where "\<And>box. selectRandomServer freed rnd (qum_N s) (Nr s) (SIPs s) (s\<lparr>outbox := [], inbox := box\<rparr>) = Inr l"
    and "l \<noteq> []" "distinct (map sa_ip l)" "set l \<subseteq> set (SIPs s)" "sa_ip ` set l \<subseteq> insert (local_ip s) (dom cl)"
proof -
  obtain l where sel: "selectRandomServer freed rnd (qum_N s) (Nr s) (SIPs s) s = Inr l" "l \<noteq> []"
    using selection_nonempty [OF assms] by blast
  have "selectRandomServer freed rnd n k IPs (s\<lparr>outbox := [], inbox := box\<rparr>) = selectRandomServer freed rnd n k IPs s" for n k IPs box
    unfolding selectRandomServer_def by simp
  moreover note selected_servers [OF wf sel(1)]
  moreover from this have "sa_ip ` set l \<subseteq> insert (local_ip s) (dom cl)"
    unfolding cluster_servers [OF wf, symmetric] by blast
  ultimately show thesis using that sel by simp
qed

lemma vers_eqD: "vers cl2 = vers cl1 \<Longrightarrow> h \<in> dom cl1 \<Longrightarrow> VER (the (cl2 h)) = VER (the (cl1 h))"
  by (drule fun_cong [of _ _ h]) (auto simp: vers_def)

lemma post_completes:
  assumes wf: "cluster freed s cl" and ag: "agreed as s cl" "listed as"
    and req: "post_ok as pre req" and client: "client_ok (local_ip s) host p" and "1 \<le> Nr s" and v: "vers_ok s cl"
  shows "\<exists>s' cl' mail. qum_turn freed rnd (qum_listen_step freed rnd (post_msg host p pre req)) s cl s' cl' mail"
proof -
  let ?ip = "local_ip s"
  note post = post_okD [OF req] and cl = client_okD [OF client]
  obtain l where sel: "\<And>box. selectRandomServer freed rnd (qum_N s) (Nr s) (SIPs s) (s\<lparr>outbox := [], inbox := box\<rparr>) = Inr l"
    and sel2: "l \<noteq> []" and l: "distinct (map sa_ip l)" "set l \<subseteq> set (SIPs s)" and lin: "sa_ip ` set l \<subseteq> insert ?ip (dom cl)"
    using quorum_drawn [OF wf \<open>1 \<le> Nr s\<close>] by blast
  note sv = cluster_servers [OF wf]
  define cl1 where "cl1 = written_members ?ip l req pre cl"
  define ans where "ans = written_version l req pre s cl"
  have ans: "0 \<le> ans h \<and> ans h \<le> 2 ^ 30" if "h \<in> insert ?ip (dom cl)" for h
    using written_versions [OF v that] by (simp add: ans_def)
  have ansl: "\<forall>a\<in>set l. 0 \<le> ans (sa_ip a) \<and> ans (sa_ip a) \<le> 2 ^ 30" using ans lin by blast
  have hl: "newest_of ans l \<in> sa_ip ` set l" using newest_of_in(1) [OF sel2] ansl by blast
  define H where "H = sort_key art_ID (held (written l req pre s) cl1 (newest_of ans l))"
  obtain cl2 cl' mail where d: "deliver_all freed rnd (post_out ?ip (newest_of ans l) l (SIPs s) pre req H host p) (cl, \<lambda>_. []) = Inr (cl', mail)"
    and m: "mail (?ip, WRITESELECT_PORT) = map (\<lambda>a. to_string (VER (the (cl (sa_ip a))) + 1)) (others ?ip l)"
      "mail (?ip, GETNEWVER_PORT) = map (\<lambda>a. to_string (VER (the (cl1 (sa_ip a))))) (others ?ip l)"
      "mail (?ip, REQUESTPORT) = [article_message H]" "vers cl2 = vers cl1"
      "mail (?ip, SYNCH_PORT) = map (\<lambda>a. to_string (VER (the (cl2 (sa_ip a))))) (others ?ip (SIPs s))"
    using post_delivered [OF wf ag req client l hl, of rnd] unfolding H_def cl1_def by blast
  let ?s = "s\<lparr>outbox := [], inbox := (\<lambda>p. mail (?ip, p))\<rparr>"
  have c: "core (written l req pre ?s) = core (written l req pre s)"
    using core_writeArticle [of ?s s] by (simp add: written_def)
  have v1: "VER (the (cl2 (sa_ip a))) = ans (sa_ip a)" if "a \<in> set (others ?ip (SIPs s))" for a
    using vers_eqD [OF m(4), of "sa_ip a"] that sv by (auto simp: others_def cl1_def ans_def written_version_def)
  have "0 \<le> VER (the (cl (sa_ip a))) + 1 \<and> VER (the (cl (sa_ip a))) + 1 \<le> 2 ^ 30" if "a \<in> set (others ?ip l)" for a
    using vers_okD(2) [OF v] cluster_others [OF wf l(2) that] by fastforce
  then have b1: "answered ?s WRITESELECT_PORT l" using m(1) length_version by (auto simp: answered_def)
  have b2: "inbox ?s GETNEWVER_PORT = map (\<lambda>a. to_string (ans (sa_ip a))) (others (local_ip ?s) l)"
    using m(2) by (auto simp: ans_def written_version_def cl1_def others_def)
  have "length (to_string (ans (sa_ip a))) < BB_BUFLEN" if "a \<in> set (others ?ip (SIPs s))" for a
    using that sv ans [of "sa_ip a"] length_version by (auto simp: others_def)
  then have b4: "answered ?s SYNCH_PORT (SIPs ?s)" using m(5) v1 by (auto simp: answered_def)
  have H': "sort_key art_ID (held (written l req pre ?s) (written_members (local_ip ?s) l req pre cl) (newest_of ans l)) = H"
    using held_core [OF c] by (simp add: H_def cl1_def)
  then have b3: "inbox ?s REQUESTPORT = [article_message (sort_key art_ID (held (written l req pre ?s) (written_members (local_ip ?s) l req pre cl) (newest_of ans l)))]"
    using m(3) by simp
  have st: "cluster freed ?s cl" "agreed as ?s cl" "client_ok (local_ip ?s) host p" using wf ag(1) client by (simp_all add: turn_start)
  have sel': "selectRandomServer freed rnd (qum_N ?s) (Nr ?s) (SIPs ?s) ?s = Inr l" using sel by simp
  have a: "ans (local_ip ?s) = VER (written l req pre ?s)" using core_simps(4) [OF c] by (simp add: ans_def written_version_def)
  from post_runs [OF st(1,2) ag(2) req st(3) sel' sel2 a ansl b1 b2 b3 b4, unfolded H']
  obtain s' where r: "FORWARD_post freed rnd req host (to_string p) (to_string pre) ?s = Inr s'"
    "outbox s' = post_out ?ip (newest_of ans l) l (SIPs s) pre req H host p"
    by auto
  have "qum_listen_step freed rnd (post_msg host p pre req) ?s = Inr s'"
    using r(1) listen_post_msg [OF cl(1-3) post, of ?s freed rnd] wf by (simp add: cluster_def)
  then have "qum_turn freed rnd (qum_listen_step freed rnd (post_msg host p pre req)) s cl s' cl' mail"
    using d r(2) by (simp add: qum_turn_def)
  then show ?thesis by blast
qed

text \<open>A read ends as well.\<close>

lemma read_runs:
  assumes sel: "selectRandomServer freed rnd (qum_N s) (Nr s) (SIPs s) s = Inr l" and n: "getNewestServer l s = Inr (h, s1)"
    and ip: "CHR 0x00 \<notin> set (local_ip s)" and clean: "list_all article_clean (articles s)" and client: "client_ok (local_ip s) host p"
  shows "\<exists>s'. FORWARD_read freed rnd host (to_string p) s = Inr s'
     \<and> outbox s' = outbox s @ map (\<lambda>a. (sa_ip a, PRIMARYPORT, version_msg (local_ip s))) (others (local_ip s) l)
        @ [if h = local_ip s then (host, p, article_message (sort_key art_ID (articles s))) else (h, PRIMARYPORT, read_msg ''READ'' host p)]"
proof -
  note cl = client_okD [OF client] and hf = host_fields [OF client_okD(1-3) [OF client]]
  from getNewestServer_sent [OF n ip] have c: "core s1 = core s"
    and o1: "outbox s1 = outbox s @ map (\<lambda>a. (sa_ip a, PRIMARYPORT, version_msg (local_ip s))) (others (local_ip s) l)"
    by (auto simp: sent_to_def)
  note cs = core_simps [OF c]
  have nul: "cstr (read_msg ''READ'' host p) = read_msg ''READ'' host p"
    using qum_open_no_nul [OF word_ok_messages(3,2) cl(2)] by (simp add: read_msg_def)
  have "list_all article_clean (articles s1)" using clean cs(3) by simp
  then obtain s' where s': "(if h = checkip s1 then sendArticle host p s1
       else Inr (UDP_send h PRIMARYPORT (''OPERATION_READ;READ;'' @ field host @ to_string p) s1)) = Inr s'"
    "outbox s' = outbox s1 @ [if h = local_ip s then (host, p, article_message (sort_key art_ID (articles s))) else (h, PRIMARYPORT, read_msg ''READ'' host p)]"
    using sendArticle_eq [of s1 host p] cs hf(6) nul
    by (cases "h = local_ip s") (auto simp: checkip_def UDP_send_def read_msg_def qum_open_def field_def)
  have "FORWARD_read freed rnd host (to_string p) s = Inr s'"
    using sel n s'(1) stoi_to_string [OF hf(4)] by (cases "h = checkip s1") (simp_all add: FORWARD_read_def)
  then show ?thesis using s'(2) o1 by simp
qed

lemma read_completes:
  assumes wf: "cluster freed s cl" and ag: "agreed as s cl" "listed as"
    and client: "client_ok (local_ip s) host p" and "1 \<le> Nr s" and v: "vers_ok s cl"
  shows "\<exists>s' cl' mail. qum_turn freed rnd (qum_listen_step freed rnd (client_msg ''READ'' host p)) s cl s' cl' mail"
proof -
  let ?ip = "local_ip s"
  note cl = client_okD [OF client]
  obtain l where sel: "\<And>box. selectRandomServer freed rnd (qum_N s) (Nr s) (SIPs s) (s\<lparr>outbox := [], inbox := box\<rparr>) = Inr l"
    and sel2: "l \<noteq> []" and l: "distinct (map sa_ip l)" "set l \<subseteq> set (SIPs s)" and lin: "sa_ip ` set l \<subseteq> insert ?ip (dom cl)"
    using quorum_drawn [OF wf \<open>1 \<le> Nr s\<close>] by blast
  define ans where "ans = (\<lambda>h. if h = ?ip then VER s else VER (the (cl h)))"
  have "0 \<le> ans h \<and> ans h \<le> 2 ^ 30" if "h \<in> insert ?ip (dom cl)" for h
    using vers_okD [OF v] that by (fastforce simp: ans_def)
  then have ansl: "\<forall>a\<in>set l. 0 \<le> ans (sa_ip a) \<and> ans (sa_ip a) \<le> 2 ^ 30" using lin by blast
  define h where "h = newest_of ans l"
  have ld: "distinct (map sa_ip l)" "set l \<subseteq> set (SIPs s)" "h \<in> sa_ip ` set l"
    using l newest_of_in(1) [OF sel2, of ans] ansl by (simp_all add: h_def)
  have clean: "list_all article_clean as" using ag(2) by (rule listed_clean)
  have hc: "\<forall>h\<in>sa_ip ` set l. list_all article_clean (held s cl h)"
  proof
    fix h assume "h \<in> sa_ip ` set l"
    then have "h \<in> insert ?ip (dom cl)" using lin by (rule subsetD [rotated])
    from held_agreed [OF ag(1) this] show "list_all article_clean (held s cl h)" using clean by (simp only:)
  qed
  have key: "(host, p) \<noteq> (?ip, GETNEWVER_PORT)" using cl(5) by (auto simp: reply_keys_def)
  from deliver_fetch [OF wf ld hc cl(3,4) key cl(1,2) word_ok_messages(2), of rnd "\<lambda>_. []"]
  obtain cl' mail where d: "deliver_all freed rnd (map (\<lambda>a. (sa_ip a, PRIMARYPORT, version_msg ?ip)) (others ?ip l)
        @ [if h = ?ip then (host, p, article_message (sort_key art_ID (articles s))) else (h, PRIMARYPORT, read_msg ''READ'' host p)]) (cl, \<lambda>_. []) = Inr (cl', mail)"
    and m: "mail (?ip, GETNEWVER_PORT) = map (\<lambda>a. to_string (VER (the (cl (sa_ip a))))) (others ?ip l)"
    by auto
  let ?s = "s\<lparr>outbox := [], inbox := (\<lambda>p. mail (?ip, p))\<rparr>"
  have box: "inbox ?s GETNEWVER_PORT = map (\<lambda>a. to_string (ans (sa_ip a))) (others (local_ip ?s) l)"
    using m by (auto simp: ans_def others_def)
  have "ans (local_ip ?s) = VER ?s" by (simp add: ans_def)
  from getNewestServer_ok [OF box ansl sel2 this] obtain s1 where n: "getNewestServer l ?s = Inr (h, s1)" by (auto simp: h_def)
  have ipn: "CHR 0x00 \<notin> set (local_ip ?s)" using wf by (simp add: cluster_def)
  have sel': "selectRandomServer freed rnd (qum_N ?s) (Nr ?s) (SIPs ?s) ?s = Inr l" using sel by simp
  have cs: "list_all article_clean (articles ?s)" using clean ag(1) by (simp add: agreed_def)
  have "client_ok (local_ip ?s) host p" using client by simp
  from read_runs [OF sel' n ipn cs this] obtain s' where "FORWARD_read freed rnd host (to_string p) ?s = Inr s'"
    "outbox s' = map (\<lambda>a. (sa_ip a, PRIMARYPORT, version_msg ?ip)) (others ?ip l)
        @ [if h = ?ip then (host, p, article_message (sort_key art_ID (articles s))) else (h, PRIMARYPORT, read_msg ''READ'' host p)]"
    by auto
  then have "qum_turn freed rnd (qum_listen_step freed rnd (client_msg ''READ'' host p)) s cl s' cl' mail"
    using d listen_client(1) [OF cl(1-3), of ?s freed rnd] wf by (simp add: qum_turn_def cluster_def)
  then show ?thesis by blast
qed

section \<open>The bulletin board the cluster stands for\<close>

text \<open>The bytes the articles take in a datagram.\<close>

definition board_size :: "(string list \<times> 32 word) multiset \<Rightarrow> nat" where
  "board_size M = (\<Sum>(c, h)\<in>#M. length (hd c) + length (to_string (uint h)) + 2)"

definition post_fits :: "(string list \<times> 32 word) multiset \<Rightarrow> int \<Rightarrow> string \<Rightarrow> bool" where
  "post_fits M pre req \<longleftrightarrow> is_int32 pre \<and> pre \<noteq> - 2 \<and> five_fields (post_article pre req)
     \<and> board_size (add_mset (view (post_article pre req)) M) \<le> 7900"

lemma length_article_message: "length (article_message as) \<le> board_size (mset (map view as))"
proof -
  have "length (article_message as) \<le> sum_list (map length (map article_text as)) + length as"
    by (simp add: article_message_def length_join_fields)
  also have "\<dots> = board_size (mset (map view as))"
    by (induction as) (simp_all add: board_size_def article_text_view view_def)
  finally show ?thesis .
qed

lemma post_fits_ok: "post_fits M pre req \<Longrightarrow> M = mset (map view as) \<Longrightarrow> post_ok as pre req"
  using length_article_message [of "as @ [post_article pre req]"] by (simp add: post_fits_def post_ok_def)

inductive board :: "(SAddr list \<Rightarrow> nat \<Rightarrow> SAddr) \<Rightarrow> (string list \<times> 32 word) multiset \<Rightarrow> qum_server \<Rightarrow> members \<Rightarrow> bool"
  for freed where
  start: "cluster freed s cl \<Longrightarrow> agreed [] s cl \<Longrightarrow> board freed {#} s cl"
| post: "board freed M s cl \<Longrightarrow> post_fits M pre req \<Longrightarrow> client_ok (local_ip s) host p \<Longrightarrow>
    qum_turn freed rnd (qum_listen_step freed rnd (post_msg host p pre req)) s cl s' cl' mail \<Longrightarrow>
    board freed (add_mset (view (post_article pre req)) M) s' cl'"
| read: "board freed M s cl \<Longrightarrow> client_ok (local_ip s) host p \<Longrightarrow>
    qum_turn freed rnd (qum_listen_step freed rnd (client_msg ''READ'' host p)) s cl s' cl' mail \<Longrightarrow> board freed M s' cl'"
| synch: "board freed M s cl \<Longrightarrow> client_ok (local_ip s) host p \<Longrightarrow>
    qum_turn freed rnd (qum_listen_step freed rnd (client_msg ''SYNCH'' host p)) s cl s' cl' mail \<Longrightarrow> board freed M s' cl'"
| heartbeat: "board freed M s cl \<Longrightarrow> qum_turn freed rnd qum_heartBeat s cl s' cl' mail \<Longrightarrow> board freed M s' cl'"

lemma board_agreed:
  assumes "board freed M s cl"
  shows "cluster freed s cl \<and> (\<exists>as. agreed as s cl \<and> listed as \<and> mset (map view as) = M)"
  using assms
proof (induction rule: board.induct)
  case (start s cl)
  have "listed []" by (simp add: listed_def article_message_def)
  with start show ?case by auto
next
  case (post M s cl pre req host p rnd s' cl' mail)
  then obtain as where as: "agreed as s cl" "listed as" "mset (map view as) = M" by blast
  from post_turn [OF post.hyps(4) _ as(1,2) post_fits_ok [OF post.hyps(2)] post.hyps(3)] as(3) post.IH show ?case by auto
next
  case (read M s cl host p rnd s' cl' mail)
  then show ?case using read_turn [OF read.hyps(3)] by blast
next
  case (synch M s cl host p rnd s' cl' mail)
  then show ?case using synch_turn [OF synch.hyps(3)] by blast
next
  case (heartbeat M s cl rnd s' cl' mail)
  then show ?case using heartbeat_turn [OF heartbeat.hyps(2)] by blast
qed

text \<open>
  C3: the quorum cluster is the abstract bulletin board: after any sequence of posts, reads,
  synchronisations and heartbeats that the coordinator completed one after the other, every
  server holds the same list, in which each post that was made occurs exactly as often as it
  was made, with its level, and nothing else; the articles are numbered from 1.
\<close>

theorem quorum_board:
  assumes "board freed M s cl"
  shows "\<exists>as. articles s = as \<and> (\<forall>ip\<in>dom cl. arts cl ip = Some as) \<and> mset (map view as) = M
     \<and> map art_ID as = map (\<lambda>k. word_of_int (1 + int k)) [0..<length as]"
proof -
  obtain as where as: "agreed as s cl" "listed as" "mset (map view as) = M" using board_agreed [OF assms] by blast
  then have "map art_ID as = map (\<lambda>k. word_of_int (1 + int k)) [0..<length as]"
    using map_art_ID_renumber [of as 0] by (simp add: listed_def)
  with as show ?thesis by (simp add: agreed_arts)
qed

text \<open>
  C4: a read of such a cluster ends when no datagram is lost, and every read that ends
  sends the client all posts, each as often as it was made, whichever quorum \<open>rand()\<close> picks
  and whichever server of it is the newest.
\<close>

theorem quorum_read_sees_all:
  fixes rnd :: "nat \<Rightarrow> nat"
  assumes "board freed M s cl" "client_ok (local_ip s) host p"
  defines "read \<equiv> qum_turn freed rnd (qum_listen_step freed rnd (client_msg ''READ'' host p)) s cl"
  shows "(1 \<le> Nr s \<and> vers_ok s cl \<longrightarrow> (\<exists>s' cl' mail. read s' cl' mail))
     \<and> (\<forall>s' cl' mail. read s' cl' mail \<longrightarrow> (\<exists>as. mail (host, p) = [article_message as] \<and> mset (map view as) = M))"
proof -
  obtain as where as: "cluster freed s cl" "agreed as s cl" "listed as" "mset (map view as) = M" using board_agreed [OF assms(1)] by blast
  with read_completes [OF as(1-3) assms(2)] read_turn [OF _ as(1-3) assms(2)] show ?thesis unfolding read_def by blast
qed


section \<open>A cluster of three servers\<close>

definition quorum_member :: "string \<Rightarrow> qum_server" where
  "quorum_member ip = (qum_sample three_servers 2 2)\<lparr>local_ip := ip, IsCoordinator := False\<rparr>"

definition quorum_members :: members where
  "quorum_members = [''10.0.0.2'' \<mapsto> quorum_member ''10.0.0.2'', ''10.0.0.3'' \<mapsto> quorum_member ''10.0.0.3'']"

lemma sample_cluster:
  "cluster (\<lambda>l k. l ! k) (qum_sample three_servers 2 2) quorum_members"
  "agreed [] (qum_sample three_servers 2 2) quorum_members" "vers_ok (qum_sample three_servers 2 2) quorum_members"
proof -
  have "isValidIP ''10.0.0.1''" by code_simp
  then show "cluster (\<lambda>l k. l ! k) (qum_sample three_servers 2 2) quorum_members"
    by (auto simp: cluster_def qum_sample_def three_servers_def quorum_members_def freed_intact_def)
  show "agreed [] (qum_sample three_servers 2 2) quorum_members" "vers_ok (qum_sample three_servers 2 2) quorum_members"
    by (auto simp: agreed_def vers_ok_def vers_def qum_sample_def quorum_members_def quorum_member_def split: if_splits)
qed

lemma sample_post:
  "post_fits {#} (- 1) ''1;T;A;now;text''" "client_ok ''10.0.0.1'' ''10.0.0.9'' 5106"
proof -
  have "five_fields (post_article (- 1) ''1;T;A;now;text'')"
    by (rule five_fieldsI [of "''1''" "''T''" "''A''" "''now''" "''text''"]) (simp_all add: post_article_def word_ok_def)
  moreover have "length (to_string 0) = 1" by code_simp
  ultimately show "post_fits {#} (- 1) ''1;T;A;now;text''"
    by (simp add: post_fits_def board_size_def view_def post_article_def is_int32_def)
  have "isValidIP ''10.0.0.9''" by code_simp
  then show "client_ok ''10.0.0.1'' ''10.0.0.9'' 5106" by (simp add: client_ok_def isValidPort_def)
qed

lemma sample_board: "board (\<lambda>l k. l ! k) {#} (qum_sample three_servers 2 2) quorum_members"
  using sample_cluster by (intro board.start)


lemma quorum_board_witness:
  "\<exists>s cl as. board (\<lambda>l k. l ! k) {#([''1;T;A;now;text''], 0)#} s cl \<and> articles s = as \<and> map view as = [([''1;T;A;now;text''], 0)]"
proof -
  have c: "client_ok (local_ip (qum_sample three_servers 2 2)) ''10.0.0.9'' 5106" "1 \<le> Nr (qum_sample three_servers 2 2)"
    using sample_post(2) by (simp_all add: qum_sample_def)
  have l: "listed []" by (simp add: listed_def article_message_def)
  have "post_ok [] (- 1) ''1;T;A;now;text''" by (rule post_fits_ok [OF sample_post(1)]) simp
  from post_completes [OF sample_cluster(1,2) l this c sample_cluster(3), of "\<lambda>i. i"]
  obtain s cl mail where "qum_turn (\<lambda>l k. l ! k) (\<lambda>i. i) (qum_listen_step (\<lambda>l k. l ! k) (\<lambda>i. i) (post_msg ''10.0.0.9'' 5106 (- 1) ''1;T;A;now;text''))
     (qum_sample three_servers 2 2) quorum_members s cl mail" by (elim exE) (rule that)
  from board.post [OF sample_board sample_post(1) c(1) this]
  have b: "board (\<lambda>l k. l ! k) {#([''1;T;A;now;text''], 0)#} s cl" by (simp add: view_def post_article_def)
  from quorum_board [OF this] obtain as where "articles s = as" "mset (map view as) = {#([''1;T;A;now;text''], 0)#}"
    by (elim exE conjE) (rule that)
  moreover from this have "map view as = [([''1;T;A;now;text''], 0)]"
    by (simp only: mset_single_iff)
  ultimately show ?thesis using b by (intro exI conjI)
qed

lemma quorum_read_sees_all_witness:
  "\<exists>s' cl' mail. qum_turn (\<lambda>l k. l ! k) (\<lambda>i. i) (qum_listen_step (\<lambda>l k. l ! k) (\<lambda>i. i) (client_msg ''READ'' ''10.0.0.9'' 5106))
     (qum_sample three_servers 2 2) quorum_members s' cl' mail \<and> mail (''10.0.0.9'', 5106) = [[]]"
proof -
  have c: "client_ok (local_ip (qum_sample three_servers 2 2)) ''10.0.0.9'' 5106" "1 \<le> Nr (qum_sample three_servers 2 2)"
    using sample_post(2) by (simp_all add: qum_sample_def)
  note r = quorum_read_sees_all [OF sample_board c(1), of "\<lambda>i. i"]
  from r c(2) sample_cluster(3)
  obtain s' cl' mail where t: "qum_turn (\<lambda>l k. l ! k) (\<lambda>i. i) (qum_listen_step (\<lambda>l k. l ! k) (\<lambda>i. i) (client_msg ''READ'' ''10.0.0.9'' 5106))
     (qum_sample three_servers 2 2) quorum_members s' cl' mail" by blast
  with r obtain as where "mail (''10.0.0.9'', 5106) = [article_message as]" "mset (map view as) = {#}" by blast
  with t show ?thesis by (auto simp: article_message_def)
qed

end
