(* ===== verification/QuorumDraft.thy ===== *)
theory QuorumDraft
  imports QuorumServer
begin

text \<open>
  An earlier version of the quorum protocol, kept in Project2/Server/Server2.cpp and not
  built. It has the state of \<open>qum_server\<close> and the constants of QuorumServer. The theorem
  says why it was replaced: its messages and its listener do not agree on where the
  client's address is, so no request is ever handled.
\<close>

section \<open>Configuration and quorums\<close>

definition draft_init :: "string \<Rightarrow> (int \<Rightarrow> string list) \<Rightarrow> bool \<Rightarrow> string \<Rightarrow> int \<Rightarrow> int \<Rightarrow> qum_server result" where
  "draft_init ip inb Coord buffer ID0 VER0 =
     bindE (Server_init ip inb Coord) (\<lambda>b.
     bindE (Split buffer '';'') (\<lambda>t0.
       let (a, t1) = GetNext t0; (b', t2) = GetNext t1; (c, t3) = GetNext t2 in
       bindE (stoi a) (\<lambda>N. bindE (stoi b') (\<lambda>nr. bindE (stoi c) (\<lambda>nw.
         Inr (bb_server.extend b \<lparr>qum_ID = ID0, VER = VER0, qum_N = N, Nr = nr, Nw = nw\<rparr>))))))"

fun draft_select_loop :: "(SAddr list \<Rightarrow> nat \<Rightarrow> SAddr) \<Rightarrow> SAddr list \<Rightarrow> nat list \<Rightarrow> nat \<Rightarrow> SAddr list result" where
  "draft_select_loop freed IPs [] n = (if n = 0 then Inr [] else Inl OutOfBounds)"
| "draft_select_loop freed IPs (q # quorum) n =
     (if n = 0 then Inr []
      else bindE (findServerByIndex freed q IPs) (\<lambda>current.
             bindE (draft_select_loop freed IPs quorum (n - 1)) (\<lambda>r. Inr (current # r))))"

definition draft_selectRandomServer ::
  "(SAddr list \<Rightarrow> nat \<Rightarrow> SAddr) \<Rightarrow> (nat \<Rightarrow> nat) \<Rightarrow> int \<Rightarrow> int \<Rightarrow> SAddr list \<Rightarrow> SAddr list result" where
  "draft_selectRandomServer freed rnd n select IPs =
     (if n \<le> 0 then Inl OutOfBounds
      else draft_select_loop freed IPs (qum_shuffle rnd (nat (n - 1)) [0..<nat n]) (nat select))"

text \<open>
  The loop asks the first server every time, keeps \<open>maxVer\<close> at 0, and leaves \<open>newest\<close>
  without a value (\<open>None\<close>) when no answer is above it. The question has no separators.
\<close>

fun draft_newest_loop :: "string \<Rightarrow> SAddr \<Rightarrow> nat \<Rightarrow> SAddr option \<Rightarrow> qum_server \<Rightarrow> (SAddr option \<times> qum_server) result" where
  "draft_newest_loop command it 0 newest s = Inr (newest, s)"
| "draft_newest_loop command it (Suc n) newest s =
     bindE (ask (sa_ip it) REQUESTPORT command s) (\<lambda>(ReceivedData, s1).
       draft_newest_loop command it n (if atoi ReceivedData > 0 then Some it else newest) s1)"

definition draft_question :: "qum_server \<Rightarrow> string" where
  "draft_question s = ''REQUESTVER'' @ checkip s @ to_string REQUESTPORT"

definition draft_getNewestServer :: "SAddr list \<Rightarrow> qum_server \<Rightarrow> (SAddr \<times> qum_server) result" where
  "draft_getNewestServer serverSelected s =
     (case serverSelected of
        [] \<Rightarrow> Inl OutOfBounds
      | it # _ \<Rightarrow>
          bindE (draft_newest_loop (draft_question s) it (length serverSelected) None s) (\<lambda>(newest, s1).
            case newest of None \<Rightarrow> Inl OutOfBounds | Some a \<Rightarrow> Inr (a, s1)))"

section \<open>Requests\<close>

definition draft_generatePrefix :: "SAddr \<Rightarrow> string \<Rightarrow> string \<Rightarrow> string" where
  "draft_generatePrefix client_addr request TYP =
     TYP @ '';'' @ sa_ip client_addr @ '';'' @ to_string (sa_port client_addr) @ '';'' @ request"

definition draft_Post_handler :: "SAddr \<Rightarrow> string \<Rightarrow> qum_server \<Rightarrow> qum_server" where
  "draft_Post_handler client_addr request s =
     UDP_send (coordinatorIP s) PRIMARYPORT (''FORWARD_QUM;'' @ draft_generatePrefix client_addr request ''POST'') s"

definition draft_Read_handler :: "SAddr \<Rightarrow> qum_server \<Rightarrow> qum_server" where
  "draft_Read_handler client_addr s =
     UDP_send (coordinatorIP s) PRIMARYPORT (''FORWARD_QUM;'' @ draft_generatePrefix client_addr [] ''READ'') s"

definition draft_Choose_handler :: "SAddr \<Rightarrow> string \<Rightarrow> qum_server \<Rightarrow> qum_server" where
  "draft_Choose_handler client_addr request s = s"

definition draft_Reply_handler :: "SAddr \<Rightarrow> string \<Rightarrow> qum_server \<Rightarrow> qum_server" where
  "draft_Reply_handler client_addr request s =
     UDP_send (coordinatorIP s) PRIMARYPORT (''FORWARD_QUM;'' @ draft_generatePrefix client_addr [] ''REPLY'') s"

definition draft_FORWARD_handler ::
  "(SAddr list \<Rightarrow> nat \<Rightarrow> SAddr) \<Rightarrow> (nat \<Rightarrow> nat) \<Rightarrow> string \<Rightarrow> qum_server \<Rightarrow> qum_server result" where
  "draft_FORWARD_handler freed rnd request s =
     bindE (Split request '';'') (\<lambda>t0.
       let (command, t1) = GetNext t0 in
       if strcaseeq command ''READ'' then
         bindE (draft_selectRandomServer freed rnd (qum_N s) (Nr s) (SIPs s)) (\<lambda>serverList.
         bindE (draft_getNewestServer serverList s) (\<lambda>(newest, s1).
           let (clienthost, t2) = GetNext t1; (clientport, t3) = GetNext t2
           in Inr (UDP_send (sa_ip newest) PRIMARYPORT (''OPERATION_READ'' @ clienthost @ clientport) s1)))
       else Inr s)"

definition draft_listen_step ::
  "(SAddr list \<Rightarrow> nat \<Rightarrow> SAddr) \<Rightarrow> (nat \<Rightarrow> nat) \<Rightarrow> string \<Rightarrow> qum_server \<Rightarrow> qum_server result" where
  "draft_listen_step freed rnd datagram s =
     (let ReceivedData = cstr (take BB_BUFLEN datagram) in
      bindE (Split ReceivedData '';'') (\<lambda>t0.
        let (strCommand, t1) = GetNext t0; (strIPAddress, t2) = GetNext t1; (strPort, t3) = GetNext t2;
            nPort = atoi strPort
        in if isValidIP strIPAddress \<and> isValidPort nPort then
             (if IsCoordinator s \<and> strcaseeq strCommand ''FORWARD_QUM'' then draft_FORWARD_handler freed rnd ReceivedData s
              else if IsCoordinator s \<and> strcaseeq strCommand ''RECEIVEVER'' then Inr s
              else if strcaseeq strCommand ''REQUESTVER'' then Inr (UDP_send strIPAddress nPort (to_string (VER s)) s)
              else if strcaseeq strCommand ''OPERATION_READ'' then sendArticle strIPAddress nPort s
              else Inr s)
           else Inr s))"

section \<open>Why nothing is ever answered\<close>

lemma draft_listen_tokens:
  "draft_listen_step freed rnd d s =
     (let R = cstr (take BB_BUFLEN d); ts = tokens '';'' R; ip = tok_at ts (Suc 0); p = atoi (tok_at ts (Suc (Suc 0)))
      in if isValidIP ip \<and> isValidPort p then
           (if IsCoordinator s \<and> strcaseeq (tok_at ts 0) ''FORWARD_QUM'' then draft_FORWARD_handler freed rnd R s
            else if IsCoordinator s \<and> strcaseeq (tok_at ts 0) ''RECEIVEVER'' then Inr s
            else if strcaseeq (tok_at ts 0) ''REQUESTVER'' then Inr (UDP_send ip p (to_string (VER s)) s)
            else if strcaseeq (tok_at ts 0) ''OPERATION_READ'' then sendArticle ip p s
            else Inr s)
         else Inr s)"
  by (simp only: draft_listen_step_def Let_def Split_tz bindE.simps GetNext_tz prod.case)

lemma cstr_prefix: "CHR 0x00 \<notin> set p \<Longrightarrow> length p \<le> n \<Longrightarrow> \<exists>y. cstr (take n (cstr (p @ x))) = p @ y"
proof -
  assume p: "CHR 0x00 \<notin> set p" "length p \<le> n"
  have "cstr (p @ z) = p @ cstr z" for z unfolding cstr_def by (rule takeWhile_append2) (use p(1) in auto)
  then show "\<exists>y. cstr (take n (cstr (p @ x))) = p @ y" using p(2) by simp
qed

lemma draft_forwarded:
  assumes "T \<in> {''POST'', ''READ'', ''REPLY''}"
  shows "draft_listen_step freed rnd (cstr (''FORWARD_QUM;'' @ draft_generatePrefix a r T)) s = Inr s"
proof -
  let ?x = "sa_ip a @ '';'' @ to_string (sa_port a) @ '';'' @ r"
  have d: "''FORWARD_QUM;'' @ draft_generatePrefix a r T = (''FORWARD_QUM;'' @ T @ '';'') @ ?x"
    by (simp add: draft_generatePrefix_def)
  have p: "CHR 0x00 \<notin> set (''FORWARD_QUM;'' @ T @ '';'')" "length (''FORWARD_QUM;'' @ T @ '';'') \<le> BB_BUFLEN" using assms by auto
  obtain y where y: "cstr (take BB_BUFLEN (cstr (''FORWARD_QUM;'' @ draft_generatePrefix a r T))) = (''FORWARD_QUM;'' @ T @ '';'') @ y"
    unfolding d using cstr_prefix [OF p] by blast
  have "tokens '';'' ((''FORWARD_QUM;'' @ T @ '';'') @ y) = ''FORWARD_QUM'' # T # tokens '';'' y"
    using assms tokens_field [of "''FORWARD_QUM''" "CHR '';''" "T @ '';'' @ y"] tokens_field [of T "CHR '';''" y] by auto
  then have t: "tok_at (tokens '';'' ((''FORWARD_QUM;'' @ T @ '';'') @ y)) (Suc 0) = T" by (simp add: tok_at_def)
  have "\<not> isValidIP ''POST''" "\<not> isValidIP ''READ''" "\<not> isValidIP ''REPLY''" by code_simp+
  then have "\<not> isValidIP T" using assms by auto
  with t show ?thesis unfolding draft_listen_tokens y Let_def by simp
qed

lemma draft_question_ignored:
  assumes "CHR '';'' \<notin> set ip"
  shows "draft_listen_step freed rnd (cstr (''REQUESTVER'' @ ip @ to_string REQUESTPORT)) s = Inr s"
proof -
  let ?d = "cstr (take BB_BUFLEN (cstr (''REQUESTVER'' @ ip @ to_string REQUESTPORT)))"
  have "CHR '';'' \<notin> set (''REQUESTVER'' @ ip @ to_string REQUESTPORT)" using assms by simp
  moreover have "set ?d \<subseteq> set (''REQUESTVER'' @ ip @ to_string REQUESTPORT)"
    unfolding cstr_def by (auto dest!: set_takeWhileD in_set_takeD)
  ultimately have "CHR '';'' \<notin> set ?d" by blast
  moreover have "?d \<noteq> []" using cstr_prefix [of "''REQUESTVER''" BB_BUFLEN "ip @ to_string REQUESTPORT"] by auto
  ultimately have "tokens '';'' ?d = [?d]" by (simp add: tokens_last)
  moreover have "\<not> isValidIP []" by code_simp
  ultimately show ?thesis unfolding draft_listen_tokens Let_def by (simp add: tok_at_def)
qed

text \<open>
  Nothing is ever answered in the earlier version. The datagrams its handlers forward for a
  post, a read and a reply, and the question for the version, leave every server of that
  version as it is: the listener takes the command's second field, or nothing, for an
  address and drops the datagram.
\<close>

theorem draft_never_answers:
  assumes "CHR '';'' \<notin> set (checkip q)"
  shows "(\<forall>h\<in>{draft_Post_handler a r, draft_Read_handler a, draft_Reply_handler a r}.
      \<exists>d. outbox (h q) = outbox q @ [(coordinatorIP q, PRIMARYPORT, d)] \<and> (\<forall>freed rnd s. draft_listen_step freed rnd d s = Inr s))
    \<and> (\<forall>freed rnd s. draft_listen_step freed rnd (cstr (draft_question q)) s = Inr s)"
  using draft_forwarded draft_question_ignored [OF assms]
  by (auto simp: draft_Post_handler_def draft_Read_handler_def draft_Reply_handler_def UDP_send_def draft_question_def)

lemma draft_never_answers_witness:
  "\<exists>d. outbox (draft_Read_handler \<lparr>sa_ip = ''10.0.0.9'', sa_port = 5106\<rparr> (qum_sample [] 2 2)) = [(''10.0.0.1'', PRIMARYPORT, d)]
     \<and> draft_listen_step (\<lambda>l k. l ! k) (\<lambda>i. i) d (qum_sample [] 2 2) = Inr (qum_sample [] 2 2)"
proof -
  have "CHR '';'' \<notin> set (checkip (qum_sample [] 2 2))" by (simp add: checkip_def qum_sample_def)
  from draft_never_answers [OF this] show ?thesis by (fastforce simp: qum_sample_def)
qed

end
