(* ===== verification/XfsServer.thy ===== *)
theory XfsServer
  imports StringTokenizer
begin

text \<open>
  The xFS tracking server (Project3/Server/server.cpp): the list of clients with their
  files, and the three loops as one step each: UPDATELIST adds a client and its files,
  FIND lists the clients that have a file, HEARTBEAT answers. \<open>UDP_send\<close> of
  Project3/Server/xFs_system.cpp ends the process when \<open>inet_aton\<close> rejects the target;
  \<open>aton\<close> stands for \<open>inet_aton\<close>, which accepts more than dotted quads and is an argument
  of the steps. \<open>xs_out\<close> holds what was sent, in order.
\<close>

section \<open>Data\<close>

record FileInfo =
  fi_name :: string
  fi_checksum :: string

record ClientInfo =
  ci_id :: int
  ci_host :: string
  ci_port :: int
  ci_files :: "FileInfo list"

record xserver =
  clientInfoList :: "ClientInfo list"
  xs_out :: "(string \<times> int \<times> string) list"

abbreviation XFS_BUFLEN :: nat where "XFS_BUFLEN \<equiv> 65536"

text \<open>The constructor copies the name and a NUL into \<open>char[256]\<close>.\<close>

definition FileInfo_new :: "string \<Rightarrow> string \<Rightarrow> FileInfo result" where
  "FileInfo_new name ck =
     (if length name < 256 then Inr \<lparr>fi_name = cstr name, fi_checksum = ck\<rparr> else Inl BufferOverflow)"

definition filecmp :: "string \<Rightarrow> FileInfo \<Rightarrow> bool" where
  "filecmp filename si = (cstr filename = fi_name si)"

definition fileMatch :: "string \<Rightarrow> ClientInfo \<Rightarrow> bool" where
  "fileMatch fname c = (find_iter (filecmp fname) (ci_files c) \<noteq> None)"

section \<open>The loops\<close>

definition xs_send :: "(string \<Rightarrow> bool) \<Rightarrow> string \<Rightarrow> int \<Rightarrow> string \<Rightarrow> xserver \<Rightarrow> xserver result" where
  "xs_send aton target targetport message s =
     (if aton (cstr target) then Inr (s\<lparr>xs_out := xs_out s @ [(target, targetport mod 65536, cstr message)]\<rparr>)
      else Inl (Exit 1))"

fun find_loop :: "string \<Rightarrow> ClientInfo list \<Rightarrow> string \<Rightarrow> string" where
  "find_loop filename [] retrninfo = retrninfo"
| "find_loop filename (it # its) retrninfo =
     find_loop filename its
       (if fileMatch filename it
        then retrninfo @ to_string (ci_id it) @ '';'' @ ci_host it @ '';'' else retrninfo)"

definition FindRes_step :: "(string \<Rightarrow> bool) \<Rightarrow> string \<Rightarrow> xserver \<Rightarrow> xserver result" where
  "FindRes_step aton datagram s =
     bindE (Split (cstr (take XFS_BUFLEN datagram)) '';'') (\<lambda>t0.
       let (strCommand, t1) = GetNext t0;
           (strIPAddress, t2) = GetNext t1;
           (strPort, t3) = GetNext t2;
           nPort = atoi strPort
       in if ''FIND'' = strCommand then
            let (filename, t4) = GetNext t3;
                retrninfo = find_loop filename (clientInfoList s) []
            in xs_send aton strIPAddress nPort
                 (if retrninfo \<noteq> [] then butlast retrninfo else ''EMPTY'') s
          else Inr s)"

fun files_loop :: "string list \<Rightarrow> FileInfo list result" where
  "files_loop [] = Inr []"
| "files_loop [filename] = bindE (FileInfo_new filename []) (\<lambda>f. Inr [f])"
| "files_loop (filename # md5 # ts) =
     bindE (FileInfo_new filename md5) (\<lambda>f. bindE (files_loop ts) (\<lambda>fs. Inr (f # fs)))"

text \<open>
  The client is looked up by ID, address and port; a new one goes to the end. The files
  are added to those it has.
\<close>

definition update_client :: "ClientInfo \<Rightarrow> FileInfo list \<Rightarrow> ClientInfo list \<Rightarrow> ClientInfo list" where
  "update_client clnt fs cs =
     (let it = find_iter (\<lambda>si. ci_id clnt = ci_id si \<and> ci_host clnt = ci_host si \<and> ci_port clnt = ci_port si) cs;
          l = (case it of None \<Rightarrow> cs @ [clnt] | Some _ \<Rightarrow> cs);
          k = (case it of None \<Rightarrow> length cs | Some i \<Rightarrow> i)
      in l[k := (l ! k)\<lparr>ci_files := ci_files (l ! k) @ fs\<rparr>])"

definition RecvList_step :: "(string \<Rightarrow> bool) \<Rightarrow> string \<Rightarrow> xserver \<Rightarrow> xserver result" where
  "RecvList_step aton datagram s =
     bindE (Split (cstr (take XFS_BUFLEN datagram)) '';'') (\<lambda>t0.
       let (strCommand, t1) = GetNext t0;
           (clnt_IPAddress, t2) = GetNext t1;
           (strPort, t3) = GetNext t2;
           clnt_Port = atoi strPort;
           (strID, t4) = GetNext t3;
           clntID = atoi strID
       in if ''UPDATELIST'' = strCommand then
            let clnt = \<lparr>ci_id = clntID, ci_host = clnt_IPAddress, ci_port = clnt_Port, ci_files = []\<rparr>
            in bindE (files_loop (rest_tokens t4)) (\<lambda>fs.
                 xs_send aton clnt_IPAddress clnt_Port ''SUCCESS''
                   (s\<lparr>clientInfoList := update_client clnt fs (clientInfoList s)\<rparr>))
          else Inr s)"

definition Heartbeat_step :: "(string \<Rightarrow> bool) \<Rightarrow> string \<Rightarrow> xserver \<Rightarrow> xserver result" where
  "Heartbeat_step aton datagram s =
     bindE (Split (cstr (take XFS_BUFLEN datagram)) '';'') (\<lambda>t0.
       let (strCommand, t1) = GetNext t0;
           (clnt_IPAddress, t2) = GetNext t1;
           (strPort, t3) = GetNext t2;
           clnt_Port = atoi strPort
       in if ''HEARTBEAT'' = strCommand then xs_send aton clnt_IPAddress clnt_Port ''SUCCESS'' s else Inr s)"

section \<open>Messages of the clients\<close>

text \<open>What the client's \<open>Communicate\<close> and \<open>PackFilelistInfo\<close> build.\<close>

definition update_fields :: "string \<Rightarrow> int \<Rightarrow> int \<Rightarrow> (string \<times> string) list \<Rightarrow> string list" where
  "update_fields ip p ID files =
     [''UPDATELIST'', ip, to_string p, to_string ID] @ concat (map (\<lambda>(f, c). [f, c]) files)"

definition field_ok :: "string \<Rightarrow> bool" where
  "field_ok f \<longleftrightarrow> f \<noteq> [] \<and> CHR '';'' \<notin> set f \<and> CHR 0x00 \<notin> set f"

definition file_ok :: "string \<times> string \<Rightarrow> bool" where
  "file_ok fc \<longleftrightarrow> field_ok (fst fc) \<and> field_ok (snd fc) \<and> length (fst fc) < 256"

definition file_of :: "string \<times> string \<Rightarrow> FileInfo" where
  "file_of fc = \<lparr>fi_name = fst fc, fi_checksum = snd fc\<rparr>"

lemma files_loop_eq:
  "list_all file_ok files \<Longrightarrow> files_loop (concat (map (\<lambda>(f, c). [f, c]) files)) = Inr (map file_of files)"
  by (induction files) (auto simp: file_ok_def field_ok_def FileInfo_new_def file_of_def)

lemma tokens_join_semicolon:
  assumes "list_all field_ok fs"
  shows "tokens '';'' (join_fields (CHR '';'') fs @ '';'') = fs" "tokens '';'' (join_fields (CHR '';'') fs) = fs"
    "CHR 0x00 \<notin> set (join_fields (CHR '';'') fs)"
proof -
  have a: "\<forall>f\<in>set fs. f \<noteq> [] \<and> CHR '';'' \<notin> set f" using assms by (auto simp: list_all_iff field_ok_def)
  show "tokens '';'' (join_fields (CHR '';'') fs @ '';'') = fs"
    using tokens_join_app [OF a, of "[]"] by simp
  show "tokens '';'' (join_fields (CHR '';'') fs) = fs" by (rule tokens_join [OF a])
  show "CHR 0x00 \<notin> set (join_fields (CHR '';'') fs)"
    using assms by (induction fs rule: induct_list012) (auto simp: field_ok_def)
qed

lemma field_ok_to_string [simp]: "field_ok (to_string n)"
  by (simp add: field_ok_def)

definition same_client :: "int \<Rightarrow> string \<Rightarrow> int \<Rightarrow> ClientInfo \<Rightarrow> bool" where
  "same_client ID ip p c \<longleftrightarrow> ci_id c = ID \<and> ci_host c = ip \<and> ci_port c = p"

text \<open>The client list after an update, one client at a time.\<close>

fun add_files :: "int \<Rightarrow> string \<Rightarrow> int \<Rightarrow> FileInfo list \<Rightarrow> ClientInfo list \<Rightarrow> ClientInfo list" where
  "add_files ID ip p fs [] = [\<lparr>ci_id = ID, ci_host = ip, ci_port = p, ci_files = fs\<rparr>]"
| "add_files ID ip p fs (c # cs) =
     (if same_client ID ip p c then c\<lparr>ci_files := ci_files c @ fs\<rparr> # cs else c # add_files ID ip p fs cs)"

lemma add_files_eq:
  "update_client \<lparr>ci_id = ID, ci_host = ip, ci_port = p, ci_files = []\<rparr> fs cs = add_files ID ip p fs cs"
  by (induction cs) (auto simp: update_client_def Let_def same_client_def split: option.splits)

lemma RecvList_step_eq:
  assumes "field_ok ip" "is_int32 p" "is_int32 ID" "list_all file_ok files" "aton ip"
    and "d = join_fields (CHR '';'') (update_fields ip p ID files) \<or> d = join_fields (CHR '';'') (update_fields ip p ID files) @ '';''"
    and "length d \<le> XFS_BUFLEN"
  shows "RecvList_step aton d s =
     Inr (s\<lparr>clientInfoList := add_files ID ip p (map file_of files) (clientInfoList s),
            xs_out := xs_out s @ [(ip, p mod 65536, ''SUCCESS'')]\<rparr>)"
proof -
  have ok: "list_all field_ok (update_fields ip p ID files)"
    using assms(1,4) by (auto simp: update_fields_def list_all_iff file_ok_def field_ok_def)
  have t: "tokens '';'' d = ''UPDATELIST'' # ip # to_string p # to_string ID # concat (map (\<lambda>(f, c). [f, c]) files)"
    using assms(6) tokens_join_semicolon(1,2) [OF ok] by (auto simp: update_fields_def)
  have c: "cstr (take XFS_BUFLEN d) = d"
    using assms(6,7) tokens_join_semicolon(3) [OF ok] by auto
  have ip: "cstr ip = ip" using assms(1) by (simp add: field_ok_def)
  have a: "atoi (to_string p) = p" "atoi (to_string ID) = ID"
    using assms(2,3) by (simp_all add: atoi_to_string)
  show ?thesis
    using assms(5) ip
    by (simp add: RecvList_step_def c t Let_def files_loop_eq [OF assms(4)] a add_files_eq xs_send_def)
qed

lemma find_loop_eq:
  "find_loop filename cs acc =
     acc @ concat (map (\<lambda>c. to_string (ci_id c) @ '';'' @ ci_host c @ '';'') (filter (fileMatch filename) cs))"
  by (induction cs arbitrary: acc) simp_all

section \<open>What the tracker answers\<close>

definition has_file :: "string \<Rightarrow> ClientInfo \<Rightarrow> bool" where
  "has_file name c \<longleftrightarrow> name \<in> fi_name ` set (ci_files c)"

lemma fileMatch_has_file: "CHR 0x00 \<notin> set name \<Longrightarrow> fileMatch name c = has_file name c"
  using find_iter_None [of "filecmp name" "ci_files c"]
  by (auto simp: fileMatch_def filecmp_def has_file_def image_iff)

text \<open>A list of clients the loops may hold: no client twice, hosts that survive as a field.\<close>

abbreviation client_key :: "ClientInfo \<Rightarrow> int \<times> string \<times> int" where
  "client_key c \<equiv> (ci_id c, ci_host c, ci_port c)"

definition client_ok :: "ClientInfo \<Rightarrow> bool" where
  "client_ok c \<longleftrightarrow> field_ok (ci_host c) \<and> is_int32 (ci_id c) \<and> is_int32 (ci_port c)
     \<and> (\<forall>f\<in>set (ci_files c). field_ok (fi_name f) \<and> length (fi_name f) < 256)"

definition tracker_ok :: "xserver \<Rightarrow> bool" where
  "tracker_ok s \<longleftrightarrow> list_all client_ok (clientInfoList s) \<and> distinct (map client_key (clientInfoList s))"

definition answer_fields :: "ClientInfo list \<Rightarrow> string list" where
  "answer_fields cs = concat (map (\<lambda>c. [to_string (ci_id c), ci_host c]) cs)"

lemma join_fields_terminated:
  "concat (map (\<lambda>f. f @ [d]) (f # fs)) = join_fields d (f # fs) @ [d]"
  by (induction fs arbitrary: f) simp_all

lemma answer_fields_text:
  "concat (map (\<lambda>c. to_string (ci_id c) @ '';'' @ ci_host c @ '';'') cs) = concat (map (\<lambda>f. f @ '';'') (answer_fields cs))"
  by (induction cs) (simp_all add: answer_fields_def)

lemma answer_text:
  "cs \<noteq> [] \<Longrightarrow> butlast (concat (map (\<lambda>c. to_string (ci_id c) @ '';'' @ ci_host c @ '';'') cs))
     = join_fields (CHR '';'') (answer_fields cs)"
  by (cases "answer_fields cs")
    (simp_all only: answer_fields_text join_fields_terminated butlast_snoc, auto simp: answer_fields_def neq_Nil_conv)

lemma answer_fields_ok: "list_all client_ok cs \<Longrightarrow> list_all field_ok (answer_fields cs)"
  by (auto simp: answer_fields_def list_all_iff client_ok_def)

definition find_fields :: "string \<Rightarrow> int \<Rightarrow> string \<Rightarrow> string list" where
  "find_fields ip p name = [''FIND'', ip, to_string p, name]"

lemma FindRes_step_eq:
  assumes "field_ok ip" "is_int32 p" "field_ok name" "aton ip" "tracker_ok s"
    and "d = join_fields (CHR '';'') (find_fields ip p name)" "length d \<le> XFS_BUFLEN"
  shows "FindRes_step aton d s = Inr (s\<lparr>xs_out := xs_out s @ [(ip, p mod 65536,
     (let cs = filter (has_file name) (clientInfoList s)
      in if cs = [] then ''EMPTY'' else join_fields (CHR '';'') (answer_fields cs)))]\<rparr>)"
proof -
  have ok: "list_all field_ok (find_fields ip p name)"
    using assms(1,3) by (simp add: find_fields_def field_ok_def)
  have t: "tokens '';'' d = [''FIND'', ip, to_string p, name]"
    using assms(6) tokens_join_semicolon(2) [OF ok] by (simp add: find_fields_def)
  have c: "cstr (take XFS_BUFLEN d) = d" using assms(6,7) tokens_join_semicolon(3) [OF ok] by auto
  have fm: "fileMatch name = has_file name"
    using fileMatch_has_file assms(3) by (auto simp: field_ok_def)
  let ?cs = "filter (has_file name) (clientInfoList s)"
  have csok: "list_all client_ok ?cs" using assms(5) by (auto simp: tracker_ok_def list_all_iff)
  have cj: "cstr (join_fields (CHR '';'') (answer_fields ?cs)) = join_fields (CHR '';'') (answer_fields ?cs)"
    using tokens_join_semicolon(3) [OF answer_fields_ok [OF csok]] by simp
  have a: "atoi (to_string p) = p" using assms(2) by (simp add: atoi_to_string)
  have ip: "cstr ip = ip" using assms(1) by (simp add: field_ok_def)
  have ne: "concat (map (\<lambda>c. to_string (ci_id c) @ '';'' @ ci_host c @ '';'') ?cs) = [] \<longleftrightarrow> ?cs = []"
    by (cases ?cs) auto
  show ?thesis
  proof (cases "?cs = []")
    case True
    then show ?thesis using assms(4) ip
      by (simp add: FindRes_step_def c t Let_def a find_loop_eq fm xs_send_def del: filter_empty_conv empty_filter_conv concat_eq_Nil_conv)
  next
    case False
    then show ?thesis using assms(4) ip answer_text [OF False] ne
      by (simp add: FindRes_step_def c t Let_def a find_loop_eq append_Nil fm xs_send_def cj del: append_Cons concat_eq_Nil_conv)
  qed
qed

definition sample_tracker :: xserver where
  "sample_tracker = \<lparr>clientInfoList =
     [\<lparr>ci_id = 1, ci_host = ''10.0.0.1'', ci_port = 6004, ci_files = [\<lparr>fi_name = ''a.txt'', fi_checksum = ''aa''\<rparr>]\<rparr>,
      \<lparr>ci_id = 2, ci_host = ''10.0.0.2'', ci_port = 6004, ci_files = []\<rparr>,
      \<lparr>ci_id = 3, ci_host = ''10.0.0.3'', ci_port = 6004,
       ci_files = [\<lparr>fi_name = ''b.txt'', fi_checksum = ''bb''\<rparr>, \<lparr>fi_name = ''a.txt'', fi_checksum = ''aa''\<rparr>]\<rparr>],
     xs_out = []\<rparr>"

lemma sample_tracker_ok: "tracker_ok sample_tracker"
  by (simp add: tracker_ok_def sample_tracker_def client_ok_def field_ok_def is_int32_def)

text \<open>
  The answer to FIND. The request of a client for a file name the message can carry is
  answered once, to the client's address and port: \<open>EMPTY\<close> when no client announced
  the file, else a message whose fields are exactly the ID and host of every client that
  did, in the order the clients first announced themselves.
\<close>

theorem xfs_find_complete:
  assumes "field_ok ip" "is_int32 p" "field_ok name" "aton ip" "tracker_ok s"
    and "d = join_fields (CHR '';'') [''FIND'', ip, to_string p, name]" "length d \<le> 65536"
  shows "\<exists>msg. FindRes_step aton d s = Inr (s\<lparr>xs_out := xs_out s @ [(ip, p mod 65536, msg)]\<rparr>)
     \<and> (let cs = filter (has_file name) (clientInfoList s)
        in if cs = [] then msg = ''EMPTY''
           else Split msg '';'' = Inr \<lparr>m_tokenList = concat (map (\<lambda>c. [to_string (ci_id c), ci_host c]) cs), m_index = 0\<rparr>)"
proof -
  let ?cs = "filter (has_file name) (clientInfoList s)"
  have "list_all client_ok ?cs" using assms(5) by (auto simp: tracker_ok_def list_all_iff)
  then have "tokens '';'' (join_fields (CHR '';'') (answer_fields ?cs)) = answer_fields ?cs"
    by (intro tokens_join_semicolon(2) answer_fields_ok)
  then show ?thesis
    using FindRes_step_eq [of ip p name aton s d] assms
    by (intro exI [of _ "if ?cs = [] then ''EMPTY'' else join_fields (CHR '';'') (answer_fields ?cs)"])
      (simp add: find_fields_def Let_def answer_fields_def tz_def)
qed

lemma xfs_find_complete_witness:
  "\<exists>msg. FindRes_step (\<lambda>a. a \<noteq> []) ''FIND;10.0.0.2;6003;a.txt'' sample_tracker
       = Inr (sample_tracker\<lparr>xs_out := [(''10.0.0.2'', 6003, msg)]\<rparr>)
     \<and> Split msg '';'' = Inr \<lparr>m_tokenList = [''1'', ''10.0.0.1'', ''3'', ''10.0.0.3''], m_index = 0\<rparr>"
proof -
  have t: "to_string 6003 = ''6003''" "to_string 1 = ''1''" "to_string 3 = ''3''" by code_simp+
  have f: "filter (has_file ''a.txt'') (clientInfoList sample_tracker)
      = [clientInfoList sample_tracker ! 0, clientInfoList sample_tracker ! 2]"
    by (simp add: sample_tracker_def has_file_def)
  have "field_ok ''10.0.0.2''" "is_int32 6003" "field_ok ''a.txt''"
    "''FIND;10.0.0.2;6003;a.txt'' = join_fields (CHR '';'') [''FIND'', ''10.0.0.2'', to_string 6003, ''a.txt'']"
    by (simp_all add: field_ok_def is_int32_def t)
  from xfs_find_complete [OF this(1-3) _ sample_tracker_ok this(4), of "\<lambda>a. a \<noteq> []"]
  show ?thesis
    by (simp only: Let_def f) (simp add: sample_tracker_def t)
qed

section \<open>What an update does\<close>

lemma files_loop_ok:
  "list_all field_ok ts \<Longrightarrow> files_loop ts = Inr fs \<Longrightarrow> f \<in> set fs \<Longrightarrow> field_ok (fi_name f) \<and> length (fi_name f) < 256"
  by (induction ts arbitrary: fs rule: induct_list012)
    (fastforce simp: FileInfo_new_def result_simps field_ok_def split: if_splits)+

lemma files_loop_fault: "files_loop ts = Inl e \<Longrightarrow> e = BufferOverflow"
  by (induction ts rule: induct_list012) (auto simp: FileInfo_new_def result_simps split: if_splits)

lemma tok_field_ok:
  assumes "CHR 0x00 \<notin> set s"
  shows "list_all field_ok (tokens '';'' s)" "tok_at (tokens '';'' s) k \<noteq> [] \<Longrightarrow> field_ok (tok_at (tokens '';'' s) k)"
proof -
  show *: "list_all field_ok (tokens '';'' s)"
    using assms tokens_nonempty [of _ "CHR '';''" s] by (auto simp: list_all_iff field_ok_def)
  show "tok_at (tokens '';'' s) k \<noteq> [] \<Longrightarrow> field_ok (tok_at (tokens '';'' s) k)"
    using * by (auto simp: tok_at_def list_all_iff)
qed

lemma add_files_keys:
  "map client_key (add_files ID ip p fs cs)
     = (if (ID, ip, p) \<in> client_key ` set cs then map client_key cs else map client_key cs @ [(ID, ip, p)])"
  by (induction cs) (auto simp: same_client_def)

lemma add_files_ok:
  assumes "list_all client_ok cs" "field_ok ip" "is_int32 ID" "is_int32 p"
    and "\<forall>f\<in>set fs. field_ok (fi_name f) \<and> length (fi_name f) < 256"
  shows "list_all client_ok (add_files ID ip p fs cs)"
  using assms by (induction cs) (auto simp: client_ok_def)

lemma add_files_has_file:
  "c \<in> set cs \<Longrightarrow> has_file name c \<Longrightarrow> \<exists>c'\<in>set (add_files ID ip p fs cs). client_key c' = client_key c \<and> has_file name c'"
  by (induction cs) (auto simp: has_file_def)

lemma RecvList_step_cases:
  assumes "RecvList_step aton d s = r"
  obtains "r = Inr s"
  | "r = Inl BufferOverflow"
  | "r = Inl (Exit 1)"
  | ID ip p fs where "aton (cstr ip)" "is_int32 ID" "is_int32 p" "ip \<noteq> [] \<longrightarrow> field_ok ip"
      "\<forall>f\<in>set fs. field_ok (fi_name f) \<and> length (fi_name f) < 256"
      "r = Inr (s\<lparr>clientInfoList := add_files ID ip p fs (clientInfoList s),
                  xs_out := xs_out s @ [(ip, p mod 65536, ''SUCCESS'')]\<rparr>)"
proof -
  define ts where "ts = tokens '';'' (cstr (take XFS_BUFLEN d))"
  have ok: "list_all field_ok ts" "tok_at ts k \<noteq> [] \<Longrightarrow> field_ok (tok_at ts k)" for k
    unfolding ts_def by (auto intro: tok_field_ok)
  have okd: "list_all field_ok (drop k ts)" for k
    using ok(1) by (auto simp: list_all_iff dest: in_set_dropD)
  let ?ip = "tok_at ts (Suc 0)" and ?p = "atoi (tok_at ts (Suc (Suc 0)))" and ?ID = "atoi (tok_at ts (Suc (Suc (Suc 0))))"
  have r: "r = (if ''UPDATELIST'' = tok_at ts 0
      then bindE (files_loop (drop (Suc (Suc (Suc (Suc 0)))) ts)) (\<lambda>fs. xs_send aton ?ip ?p ''SUCCESS''
        (s\<lparr>clientInfoList := add_files ?ID ?ip ?p fs (clientInfoList s)\<rparr>)) else Inr s)"
    unfolding assms [symmetric]
    by (simp only: RecvList_step_def ts_def [symmetric] Split_tz bindE.simps GetNext_tz prod.case rest_tokens_tz Let_def add_files_eq)
  show thesis
  proof (cases "''UPDATELIST'' = tok_at ts 0")
    case False
    then show thesis using r that(1) by simp
  next
    case True
    show thesis
    proof (cases "files_loop (drop (Suc (Suc (Suc (Suc 0)))) ts)")
      case (Inl e)
      then show thesis using r True files_loop_fault [OF Inl] that(2) by simp
    next
      case (Inr fs)
      have r': "r = xs_send aton ?ip ?p ''SUCCESS'' (s\<lparr>clientInfoList := add_files ?ID ?ip ?p fs (clientInfoList s)\<rparr>)"
        using r True Inr by simp
      have f: "\<forall>f\<in>set fs. field_ok (fi_name f) \<and> length (fi_name f) < 256"
        using files_loop_ok [OF okd Inr] by blast
      show thesis
      proof (cases "aton (cstr ?ip)")
        case True
        then show thesis
          using r' f ok(2) by (intro that(4) [of ?ip ?ID ?p fs]) (auto simp: xs_send_def)
      next
        case False
        then show thesis using r' by (intro that(3)) (simp add: xs_send_def)
      qed
    qed
  qed
qed

text \<open>
  The tracker's list under any datagram. When \<open>inet_aton\<close> rejects the empty string, as
  it is documented to, the loop keeps its list well formed with no client twice, ends only
  by an overlong file name or an address it cannot answer, and never forgets a file: a
  client that was found for a name before is found after, whatever its updates announce.
\<close>

theorem xfs_recv_invariant:
  assumes "\<not> aton []" "tracker_ok s"
  shows "case RecvList_step aton d s of
      Inl e \<Rightarrow> e = BufferOverflow \<or> e = Exit 1
    | Inr s' \<Rightarrow> tracker_ok s' \<and>
        (\<forall>c\<in>set (clientInfoList s). has_file name c \<longrightarrow>
          (\<exists>c'\<in>set (clientInfoList s'). client_key c' = client_key c \<and> has_file name c'))"
proof (cases rule: RecvList_step_cases [OF refl, of aton d s])
  case (4 ID ip p fs)
  have "ip \<noteq> []" using 4(1) assms(1) by auto
  then have "tracker_ok (s\<lparr>clientInfoList := add_files ID ip p fs (clientInfoList s), xs_out := x\<rparr>)" for x
    using assms(2) 4(2-5) add_files_ok [of "clientInfoList s" ip ID p fs] add_files_keys [of ID ip p fs "clientInfoList s"]
    by (simp add: tracker_ok_def)
  then show ?thesis
    using add_files_has_file [of _ "clientInfoList s" name ID ip p fs] by (simp add: 4(6))
qed (use assms(2) in auto)

lemma xfs_recv_invariant_witness:
  "case RecvList_step (\<lambda>a. a \<noteq> []) ''UPDATELIST;10.0.0.2;6004;2;c.txt;cc'' sample_tracker of
      Inl e \<Rightarrow> e = BufferOverflow \<or> e = Exit 1
    | Inr s' \<Rightarrow> tracker_ok s' \<and>
        (\<forall>c\<in>set (clientInfoList sample_tracker). has_file ''a.txt'' c \<longrightarrow>
          (\<exists>c'\<in>set (clientInfoList s'). client_key c' = client_key c \<and> has_file ''a.txt'' c'))"
  using xfs_recv_invariant [OF _ sample_tracker_ok, of "\<lambda>a. a \<noteq> []"] by simp

end
