(* ===== verification/TrackerProcess.thy ===== *)
theory TrackerProcess
  imports XfsServer Process
begin

text \<open>
  The tracking server as a process (Project3/Server/server.cpp): the three listener
  functions with the heads of their loops, the console of \<open>main\<close>, and the interleaving of
  these four threads on the one \<open>Server\<close> and \<open>Is_live\<close>. The lemmas say what holds after any
  run and how a run can end.
\<close>

section \<open>The threads\<close>

text \<open>One turn of each listener: \<open>recvfrom\<close>, its timeout, the handling of the datagram.\<close>

definition FindResImp :: "(string \<Rightarrow> bool) \<Rightarrow> bool \<Rightarrow> recv_event \<Rightarrow> xserver \<Rightarrow> xserver result" where
  "FindResImp aton live r s = on_recv (FindRes_step aton) (- 1) live r s"

definition RecvListImp :: "(string \<Rightarrow> bool) \<Rightarrow> bool \<Rightarrow> recv_event \<Rightarrow> xserver \<Rightarrow> xserver result" where
  "RecvListImp aton live r s = on_recv (RecvList_step aton) (- 1) live r s"

definition HeartbeatImp :: "(string \<Rightarrow> bool) \<Rightarrow> bool \<Rightarrow> recv_event \<Rightarrow> xserver \<Rightarrow> xserver result" where
  "HeartbeatImp aton live r s = on_recv (Heartbeat_step aton) (- 1) live r s"

text \<open>
  \<open>main\<close>: the threads work on \<open>tr_server\<close>; the console reads lines until \<open>exit\<close> and gives
  what it does not know to \<open>system\<close> (\<open>tr_shell\<close>); \<open>tr_screen\<close> is what \<open>list\<close> printed. After \<open>exit\<close> it waits for the listeners.
\<close>

record tracker_process =
  tr_server :: xserver
  tr_live :: bool
  tr_shell :: "string list"
  tr_screen :: "string list"

definition client_row :: "ClientInfo \<Rightarrow> string" where
  "client_row clnt = ''client '' @ to_string (ci_id clnt) @ '' '' @ ci_host clnt @ '':'' @ to_string (ci_port clnt)"

definition tracker_console :: "string \<Rightarrow> tracker_process \<Rightarrow> tracker_process" where
  "tracker_console buffer t =
     (if buffer = ''exit'' then t\<lparr>tr_live := False\<rparr>
      else if buffer = ''list'' then t\<lparr>tr_screen := tr_screen t @ map client_row (clientInfoList (tr_server t))\<rparr>
      else t\<lparr>tr_shell := tr_shell t @ [buffer]\<rparr>)"

definition tracker_main :: tracker_process where
  "tracker_main = \<lparr>tr_server = \<lparr>clientInfoList = [], xs_out = []\<rparr>, tr_live = True, tr_shell = [], tr_screen = []\<rparr>"

datatype tracker_event = FindSocket recv_event | UpdateSocket recv_event | HeartbeatSocket recv_event | Typed string

definition on_server :: "(bool \<Rightarrow> xserver \<Rightarrow> xserver result) \<Rightarrow> tracker_process \<Rightarrow> tracker_process result" where
  "on_server f t = bindE (f (tr_live t) (tr_server t)) (\<lambda>s. Inr (t\<lparr>tr_server := s\<rparr>))"

fun tracker_step :: "(string \<Rightarrow> bool) \<Rightarrow> tracker_event \<Rightarrow> tracker_process \<Rightarrow> tracker_process result" where
  "tracker_step aton (FindSocket r) t = on_server (\<lambda>live. FindResImp aton live r) t"
| "tracker_step aton (UpdateSocket r) t = on_server (\<lambda>live. RecvListImp aton live r) t"
| "tracker_step aton (HeartbeatSocket r) t = on_server (\<lambda>live. HeartbeatImp aton live r) t"
| "tracker_step aton (Typed buffer) t = Inr (if tr_live t then tracker_console buffer t else t)"

section \<open>Runs\<close>

lemma FindRes_step_cases:
  "FindRes_step aton d s = Inl (Exit 1) \<or> (\<exists>x. FindRes_step aton d s = Inr (s\<lparr>xs_out := x\<rparr>))"
  by (auto simp: FindRes_step_def Let_def Split_tz xs_send_def split: prod.splits intro: exI [of _ "xs_out s"])

lemma Heartbeat_step_cases:
  "Heartbeat_step aton d s = Inl (Exit 1) \<or> (\<exists>x. Heartbeat_step aton d s = Inr (s\<lparr>xs_out := x\<rparr>))"
  by (auto simp: Heartbeat_step_def Let_def Split_tz xs_send_def split: prod.splits intro: exI [of _ "xs_out s"])

text \<open>The list of clients is well formed, and no client loses a file it announced.\<close>

definition keeps_files :: "xserver \<Rightarrow> xserver \<Rightarrow> bool" where
  "keeps_files s s' \<longleftrightarrow> (\<forall>name. \<forall>c\<in>set (clientInfoList s). has_file name c \<longrightarrow>
     (\<exists>c'\<in>set (clientInfoList s'). client_key c' = client_key c \<and> has_file name c'))"

lemma keeps_files_refl [simp]: "keeps_files s s" "keeps_files s (s\<lparr>xs_out := x\<rparr>)"
  by (auto simp: keeps_files_def)

lemma keeps_files_trans: "keeps_files s1 s2 \<Longrightarrow> keeps_files s2 s3 \<Longrightarrow> keeps_files s1 s3"
  unfolding keeps_files_def by metis

lemma tracker_ok_out [simp]: "tracker_ok (s\<lparr>xs_out := x\<rparr>) = tracker_ok s"
  by (simp add: tracker_ok_def)

lemma handlers_keep:
  assumes "\<not> aton []" "tracker_ok s"
  shows "RecvList_step aton d s = Inr s' \<Longrightarrow> tracker_ok s' \<and> keeps_files s s'"
    "FindRes_step aton d s = Inr s' \<Longrightarrow> tracker_ok s' \<and> keeps_files s s'"
    "Heartbeat_step aton d s = Inr s' \<Longrightarrow> tracker_ok s' \<and> keeps_files s s'"
    "RecvList_step aton d s = Inl e \<Longrightarrow> e = BufferOverflow \<or> e = Exit 1"
    "FindRes_step aton d s = Inl e \<Longrightarrow> e = Exit 1" "Heartbeat_step aton d s = Inl e \<Longrightarrow> e = Exit 1"
  using xfs_recv_invariant [where aton = aton and s = s and d = d] assms
    FindRes_step_cases [of aton d s] Heartbeat_step_cases [of aton d s]
  by (auto simp: keeps_files_def)

definition tracker_may_end :: "tracker_event \<Rightarrow> tracker_process \<Rightarrow> fault \<Rightarrow> bool" where
  "tracker_may_end e t f \<longleftrightarrow>
     (case e of
        Typed _ \<Rightarrow> False
      | UpdateSocket (Datagram d) \<Rightarrow> f = BufferOverflow \<or> f = Exit 1
      | FindSocket (Datagram d) \<Rightarrow> f = Exit 1
      | HeartbeatSocket (Datagram d) \<Rightarrow> f = Exit 1
      | _ \<Rightarrow> f = Exit (- 1) \<and> \<not> tr_live t)"

definition tracker_stop :: "tracker_event \<Rightarrow> bool" where
  "tracker_stop e \<longleftrightarrow> e = Typed ''exit''"

definition tracker_silent :: "tracker_event \<Rightarrow> bool" where
  "tracker_silent e \<longleftrightarrow> e \<in> {FindSocket Silence, UpdateSocket Silence, HeartbeatSocket Silence}"

lemma tracker_step_cases:
  assumes "\<not> aton []" "tracker_ok (tr_server t)"
  shows "tracker_step aton e t = Inr t' \<Longrightarrow> tracker_ok (tr_server t') \<and> keeps_files (tr_server t) (tr_server t')"
    "tracker_step aton e t = Inl f \<Longrightarrow> tracker_may_end e t f"
    "tracker_step aton e t = Inr t' \<Longrightarrow> tr_live t' \<longleftrightarrow> tr_live t \<and> \<not> tracker_stop e"
    "tracker_silent e \<Longrightarrow> tracker_step aton e t = (if tr_live t then Inr t else Inl (Exit (- 1)))"
proof -
  note h = handlers_keep [where aton = aton and s = "tr_server t", OF assms]
  note d = on_server_def FindResImp_def RecvListImp_def HeartbeatImp_def
  show "tracker_step aton e t = Inr t' \<Longrightarrow> tracker_ok (tr_server t') \<and> keeps_files (tr_server t) (tr_server t')"
    using assms(2) by (cases e) (auto simp: d tracker_console_def bindE_Inr_iff on_recv_Inr dest: h)
  show "tracker_step aton e t = Inl f \<Longrightarrow> tracker_may_end e t f"
    by (cases e) (auto simp: tracker_may_end_def d bindE_Inl_iff on_recv_Inl dest: h)
  show "tracker_step aton e t = Inr t' \<Longrightarrow> tr_live t' \<longleftrightarrow> tr_live t \<and> \<not> tracker_stop e"
    by (cases e) (auto simp: on_server_def bindE_Inr_iff tracker_stop_def tracker_console_def split: if_splits)
  show "tracker_silent e \<Longrightarrow> tracker_step aton e t = (if tr_live t then Inr t else Inl (Exit (- 1)))"
    by (auto simp: tracker_silent_def d)
qed

definition tracker_inv :: "(string \<Rightarrow> bool) \<Rightarrow> tracker_process \<Rightarrow> bool" where
  "tracker_inv aton t \<longleftrightarrow> \<not> aton [] \<and> tracker_ok (tr_server t)"

interpretation tracker: stoppable "tracker_step aton" "tracker_inv aton" tracker_may_end tr_live tracker_stop tracker_silent "- 1"
  by unfold_locales (auto simp: tracker_inv_def dest: tracker_step_cases)

lemma tracker_run_keeps_files:
  assumes "\<not> aton []" "tracker_ok (tr_server t)" "run_events (tracker_step aton) es t = Inr t'"
  shows "keeps_files (tr_server t) (tr_server t')"
  using assms(2,3)
proof (induction es arbitrary: t)
  case (Cons e es)
  then obtain t1 where "tracker_step aton e t = Inr t1" "run_events (tracker_step aton) es t1 = Inr t'" by (auto simp: bindE_Inr_iff)
  then show ?case using Cons.IH [of t1] tracker_step_cases(1) [where aton = aton and t = t, OF assms(1) Cons.prems(1)] keeps_files_trans by blast
qed simp

text \<open>
  C22: every run of the tracking server, whatever its threads receive in whatever order. The
  list stays well formed with no client twice, and no client loses a file it announced. The
  process ends only by an overlong file name, an address it cannot answer, or, after
  \<open>exit\<close> was typed, with code -1 at the first listener that hears nothing for its timeout;
  it never gets past such a silence, so \<open>main\<close> never returns 0.
\<close>

theorem tracker_runs:
  assumes "\<not> aton []" "tracker_ok (tr_server t)" "tr_live t"
  shows "case run_events (tracker_step aton) es t of
      Inr t' \<Rightarrow> tracker_ok (tr_server t') \<and> keeps_files (tr_server t) (tr_server t')
        \<and> (\<forall>es1 es2. es = es1 @ Typed ''exit'' # es2 \<longrightarrow>
              FindSocket Silence \<notin> set es2 \<and> UpdateSocket Silence \<notin> set es2 \<and> HeartbeatSocket Silence \<notin> set es2)
    | Inl f \<Rightarrow> f = BufferOverflow \<or> f = Exit 1 \<or> f = Exit (- 1) \<and> Typed ''exit'' \<in> set es"
proof -
  have i: "tracker_inv aton t" using assms(1,2) by (simp add: tracker_inv_def)
  note o = tracker.run_outcome [OF i assms(3), of es, unfolded tracker.outcome_def]
  show ?thesis
  proof (cases "run_events (tracker_step aton) es t")
    case (Inl f)
    with o obtain es1 e es2 s1 where "es = es1 @ e # es2"
      "if tracker_silent e then f = Exit (- 1) \<and> (\<exists>e'\<in>set es1. tracker_stop e') else tracker_may_end e s1 f" by auto
    with Inl show ?thesis
      by (auto simp: tracker_may_end_def tracker_silent_def tracker_stop_def split: if_splits tracker_event.splits recv_event.splits)
  next
    case (Inr t')
    with o show ?thesis using tracker_run_keeps_files [where aton = aton, OF assms(1,2) Inr]
      by (auto simp: tracker_inv_def tracker_stop_def tracker_silent_def)
  qed
qed

lemma tracker_runs_witness:
  "case run_events (tracker_step (\<lambda>a. a \<noteq> [])) [UpdateSocket (Datagram ''UPDATELIST;10.0.0.2;6004;2;c.txt;cc''), FindSocket Silence,
       Typed ''list'', Typed ''exit'', HeartbeatSocket Silence] tracker_main of
      Inr t' \<Rightarrow> False
    | Inl f \<Rightarrow> f = BufferOverflow \<or> f = Exit 1 \<or> f = Exit (- 1)"
proof -
  have "\<not> (\<lambda>a :: string. a \<noteq> []) []" "tracker_ok (tr_server tracker_main)" "tr_live tracker_main"
    by (simp_all add: tracker_main_def tracker_ok_def)
  from tracker_runs [where aton = "\<lambda>a. a \<noteq> []", OF this, of "[UpdateSocket (Datagram ''UPDATELIST;10.0.0.2;6004;2;c.txt;cc''),
      FindSocket Silence, Typed ''list'', Typed ''exit'', HeartbeatSocket Silence]"]
  show ?thesis by (auto split: sum.splits dest: spec [of _ "[UpdateSocket (Datagram ''UPDATELIST;10.0.0.2;6004;2;c.txt;cc''),
      FindSocket Silence, Typed ''list'']"])
qed

end
