(* ===== verification/XfsGraph.thy ===== *)
theory XfsGraph
  imports Prelude "HOL-Library.Code_Target_Numeral"
begin

text \<open>
  The latency graph of the xFS client (class \<open>Graph\<close> in Project3/Client/client.cpp):
  adjacency lists, and \<open>shortestPath\<close>, a worklist algorithm that keeps for every vertex
  the least distance found so far and the route that has it. Vertices are array indices,
  an index outside the array is a fault. Which element \<open>pq.top()\<close> yields among the queue
  is the parameter \<open>pick\<close>: the comparator \<open>cmp\<close> uses \<open>>=\<close>, which is no strict order,
  so nothing is assumed about it, and the results hold for every choice.
  \<open>partial_function\<close> models the loop: \<open>None\<close> is a run that never ends, and
  \<open>shortestPath_correct\<close> shows that there is none for weights that are not negative.
\<close>

section \<open>The graph\<close>

type_synonym ipair = "nat \<times> int"

record graph =
  gV :: nat
  adj :: "ipair list list"
  gpath :: "int list list list"

abbreviation INT_MAX :: int where "INT_MAX \<equiv> 2147483647"

definition Graph_new :: "nat \<Rightarrow> graph" where
  "Graph_new n = \<lparr>gV = n, adj = replicate n [], gpath = replicate n (replicate n (replicate n (- 1)))\<rparr>"

text \<open>\<open>adj->empty()\<close> asks whether the first list is empty and changes nothing.\<close>

definition Graph_empty :: "graph \<Rightarrow> graph" where
  "Graph_empty g = g"

definition vertex :: "graph \<Rightarrow> int \<Rightarrow> nat result" where
  "vertex g u = (if 0 \<le> u \<and> u < int (gV g) then Inr (nat u) else Inl OutOfBounds)"

definition addEdge :: "int \<Rightarrow> int \<Rightarrow> int \<Rightarrow> graph \<Rightarrow> graph result" where
  "addEdge u v w g =
     bindE (vertex g u) (\<lambda>u'. bindE (vertex g v) (\<lambda>v'.
       let a1 = (adj g)[u' := adj g ! u' @ [(v', w)]];
           a2 = a1[v' := a1 ! v' @ [(u', w)]]
       in Inr (g\<lparr>adj := a2\<rparr>)))"

fun find_edge :: "ipair list \<Rightarrow> int \<Rightarrow> int" where
  "find_edge [] v = - 1"
| "find_edge ((x, w) # es) v = (if int x = v then w else find_edge es v)"

definition getPathLength :: "int \<Rightarrow> int \<Rightarrow> graph \<Rightarrow> int result" where
  "getPathLength u v g = bindE (vertex g u) (\<lambda>u'. Inr (find_edge (adj g ! u') v))"

section \<open>Shortest paths\<close>

text \<open>32-bit addition.\<close>

definition add32 :: "int \<Rightarrow> int \<Rightarrow> int" where
  "add32 a b = signed_take_bit 31 (a + b)"

text \<open>\<open>path[src][v]\<close> becomes the route to \<open>u\<close>, then \<open>v\<close>, then the end mark -1.\<close>

definition fix_path :: "nat \<Rightarrow> nat \<Rightarrow> int list list \<Rightarrow> int list list result" where
  "fix_path u v rows =
     (let pu = rows ! u; k = length (takeWhile (\<lambda>x. x \<noteq> - 1) pu)
      in if k = length pu \<or> length (rows ! v) \<le> Suc k then Inl OutOfBounds
         else Inr (rows[v := take k pu @ [int v, - 1] @ drop (Suc (Suc k)) (rows ! v)]))"

type_synonym sp_state = "int list \<times> int list list \<times> ipair list"

fun relax_edges :: "nat \<Rightarrow> ipair list \<Rightarrow> sp_state \<Rightarrow> sp_state result" where
  "relax_edges u [] st = Inr st"
| "relax_edges u ((v, weight) # es) (dist, rows, pq) =
     (if dist ! v > add32 (dist ! u) weight then
        bindE (fix_path u v rows) (\<lambda>rows'.
          let d = add32 (dist ! u) weight
          in relax_edges u es (dist[v := d], rows', pq @ [(v, d)]))
      else relax_edges u es (dist, rows, pq))"

partial_function (option) sp_loop ::
  "(ipair list \<Rightarrow> nat) \<Rightarrow> ipair list list \<Rightarrow> sp_state \<Rightarrow> sp_state result option" where
  "sp_loop pick a st =
     (case st of (dist, rows, pq) \<Rightarrow>
        if pq = [] then Some (Inr st)
        else let i = pick pq mod length pq; u = fst (pq ! i)
             in (case relax_edges u (a ! u) (dist, rows, erase_iter i pq) of
                   Inl e \<Rightarrow> Some (Inl e)
                 | Inr st' \<Rightarrow> sp_loop pick a st'))"

declare sp_loop.simps [code]

definition shortestPath ::
  "(ipair list \<Rightarrow> nat) \<Rightarrow> int \<Rightarrow> graph \<Rightarrow> (int list \<times> graph) result option" where
  "shortestPath pick src g =
     (case vertex g src of
        Inl e \<Rightarrow> Some (Inl e)
      | Inr s \<Rightarrow>
          map_option (map_sum id (\<lambda>(dist, rows, pq). (dist, g\<lparr>gpath := (gpath g)[s := rows]\<rparr>)))
            (sp_loop pick (adj g) ((replicate (gV g) INT_MAX)[s := 0], gpath g ! s, [(s, 0)])))"

section \<open>Routes\<close>

text \<open>
  \<open>route a src p v d\<close>: \<open>p\<close> is the list of vertices after \<open>src\<close> on a walk to \<open>v\<close> whose
  edges weigh \<open>d\<close> together.
\<close>

inductive route :: "ipair list list \<Rightarrow> nat \<Rightarrow> nat list \<Rightarrow> nat \<Rightarrow> int \<Rightarrow> bool" for a src where
  here: "route a src [] src 0"
| step: "route a src p u d \<Longrightarrow> (v, w) \<in> set (a ! u) \<Longrightarrow> route a src (p @ [v]) v (d + w)"

inductive_cases route_NilE: "route a src [] v d"

definition weights_ok :: "ipair list list \<Rightarrow> nat \<Rightarrow> int \<Rightarrow> bool" where
  "weights_ok a n W \<longleftrightarrow> length a = n \<and> 0 \<le> W \<and> int n * W < INT_MAX
     \<and> (\<forall>u<n. \<forall>(v, w)\<in>set (a ! u). v < n \<and> 0 \<le> w \<and> w \<le> W)"

lemma weights_okD:
  "weights_ok a n W \<Longrightarrow> u < n \<Longrightarrow> (v, w) \<in> set (a ! u) \<Longrightarrow> v < n \<and> 0 \<le> w \<and> w \<le> W"
  by (fastforce simp: weights_ok_def)

lemma route_bounds:
  assumes "route a src p v d" "weights_ok a n W" "src < n"
  shows "v < n \<and> set p \<subseteq> {0..<n} \<and> 0 \<le> d \<and> d \<le> int (length p) * W"
  using assms(1)
proof induction
  case here
  then show ?case using assms(3) by simp
next
  case (step p u d v w)
  then show ?case using weights_okD [OF assms(2) _ step.hyps(2)] by (auto simp: algebra_simps)
qed

lemma route_last: "route a src p v d \<Longrightarrow> p \<noteq> [] \<Longrightarrow> last p = v"
  by (induction rule: route.induct) auto

section \<open>The invariant of the worklist\<close>

text \<open>\<open>row_is row p\<close>: the row holds the vertices \<open>p\<close>, then the end mark.\<close>

definition row_is :: "int list \<Rightarrow> nat list \<Rightarrow> bool" where
  "row_is row p \<longleftrightarrow> takeWhile (\<lambda>x. x \<noteq> - 1) row = map int p \<and> length p < length row"

lemma row_is_write:
  assumes "row_is pu p" "length p + 2 \<le> length pv" "k = length p"
  shows "row_is (take k pu @ [int v, - 1] @ drop (Suc (Suc k)) pv) (p @ [v])"
    "length (take k pu @ [int v, - 1] @ drop (Suc (Suc k)) pv) = length pv"
proof -
  have t: "take k pu = map int p"
    using assms(1,3) by (metis length_map row_is_def takeWhile_eq_take)
  have "takeWhile (\<lambda>x. x \<noteq> - 1) (map int p @ [int v, - 1] @ r) = map int p @ [int v]" for r
    by (induction p) auto
  then show "row_is (take k pu @ [int v, - 1] @ drop (Suc (Suc k)) pv) (p @ [v])"
    using assms t by (simp add: row_is_def)
  show "length (take k pu @ [int v, - 1] @ drop (Suc (Suc k)) pv) = length pv"
    using assms t by simp
qed

lemma distinct_length_less:
  assumes "distinct (s # p)" "set p \<subseteq> {0..<n}" "s < n"
  shows "length p < n"
proof -
  have "length (s # p) = card (set (s # p))" using assms(1) by (metis distinct_card)
  also have "\<dots> \<le> card {0..<n}" using assms by (intro card_mono) auto
  finally show ?thesis by simp
qed

definition best_route :: "ipair list list \<Rightarrow> nat \<Rightarrow> int list \<Rightarrow> int list list \<Rightarrow> nat \<Rightarrow> bool" where
  "best_route a src dist rows v \<longleftrightarrow> (\<exists>p. row_is (rows ! v) p \<and> route a src p v (dist ! v)
     \<and> distinct (src # p) \<and> (\<forall>x\<in>set p. dist ! x \<le> dist ! v))"

definition sp_inv :: "ipair list list \<Rightarrow> nat \<Rightarrow> nat \<Rightarrow> (nat \<Rightarrow> ipair set) \<Rightarrow> sp_state \<Rightarrow> bool" where
  "sp_inv a n src R st \<longleftrightarrow> (case st of (dist, rows, pq) \<Rightarrow>
     length dist = n \<and> length rows = n \<and> (\<forall>r\<in>set rows. length r = n)
     \<and> dist ! src = 0 \<and> (\<forall>v<n. 0 \<le> dist ! v \<and> dist ! v \<le> INT_MAX)
     \<and> (\<forall>v<n. dist ! v \<noteq> INT_MAX \<longrightarrow> best_route a src dist rows v)
     \<and> (\<forall>(v, d)\<in>set pq. v < n \<and> dist ! v \<noteq> INT_MAX)
     \<and> (\<forall>u<n. dist ! u \<noteq> INT_MAX \<longrightarrow> u \<notin> fst ` set pq \<longrightarrow> (\<forall>(v, w)\<in>R u. dist ! v \<le> dist ! u + w)))"

lemma best_route_facts:
  assumes "weights_ok a n W" "src < n" "best_route a src dist rows u" "u < n" "(v, w) \<in> set (a ! u)"
  shows "0 \<le> dist ! u" "dist ! u + w < INT_MAX" "0 \<le> dist ! u + w"
proof -
  obtain p where p: "route a src p u (dist ! u)" "distinct (src # p)"
    using assms(3) by (auto simp: best_route_def)
  have b: "set p \<subseteq> {0..<n}" "0 \<le> dist ! u" "dist ! u \<le> int (length p) * W"
    using route_bounds [OF p(1) assms(1,2)] by auto
  have w: "0 \<le> w" "w \<le> W" "0 \<le> W" "int n * W < INT_MAX"
    using weights_okD [OF assms(1,4,5)] assms(1) by (auto simp: weights_ok_def)
  have "int (length p) + 1 \<le> int n" using distinct_length_less [OF p(2) b(1) assms(2)] by simp
  then have "(int (length p) + 1) * W \<le> int n * W" using w by (intro mult_right_mono) auto
  with b w show "0 \<le> dist ! u" "dist ! u + w < INT_MAX" "0 \<le> dist ! u + w"
    by (auto simp: algebra_simps)
qed

lemma add32_id: "0 \<le> a + b \<Longrightarrow> a + b < INT_MAX \<Longrightarrow> add32 a b = a + b"
  unfolding add32_def by (rule signed_take_bit_int_eq_self) auto

text \<open>The route to \<open>v\<close> through \<open>u\<close>: what \<open>fix_path\<close> writes when it is shorter.\<close>

lemma fix_path_best:
  assumes wf: "weights_ok a n W" "src < n" and l: "length dist = n" "length rows = n" "\<forall>r\<in>set rows. length r = n"
    and s: "dist ! src = 0" "\<forall>v<n. dist ! v \<le> INT_MAX" and best: "best_route a src dist rows u"
    and u: "u < n" and e: "(v, w) \<in> set (a ! u)" and less: "dist ! u + w < dist ! v"
  shows "\<exists>row. fix_path u v rows = Inr (rows[v := row]) \<and> length row = n \<and> v \<noteq> src
     \<and> best_route a src (dist[v := dist ! u + w]) (rows[v := row]) v"
proof -
  let ?d = "dist ! u + w" let ?dist = "dist[v := dist ! u + w]"
  have vw: "v < n" "0 \<le> w" using weights_okD [OF wf(1) u(1) e] by auto
  note f = best_route_facts [OF wf best u(1) e]
  obtain p where p: "row_is (rows ! u) p" "route a src p u (dist ! u)" "distinct (src # p)"
    "\<forall>x\<in>set p. dist ! x \<le> dist ! u"
    using best by (auto simp: best_route_def)
  have v: "v \<noteq> src" "v \<noteq> u" "v \<notin> set p" using less f vw s(1) p(4) by fastforce+
  have r: "route a src (p @ [v]) v ?d" using p(2) e by (rule route.step)
  have dp: "distinct (src # p @ [v])" using p(3) v by auto
  have "length (p @ [v]) < n"
    using distinct_length_less [OF dp _ wf(2)] route_bounds [OF r wf] by simp
  then have k: "length p + 2 \<le> n" by simp
  have lu: "length (rows ! u) = n" "length (rows ! v) = n" using l u vw by auto
  let ?row = "take (length p) (rows ! u) @ [int v, - 1] @ drop (Suc (Suc (length p))) (rows ! v)"
  have fp: "fix_path u v rows = Inr (rows[v := ?row])"
    using p(1) lu k by (simp add: fix_path_def row_is_def Let_def)
  have row: "row_is ?row (p @ [v])" "length ?row = n"
    using row_is_write [OF p(1), of "rows ! v" "length p" v] lu k by auto
  have "?dist ! x \<le> ?dist ! v" if "x \<in> set (p @ [v])" for x
    using that p(4) vw l(1) by (cases "x = v") force+
  then have "best_route a src ?dist (rows[v := ?row]) v"
    using row r dp vw l unfolding best_route_def by (intro exI [of _ "p @ [v]"]) auto
  with fp row v(1) show ?thesis by blast
qed

text \<open>The routes to the other vertices stay.\<close>

lemma best_route_other:
  assumes wf: "weights_ok a n W" "src < n" and l: "length dist = n" "length rows = n"
    and x: "best_route a src dist rows x" "x \<noteq> v" and less: "d < dist ! v"
  shows "best_route a src (dist[v := d]) (rows[v := row]) x"
proof -
  obtain q where q: "row_is (rows ! x) q" "route a src q x (dist ! x)" "distinct (src # q)"
    "\<forall>y\<in>set q. dist ! y \<le> dist ! x"
    using x(1) by (auto simp: best_route_def)
  have "dist[v := d] ! y \<le> dist[v := d] ! x" if "y \<in> set q" for y
    using that q(4) less l(1) route_bounds [OF q(2) wf] x(2) by (cases "y = v") fastforce+
  then show ?thesis
    using q x l unfolding best_route_def by (intro exI [of _ q]) auto
qed

lemma relax_found:
  assumes wf: "weights_ok a n W" "src < n" and inv: "sp_inv a n src R (dist, rows, pq)"
    and u: "u < n" "dist ! u \<noteq> INT_MAX" and e: "(v, w) \<in> set (a ! u)" and less: "dist ! u + w < dist ! v"
  shows "\<exists>rows'. fix_path u v rows = Inr rows'
     \<and> sp_inv a n src (R(u := insert (v, w) (R u))) (dist[v := dist ! u + w], rows', pq @ [(v, dist ! u + w)])"
proof -
  let ?d = "dist ! u + w" let ?dist = "dist[v := dist ! u + w]"
  have i: "length dist = n" "length rows = n" "\<forall>r\<in>set rows. length r = n" "dist ! src = 0"
    "\<forall>v<n. 0 \<le> dist ! v \<and> dist ! v \<le> INT_MAX" "\<forall>v<n. dist ! v \<noteq> INT_MAX \<longrightarrow> best_route a src dist rows v"
    "\<forall>(v, d)\<in>set pq. v < n \<and> dist ! v \<noteq> INT_MAX"
    "\<forall>u<n. dist ! u \<noteq> INT_MAX \<longrightarrow> u \<notin> fst ` set pq \<longrightarrow> (\<forall>(v, w)\<in>R u. dist ! v \<le> dist ! u + w)"
    using inv by (auto simp: sp_inv_def)
  have vw: "v < n" "0 \<le> w" using weights_okD [OF wf(1) u(1) e] by auto
  have best: "best_route a src dist rows u" using i(6) u by blast
  note f = best_route_facts [OF wf best u(1) e]
  have "\<forall>v<n. dist ! v \<le> INT_MAX" using i(5) by blast
  then obtain row where fp: "fix_path u v rows = Inr (rows[v := row])" "length row = n" "v \<noteq> src"
    and bv: "best_route a src ?dist (rows[v := row]) v"
    using fix_path_best [OF wf i(1-4) _ best u(1) e less] by blast
  have uv: "u \<noteq> v" using less vw by auto
  have l: "?dist ! y \<le> dist ! y" for y using less i(1) vw by (cases "y = v") auto
  have "sp_inv a n src (R(u := insert (v, w) (R u))) (?dist, rows[v := row], pq @ [(v, ?d)])"
    unfolding sp_inv_def prod.case
  proof (intro conjI allI impI)
    show "\<forall>r\<in>set (rows[v := row]). length r = n" using i(3) fp(2) set_update_subset_insert [of rows v row] by auto
    show "0 \<le> ?dist ! x" "?dist ! x \<le> INT_MAX" if "x < n" for x
      using that i(1,5) f by (cases "x = v"; auto)+
    show "best_route a src ?dist (rows[v := row]) x" if "x < n" "?dist ! x \<noteq> INT_MAX" for x
      using that bv best_route_other [OF wf i(1,2) _ _ less] i(6) by (cases "x = v") auto
    show "\<forall>(x, d)\<in>set (pq @ [(v, ?d)]). x < n \<and> ?dist ! x \<noteq> INT_MAX"
      using i(1,7) vw f by (fastforce simp: nth_list_update split: if_splits)
    show "\<forall>(y, w')\<in>(R(u := insert (v, w) (R u))) x. ?dist ! y \<le> ?dist ! x + w'"
      if x: "x < n" "?dist ! x \<noteq> INT_MAX" "x \<notin> fst ` set (pq @ [(v, ?d)])" for x
    proof -
      have xv: "x \<noteq> v" "x \<notin> fst ` set pq" "dist ! x \<noteq> INT_MAX" using x by auto
      have c: "\<forall>(y, w')\<in>R x. dist ! y \<le> dist ! x + w'" using i(8) x(1) xv by blast
      have "?dist ! y \<le> ?dist ! x + w'" if "(y, w') \<in> R x" for y w'
        using bspec [OF c that] order_trans [OF l [of y]] xv(1) by auto
      moreover have "?dist ! v \<le> ?dist ! u + w" using vw i(1) uv by simp
      ultimately show ?thesis by (auto split: if_splits)
    qed
  qed (use i fp(3) in auto)
  with fp(1) show ?thesis by blast
qed

lemma relax_not_found:
  assumes "sp_inv a n src R (dist, rows, pq)" "u < n" "dist ! v \<le> dist ! u + w"
  shows "sp_inv a n src (R(u := insert (v, w) (R u))) (dist, rows, pq)"
  using assms by (auto simp: sp_inv_def)

text \<open>What drives the loop to its end: the distances, then the queue.\<close>

definition sp_size :: "sp_state \<Rightarrow> nat \<times> nat" where
  "sp_size st = (case st of (dist, rows, pq) \<Rightarrow> (nat (sum_list dist), length pq))"

lemma sum_list_update_int:
  "v < length dist \<Longrightarrow> sum_list (dist[v := d]) = sum_list dist + d - (dist :: int list) ! v"
  by (induction dist arbitrary: v) (auto split: nat.split)

lemma sum_list_update_less:
  assumes "v < length dist" "d < dist ! v" "\<forall>x\<in>set dist. 0 \<le> x" "0 \<le> d"
  shows "nat (sum_list (dist[v := d])) < nat (sum_list (dist :: int list))"
proof -
  have "sum_list (dist[v := d]) = sum_list dist + d - dist ! v"
    using assms(1) by (rule sum_list_update_int)
  moreover have "0 \<le> sum_list (dist[v := d])"
    using assms(3,4) set_update_subset_insert [of dist v d] by (intro sum_list_nonneg) auto
  ultimately show ?thesis using assms(2) by linarith
qed

lemma relax_edges_inv:
  assumes wf: "weights_ok a n W" "src < n" and "sp_inv a n src R (dist, rows, pq)"
    and "u < n" "dist ! u \<noteq> INT_MAX" and "set es \<subseteq> set (a ! u)"
  shows "\<exists>dist' rows' pq'. relax_edges u es (dist, rows, pq) = Inr (dist', rows', pq')
     \<and> sp_inv a n src (R(u := set es \<union> R u)) (dist', rows', pq')
     \<and> (dist' = dist \<and> pq' = pq \<or> nat (sum_list dist') < nat (sum_list dist))"
  using assms(3-6)
proof (induction es arbitrary: R dist rows pq)
  case Nil
  then show ?case by (simp add: fun_upd_idem)
next
  case (Cons e es)
  obtain v w where e: "e = (v, w)" by fastforce
  have vw: "(v, w) \<in> set (a ! u)" "v < n" "0 \<le> w" using Cons.prems(2,4) e weights_okD [OF wf(1)] by auto
  have i: "length dist = n" "\<forall>v<n. 0 \<le> dist ! v" "best_route a src dist rows u"
    using Cons.prems(1-3) by (auto simp: sp_inv_def)
  note f = best_route_facts [OF wf i(3) Cons.prems(2) vw(1)]
  have a32: "add32 (dist ! u) w = dist ! u + w" using f by (simp add: add32_id)
  have ru: "R(u := set (e # es) \<union> R u) = (R(u := insert (v, w) (R u)))(u := set es \<union> (R(u := insert (v, w) (R u))) u)"
    using e by auto
  show ?case
  proof (cases "dist ! u + w < dist ! v")
    case True
    let ?dist = "dist[v := dist ! u + w]"
    obtain rows' where r: "fix_path u v rows = Inr rows'"
      "sp_inv a n src (R(u := insert (v, w) (R u))) (?dist, rows', pq @ [(v, dist ! u + w)])"
      using relax_found [OF wf Cons.prems(1-3) vw(1) True] by blast
    have "v \<noteq> u" using True vw(3) by auto
    then have "?dist ! u \<noteq> INT_MAX" using Cons.prems(3) by simp
    moreover have "set es \<subseteq> set (a ! u)" using Cons.prems(4) by simp
    ultimately obtain dist' rows'' pq' where
      ih: "relax_edges u es (?dist, rows', pq @ [(v, dist ! u + w)]) = Inr (dist', rows'', pq')"
      "sp_inv a n src (R(u := set (e # es) \<union> R u)) (dist', rows'', pq')"
      "dist' = ?dist \<and> pq' = pq @ [(v, dist ! u + w)] \<or> nat (sum_list dist') < nat (sum_list ?dist)"
      using Cons.IH [OF r(2) Cons.prems(2)] unfolding ru by blast
    moreover have "nat (sum_list ?dist) < nat (sum_list dist)"
      using i True f vw(2) by (intro sum_list_update_less) (auto simp: in_set_conv_nth)
    ultimately have "nat (sum_list dist') < nat (sum_list dist)" by auto
    moreover have "relax_edges u (e # es) (dist, rows, pq) = Inr (dist', rows'', pq')"
      using r(1) ih(1) True by (simp add: e a32 Let_def)
    ultimately show ?thesis using ih(2) by blast
  next
    case False
    then have "sp_inv a n src (R(u := insert (v, w) (R u))) (dist, rows, pq)"
      using relax_not_found [OF Cons.prems(1,2)] by simp
    moreover have sub: "set es \<subseteq> set (a ! u)" using Cons.prems(4) by simp
    ultimately have
      "\<exists>dist' rows' pq'. relax_edges u es (dist, rows, pq) = Inr (dist', rows', pq')
        \<and> sp_inv a n src (R(u := set (e # es) \<union> R u)) (dist', rows', pq')
        \<and> (dist' = dist \<and> pq' = pq \<or> nat (sum_list dist') < nat (sum_list dist))"
      using Cons.IH [OF _ Cons.prems(2,3) sub] unfolding ru by blast
    moreover have "relax_edges u (e # es) (dist, rows, pq) = relax_edges u es (dist, rows, pq)"
      using False by (simp add: e a32)
    ultimately show ?thesis by metis
  qed
qed

text \<open>Taking an element off the queue leaves the edges of its vertex open, and nothing else.\<close>

lemma sp_inv_erase:
  assumes inv: "sp_inv a n src R (dist, rows, pq)" and i: "i < length pq"
  shows "sp_inv a n src (R(fst (pq ! i) := {})) (dist, rows, erase_iter i pq)"
proof -
  let ?u = "fst (pq ! i)"
  have "pq = take i pq @ pq ! i # drop (Suc i) pq" using i by (simp add: id_take_nth_drop)
  then have s: "set pq = insert (pq ! i) (set (erase_iter i pq))"
    by (metis Un_insert_right erase_iter_def list.simps(15) set_append)
  show ?thesis
    unfolding sp_inv_def prod.case
  proof (intro conjI allI impI)
    fix x assume x: "x < n" "dist ! x \<noteq> INT_MAX" "x \<notin> fst ` set (erase_iter i pq)"
    show "\<forall>(y, w)\<in>(R(?u := {})) x. dist ! y \<le> dist ! x + w"
    proof (cases "x = ?u")
      case False
      then have "x \<notin> fst ` set pq" using s x(3) by auto
      with inv x False show ?thesis unfolding sp_inv_def prod.case fun_upd_other [OF False] by blast
    qed simp
  qed (use inv s in \<open>auto simp: sp_inv_def\<close>)
qed

lemma sp_loop_total:
  assumes wf: "weights_ok a n W" "src < n" and "sp_inv a n src (\<lambda>u. set (a ! u)) st"
  shows "\<exists>dist rows. sp_loop pick a st = Some (Inr (dist, rows, []))
     \<and> sp_inv a n src (\<lambda>u. set (a ! u)) (dist, rows, [])"
  using assms(3)
proof (induction st rule: wf_induct [OF wf_inv_image [OF wf_lex_prod [OF wf_less wf_less], of sp_size]])
  case (1 st)
  obtain dist rows pq where st: "st = (dist, rows, pq)" by (cases st)
  let ?R = "\<lambda>u. set (a ! u)"
  show ?case
  proof (cases "pq = []")
    case True
    with 1 st show ?thesis by (subst sp_loop.simps) simp
  next
    case False
    define i where "i = pick pq mod length pq"
    define u where "u = fst (pq ! i)"
    have i: "i < length pq" using False by (simp add: i_def)
    have inv: "sp_inv a n src ?R (dist, rows, pq)" using 1(2) st by simp
    have u: "u < n" "dist ! u \<noteq> INT_MAX"
      using inv nth_mem [OF i] by (cases "pq ! i"; fastforce simp: sp_inv_def u_def)+
    note inv' = sp_inv_erase [OF inv i, folded u_def]
    obtain dist' rows' pq' where r: "relax_edges u (a ! u) (dist, rows, erase_iter i pq) = Inr (dist', rows', pq')"
      "sp_inv a n src ((?R(u := {}))(u := set (a ! u) \<union> (?R(u := {})) u)) (dist', rows', pq')"
      "dist' = dist \<and> pq' = erase_iter i pq \<or> nat (sum_list dist') < nat (sum_list dist)"
      using relax_edges_inv [OF wf inv' u order_refl] by blast
    have "((dist', rows', pq'), st) \<in> inv_image ({(x, y). x < y} <*lex*> {(x, y). x < y}) sp_size"
      using r(3) i by (auto simp: st sp_size_def length_erase_iter)
    moreover have "(?R(u := {}))(u := set (a ! u) \<union> (?R(u := {})) u) = ?R" by auto
    then have "sp_inv a n src ?R (dist', rows', pq')" using r(2) by simp
    ultimately obtain dist2 rows2 where "sp_loop pick a (dist', rows', pq') = Some (Inr (dist2, rows2, []))"
      "sp_inv a n src ?R (dist2, rows2, [])"
      using 1(1) by blast
    then show ?thesis
      using False r(1) st
      by (subst sp_loop.simps) (simp add: Let_def i_def [symmetric] u_def [symmetric])
  qed
qed

lemma sp_inv_start:
  assumes "src < n" "length rows = n" "\<forall>r\<in>set rows. length r = n" "rows ! src ! 0 = - 1"
  shows "sp_inv a n src (\<lambda>u. set (a ! u)) ((replicate n INT_MAX)[src := 0], rows, [(src, 0)])"
proof -
  have "rows ! src \<in> set rows" using assms by simp
  then have "rows ! src \<noteq> []" using bspec [OF assms(3)] assms(1) by fastforce
  then have "row_is (rows ! src) []" using assms(4) by (cases "rows ! src") (auto simp: row_is_def)
  then have "best_route a src ((replicate n INT_MAX)[src := 0]) rows src"
    unfolding best_route_def using assms(1) route.here [of a src] by (intro exI [of _ "[]"]) simp
  with assms show ?thesis
    by (auto simp: sp_inv_def nth_list_update split: if_splits)
qed

lemma sp_inv_end:
  assumes "sp_inv a n src (\<lambda>u. set (a ! u)) (dist, rows, [])" "weights_ok a n W" "src < n"
    and "route a src p v d"
  shows "dist ! v \<le> d \<and> dist ! v \<noteq> INT_MAX"
  using assms(4)
proof induction
  case here
  then show ?case using assms(1) by (simp add: sp_inv_def)
next
  case (step p u d v w)
  have u: "u < n" using route_bounds [OF step.hyps(1) assms(2,3)] by simp
  have "dist ! v \<le> dist ! u + w" using assms(1) u step by (auto simp: sp_inv_def)
  moreover have "dist ! u + w < INT_MAX"
    using assms(1) u step.IH by (intro best_route_facts(2) [OF assms(2,3) _ u step.hyps(2)]) (auto simp: sp_inv_def)
  ultimately show ?case using step.IH by linarith
qed

section \<open>Correctness\<close>

definition graph_ok :: "graph \<Rightarrow> bool" where
  "graph_ok g \<longleftrightarrow> length (adj g) = gV g \<and> length (gpath g) = gV g
     \<and> (\<forall>rows\<in>set (gpath g). length rows = gV g \<and> (\<forall>r\<in>set rows. length r = gV g))
     \<and> (\<forall>u<gV g. gpath g ! u ! u ! 0 = - 1)"

text \<open>What the queue's run leaves: the invariant with an empty queue.\<close>

lemma shortestPath_run:
  assumes "graph_ok g" "weights_ok (adj g) (gV g) W" "vertex g src = Inr s"
  shows "\<exists>dist rows. shortestPath pick src g = Some (Inr (dist, g\<lparr>gpath := (gpath g)[s := rows]\<rparr>))
     \<and> gpath (g\<lparr>gpath := (gpath g)[s := rows]\<rparr>) ! s = rows
     \<and> sp_inv (adj g) (gV g) s (\<lambda>u. set (adj g ! u)) (dist, rows, [])"
proof -
  have s: "s < gV g" using assms(3) by (auto simp: vertex_def split: if_splits)
  have rows: "length (gpath g ! s) = gV g" "\<forall>r\<in>set (gpath g ! s). length r = gV g" "gpath g ! s ! s ! 0 = - 1"
    "s < length (gpath g)"
    using assms(1) s by (auto simp: graph_ok_def)
  show ?thesis
    using sp_loop_total [OF assms(2) s sp_inv_start [OF s rows(1-3)], of pick] assms(3) rows(4)
    by (auto simp: shortestPath_def)
qed

lemma shortestPath_ends:
  assumes "graph_ok g" "weights_ok (adj g) (gV g) W"
  shows "\<exists>r. shortestPath pick src g = Some r"
proof (cases "vertex g src")
  case (Inr s)
  then show ?thesis using shortestPath_run [OF assms Inr] by blast
qed (simp add: shortestPath_def)

text \<open>
  C1: \<open>shortestPath\<close> ends on every graph without negative weights, whichever element the
  queue hands out, touches nothing outside its arrays, and returns for every vertex the
  least weight of a walk from the source (INT_MAX exactly when there is none), with a
  route of that weight, without repetition, in the path table.
\<close>

theorem shortestPath_correct:
  assumes "graph_ok g" "weights_ok (adj g) (gV g) W" "0 \<le> src" "src < int (gV g)"
  shows "\<exists>dist g'. shortestPath pick src g = Some (Inr (dist, g')) \<and> adj g' = adj g
     \<and> length dist = gV g
     \<and> (\<forall>v\<in>{0..<gV g}.
          (dist ! v = INT_MAX \<longleftrightarrow> (\<nexists>p d. route (adj g) (nat src) p v d))
        \<and> (dist ! v \<noteq> INT_MAX \<longrightarrow>
             (\<exists>p. row_is (gpath g' ! nat src ! v) p \<and> route (adj g) (nat src) p v (dist ! v) \<and> distinct (nat src # p))
           \<and> (\<forall>q d. route (adj g) (nat src) q v d \<longrightarrow> dist ! v \<le> d)))"
proof -
  define s where "s = nat src"
  have s: "s < gV g" "vertex g src = Inr s" using assms(3,4) by (auto simp: s_def vertex_def)
  obtain dist rows where run: "shortestPath pick src g = Some (Inr (dist, g\<lparr>gpath := (gpath g)[s := rows]\<rparr>))"
      "gpath (g\<lparr>gpath := (gpath g)[s := rows]\<rparr>) ! s = rows"
    and inv: "sp_inv (adj g) (gV g) s (\<lambda>u. set (adj g ! u)) (dist, rows, [])"
    using shortestPath_run [OF assms(1,2) s(2)] by blast
  let ?g = "g\<lparr>gpath := (gpath g)[s := rows]\<rparr>"
  have b: "best_route (adj g) s dist rows v" if "v < gV g" "dist ! v \<noteq> INT_MAX" for v
    using inv that by (simp add: sp_inv_def)
  note e = sp_inv_end [OF inv assms(2) s(1)]
  have "length dist = gV g" using inv by (simp add: sp_inv_def)
  moreover have "(dist ! v = INT_MAX \<longleftrightarrow> (\<nexists>p d. route (adj g) s p v d))" if "v < gV g" for v
    using b [OF that] e [of _ v] unfolding best_route_def by blast
  moreover have "(\<exists>p. row_is (rows ! v) p \<and> route (adj g) s p v (dist ! v) \<and> distinct (s # p))
      \<and> (\<forall>q d. route (adj g) s q v d \<longrightarrow> dist ! v \<le> d)" if "v < gV g" "dist ! v \<noteq> INT_MAX" for v
    using b [OF that] e [of _ v] by (auto simp: best_route_def)
  ultimately show ?thesis
    using run unfolding s_def by (intro exI [of _ dist] exI [of _ ?g]) (auto simp: s_def)
qed

text \<open>Building the graph keeps what the algorithm needs.\<close>

lemma Graph_new_ok: "graph_ok (Graph_new n)"
  by (auto simp: graph_ok_def Graph_new_def)

definition symmetric :: "graph \<Rightarrow> bool" where
  "symmetric g \<longleftrightarrow> (\<forall>u<gV g. \<forall>v<gV g. \<forall>w. (v, w) \<in> set (adj g ! u) \<longleftrightarrow> (u, w) \<in> set (adj g ! v))"

lemma vertex_Inr: "vertex g u = Inr k \<Longrightarrow> k < gV g \<and> int k = u"
  by (auto simp: vertex_def split: if_splits)

lemma addEdge_adj:
  assumes "addEdge u v w g = Inr g'" "length (adj g) = gV g"
  shows "gV g' = gV g \<and> gpath g' = gpath g \<and> length (adj g') = gV g \<and> nat u < gV g \<and> nat v < gV g
     \<and> (\<forall>x<gV g. set (adj g' ! x) = set (adj g ! x) \<union> (if x = nat u then {(nat v, w)} else {})
          \<union> (if x = nat v then {(nat u, w)} else {}))"
proof -
  obtain u' v' where uv: "vertex g u = Inr u'" "vertex g v = Inr v'"
    and g': "g' = g\<lparr>adj := ((adj g)[u' := adj g ! u' @ [(v', w)]])[v' := (adj g)[u' := adj g ! u' @ [(v', w)]] ! v' @ [(u', w)]]\<rparr>"
    using assms(1) by (auto simp: addEdge_def bindE_Inr_iff Let_def)
  have k: "u' < gV g" "v' < gV g" "nat u = u'" "nat v = v'"
    using vertex_Inr uv by (metis nat_int)+
  with assms(2) g' show ?thesis by (auto simp: nth_list_update)
qed

text \<open>
  C37: \<open>addEdge\<close> adds one edge in both directions and nothing else, so a graph built by it
  stays symmetric and fit for \<open>shortestPath\<close>; a vertex outside the graph is the only fault.
\<close>

theorem addEdge_symmetric:
  assumes "graph_ok g" "symmetric g" "weights_ok (adj g) (gV g) W" "0 \<le> w" "w \<le> W"
  shows "case addEdge u v w g of
     Inl e \<Rightarrow> e = OutOfBounds \<and> (u < 0 \<or> int (gV g) \<le> u \<or> v < 0 \<or> int (gV g) \<le> v)
   | Inr g' \<Rightarrow> graph_ok g' \<and> symmetric g' \<and> weights_ok (adj g') (gV g') W \<and> (nat v, w) \<in> set (adj g' ! nat u)"
proof (cases "addEdge u v w g")
  case (Inl e)
  then show ?thesis by (auto simp: addEdge_def vertex_def result_simps Let_def split: if_splits)
next
  case (Inr g')
  have l: "length (adj g) = gV g" using assms(1) by (simp add: graph_ok_def)
  note a = addEdge_adj [OF Inr l]
  then have "graph_ok g'" using assms(1) by (simp add: graph_ok_def)
  moreover have "symmetric g'" using a assms(2) by (auto simp: symmetric_def)
  moreover have "weights_ok (adj g') (gV g') W"
    using a assms(3-5) unfolding weights_ok_def by (auto split: if_splits)
  ultimately show ?thesis using Inr a by auto
qed

definition sample_graph :: graph where
  "sample_graph = (case bindE (addEdge 0 1 4 (Graph_new 3)) (\<lambda>g. bindE (addEdge 1 2 1 g) (addEdge 0 2 9)) of
     Inr g \<Rightarrow> g | Inl _ \<Rightarrow> Graph_new 3)"

lemma sample_graph_eq:
  "sample_graph = \<lparr>gV = 3, adj = [[(1, 4), (2, 9)], [(0, 4), (2, 1)], [(1, 1), (0, 9)]],
     gpath = [[[- 1, - 1, - 1], [- 1, - 1, - 1], [- 1, - 1, - 1]], [[- 1, - 1, - 1], [- 1, - 1, - 1], [- 1, - 1, - 1]],
              [[- 1, - 1, - 1], [- 1, - 1, - 1], [- 1, - 1, - 1]]]\<rparr>"
  by (simp add: sample_graph_def Graph_new_def addEdge_def vertex_def numeral_eq_Suc Let_def)

lemma sample_graph_ok: "graph_ok sample_graph" "weights_ok (adj sample_graph) (gV sample_graph) 9" "symmetric sample_graph"
proof -
  have three: "(v < 3) = (v = 0 \<or> v = 1 \<or> v = 2)" for v :: nat by linarith
  show "graph_ok sample_graph" "weights_ok (adj sample_graph) (gV sample_graph) 9" "symmetric sample_graph"
    by (auto simp: sample_graph_eq graph_ok_def weights_ok_def symmetric_def three)
qed

lemma shortestPath_correct_witness:
  "\<exists>dist g'. shortestPath (\<lambda>_. 0) 0 sample_graph = Some (Inr (dist, g')) \<and> length dist = 3 \<and> dist ! 0 \<noteq> INT_MAX"
proof -
  obtain dist g' where s: "shortestPath (\<lambda>_. 0) 0 sample_graph = Some (Inr (dist, g'))" "length dist = gV sample_graph"
    "\<forall>v\<in>{0..<gV sample_graph}. (dist ! v = INT_MAX \<longleftrightarrow> (\<nexists>p d. route (adj sample_graph) (nat 0) p v d))"
    using shortestPath_correct [OF sample_graph_ok(1,2), of 0 "\<lambda>_. 0"] by (auto simp: sample_graph_eq)
  moreover have "route (adj sample_graph) (nat 0) [] 0 0" using route.here [of "adj sample_graph" "nat 0"] by simp
  ultimately show ?thesis by (intro exI [of _ dist] exI [of _ g']) (auto simp: sample_graph_eq)
qed

lemma addEdge_symmetric_witness:
  "\<exists>g'. addEdge 2 0 7 sample_graph = Inr g' \<and> symmetric g' \<and> (0, 7) \<in> set (adj g' ! 2)"
proof -
  obtain g' where g': "addEdge 2 0 7 sample_graph = Inr g'"
    by (auto simp: addEdge_def vertex_def sample_graph_eq Let_def)
  with addEdge_symmetric [OF sample_graph_ok(1,3,2), of 7 2 0] show ?thesis by auto
qed

lemma sample_distances:
  "map_option (map_sum id fst) (shortestPath (\<lambda>_. 0) 0 sample_graph) = Some (Inr [0, 4, 5])"
  by code_simp

end
