(* ===== verification/XfsClient.thy ===== *)
theory XfsClient
  imports XfsServer XfsGraph
begin

text \<open>
  The xFS peer (Project3/Client/client.cpp and xFs_system.cpp): its state, the messages it
  exchanges with the tracking server and other peers, its files, and the operations a
  download is made of. What surrounds the client is one record \<open>xenv\<close>: its address, which
  strings \<open>inet_aton\<close> accepts, the datagram that answers the n-th packet it sends (\<open>None\<close>
  for a timeout), OpenSSL's MD5 as a function from text to 32 hexadecimal digits, the
  values of \<open>rand()\<close>, what \<open>std::sort\<close> makes of a vector (its order among equals is not
  specified), and the choice of the graph's queue. The disk is a map from path to content;
  writing a file succeeds.
\<close>

section \<open>State\<close>

record ServerInfo =
  si_addr :: string
  si_id :: int

record xenv =
  env_ip :: string
  env_aton :: "string \<Rightarrow> bool"
  env_net :: "nat \<Rightarrow> string \<times> int \<times> string \<Rightarrow> string option"
  env_md5 :: "string \<Rightarrow> string"
  env_rand :: "nat \<Rightarrow> nat"
  env_sort_load :: "(int \<times> int) list \<Rightarrow> (int \<times> int) list"
  env_sort_dist :: "((int \<times> int) \<times> int) list \<Rightarrow> ((int \<times> int) \<times> int) list"
  env_pick :: "ipair list \<Rightarrow> nat"

record xclient =
  xc_dist :: "int list"
  localFileList :: "FileInfo list"
  trackingServerInfo :: ServerInfo
  Load :: int
  downloadPortPool :: "int list"
  global_nodeInfoList :: "ServerInfo list"
  nodeID :: int
  sharedDirectory :: string
  localLatencyGraph :: graph
  is_trackingServer_online :: bool
  disk :: "string \<Rightarrow> string option"
  xc_out :: "(string \<times> int \<times> string) list"

abbreviation MAX_LATENCY :: int where "MAX_LATENCY \<equiv> 200000"
abbreviation MAX_LOAD :: int where "MAX_LOAD \<equiv> 4000"
abbreviation MAX_FILESIZE :: nat where "MAX_FILESIZE \<equiv> 65536"

section \<open>Messages\<close>

definition xc_send :: "xenv \<Rightarrow> string \<Rightarrow> int \<Rightarrow> string \<Rightarrow> xclient \<Rightarrow> xclient result" where
  "xc_send env target targetport message s =
     (if env_aton env (cstr target)
      then Inr (s\<lparr>xc_out := xc_out s @ [(target, targetport mod 65536, cstr message)]\<rparr>)
      else Inl (Exit 1))"

text \<open>\<open>receive\<close>: ten seconds for one datagram, then the text \<open>FAIL\<close>.\<close>

definition xc_receive :: "string option \<Rightarrow> string result" where
  "xc_receive reply =
     (case reply of None \<Rightarrow> Inr ''FAIL''
      | Some d \<Rightarrow> if XFS_BUFLEN \<le> length d then Inl BufferOverflow else Inr (cstr d))"

definition command_text :: "string \<Rightarrow> string \<Rightarrow> int \<Rightarrow> string \<Rightarrow> string" where
  "command_text operationName localip clientPort request =
     snprintf_buf XFS_BUFLEN (cstr operationName @ '';'' @ localip @ '';'' @ to_string clientPort @ '';'' @ cstr request)"

definition xc_Communicate ::
  "xenv \<Rightarrow> string \<Rightarrow> string \<Rightarrow> int \<Rightarrow> int \<Rightarrow> string \<Rightarrow> xclient \<Rightarrow> (string \<times> xclient) result" where
  "xc_Communicate env operationName serverAddr serverPort clientPort request s =
     (let command = command_text operationName (env_ip env) clientPort request in
      bindE (xc_send env serverAddr serverPort command s) (\<lambda>s1.
      bindE (xc_receive (env_net env (length (xc_out s)) (serverAddr, serverPort mod 65536, command))) (\<lambda>ReceivedData.
        Inr (if ReceivedData = ''FAIL'' then [] else ReceivedData, s1))))"

definition xc_Send :: "xenv \<Rightarrow> string \<Rightarrow> string \<Rightarrow> int \<Rightarrow> int \<Rightarrow> string \<Rightarrow> xclient \<Rightarrow> xclient result" where
  "xc_Send env operationName serverAddr serverPort clientPort request s =
     xc_send env serverAddr serverPort (command_text operationName (env_ip env) clientPort request) s"

definition xc_Find :: "xenv \<Rightarrow> string \<Rightarrow> xclient \<Rightarrow> (string \<times> xclient) result" where
  "xc_Find env filename s =
     xc_Communicate env ''FIND'' (si_addr (trackingServerInfo s)) 6001 6003 filename s"

section \<open>Lists of nodes\<close>

text \<open>\<open>stoi\<close> throws for an ID that is no number; nobody catches it.\<close>

fun load_info_loop :: "string list \<Rightarrow> ServerInfo list \<Rightarrow> ServerInfo list result" where
  "load_info_loop [] nodeInfoList = Inr nodeInfoList"
| "load_info_loop (nextID # ts) nodeInfoList =
     bindE (stoi nextID) (\<lambda>nextID_int.
       load_info_loop (drop 1 ts)
         (nodeInfoList @ [\<lparr>si_addr = (case ts of [] \<Rightarrow> [] | nextAddr # _ \<Rightarrow> nextAddr), si_id = nextID_int\<rparr>]))"

definition LoadServerInfo :: "string \<Rightarrow> ServerInfo list \<Rightarrow> ServerInfo list result" where
  "LoadServerInfo receivedData nodeInfoList =
     bindE (Split receivedData '';'') (\<lambda>t. load_info_loop (rest_tokens t) nodeInfoList)"

fun GetNodeAddr :: "int \<Rightarrow> ServerInfo list \<Rightarrow> string" where
  "GetNodeAddr ID [] = []"
| "GetNodeAddr ID (it # its) = (if si_id it = ID then si_addr it else GetNodeAddr ID its)"

fun GetAddrNode :: "string \<Rightarrow> ServerInfo list \<Rightarrow> int" where
  "GetAddrNode Addr [] = - 1"
| "GetAddrNode Addr (it # its) = (if si_addr it = Addr then si_id it else GetAddrNode Addr its)"

fun RemoveNodeInfo :: "int \<Rightarrow> ServerInfo list \<Rightarrow> ServerInfo list" where
  "RemoveNodeInfo ID [] = []"
| "RemoveNodeInfo ID (it # its) = (if si_id it = ID then its else it # RemoveNodeInfo ID its)"

text \<open>A node without address in the list gets the client's own.\<close>

fun LoadInfoListByID :: "string \<Rightarrow> ServerInfo list \<Rightarrow> ServerInfo list \<Rightarrow> ServerInfo list" where
  "LoadInfoListByID ip [] nodeInfoList = []"
| "LoadInfoListByID ip (it # its) nodeInfoList =
     (let addr = GetNodeAddr (si_id it) nodeInfoList in
      it\<lparr>si_addr := (if addr = [] then ip else addr)\<rparr> # LoadInfoListByID ip its nodeInfoList)"

section \<open>Load\<close>

definition GetLoad_from :: "xenv \<Rightarrow> int \<Rightarrow> ServerInfo list \<Rightarrow> xclient \<Rightarrow> (int \<times> xclient) result" where
  "GetLoad_from env ID nodeInfoList s =
     (let nodeAddr = GetNodeAddr ID nodeInfoList in
      if nodeAddr = [] then Inr (MAX_LOAD, s)
      else bindE (xc_Communicate env ''GETLOAD'' nodeAddr 6001 6002 [] s) (\<lambda>(receivedData, s1).
        case stoi receivedData of
          Inr n \<Rightarrow> Inr (n, s1)
        | Inl e \<Rightarrow> if e = InvalidArgument then Inr (MAX_LOAD, s1) else Inl e))"

definition GetLoad :: "xenv \<Rightarrow> int \<Rightarrow> xclient \<Rightarrow> (int \<times> xclient) result" where
  "GetLoad env ID s =
     (if ID = nodeID s then Inr (Load s, s) else GetLoad_from env ID (global_nodeInfoList s) s)"

fun loads_loop :: "xenv \<Rightarrow> ServerInfo list \<Rightarrow> ServerInfo list \<Rightarrow> xclient \<Rightarrow> ((int \<times> int) list \<times> xclient) result" where
  "loads_loop env nodes [] s = Inr ([], s)"
| "loads_loop env nodes (it # its) s =
     bindE (GetLoad_from env (si_id it) nodes s) (\<lambda>(l, s1).
       bindE (loads_loop env nodes its s1) (\<lambda>(loadV, s2). Inr ((si_id it, l) # loadV, s2)))"

text \<open>\<open>dist[i]\<close> outside the vector is an undefined read.\<close>

definition dist_at :: "int list \<Rightarrow> int \<Rightarrow> int result" where
  "dist_at dist i = (if 0 \<le> i \<and> i < int (length dist) then Inr (dist ! nat i) else Inl OutOfBounds)"

fun dist_loop :: "int list \<Rightarrow> (int \<times> int) list \<Rightarrow> ((int \<times> int) \<times> int) list result" where
  "dist_loop dist [] = Inr []"
| "dist_loop dist (p # ps) =
     bindE (dist_at dist (fst p)) (\<lambda>d. bindE (dist_loop dist ps) (\<lambda>pathV. Inr ((p, d) # pathV)))"

text \<open>
  The nodes in order of load; those whose load equals the first's are \<open>upper_bound -
  lower_bound\<close> many, from the front. A list without nodes has no \<open>front()\<close>.
\<close>

definition GetMinLoadNode :: "xenv \<Rightarrow> ServerInfo list \<Rightarrow> xclient \<Rightarrow> (int \<times> xclient) result" where
  "GetMinLoadNode env nodeInfoList s =
     bindE (loads_loop env nodeInfoList nodeInfoList s) (\<lambda>(loads, s1).
       case env_sort_load env loads of
         [] \<Rightarrow> Inl OutOfBounds
       | min_pair # rest \<Rightarrow>
           let ties = takeWhile (\<lambda>p. snd p = snd min_pair) (min_pair # rest) in
           if length ties = 1 then Inr (fst min_pair, s1)
           else bindE (dist_loop (xc_dist s1) ties) (\<lambda>pathV.
             case env_sort_dist env pathV of
               [] \<Rightarrow> Inl OutOfBounds
             | best # _ \<Rightarrow> Inr (fst (fst best), s1)))"

section \<open>Ports\<close>

definition GetPort :: "xclient \<Rightarrow> (int \<times> xclient) result" where
  "GetPort s =
     (case downloadPortPool s of [] \<Rightarrow> Inl OutOfBounds
      | listen_port # pool \<Rightarrow> Inr (listen_port, s\<lparr>Load := Load s + 1, downloadPortPool := pool\<rparr>))"

definition ReturnPort :: "int \<Rightarrow> xclient \<Rightarrow> xclient" where
  "ReturnPort listen_port s = s\<lparr>downloadPortPool := downloadPortPool s @ [listen_port], Load := Load s - 1\<rparr>"

section \<open>Files\<close>

text \<open>The buffer is one byte longer than the file, and that byte is a NUL.\<close>

definition File2String :: "string \<Rightarrow> xclient \<Rightarrow> string" where
  "File2String filename s =
     (case disk s filename of None \<Rightarrow> []
      | Some c \<Rightarrow> if MAX_FILESIZE \<le> length c then [] else c @ [CHR 0x00])"

definition String2File :: "string \<Rightarrow> string \<Rightarrow> xclient \<Rightarrow> xclient" where
  "String2File filename content s = s\<lparr>disk := (disk s)(filename := Some content)\<rparr>"

definition GetMD5 :: "xenv \<Rightarrow> string \<Rightarrow> xclient \<Rightarrow> string" where
  "GetMD5 env filename s = env_md5 env (cstr (File2String filename s))"

definition CompareMD5 :: "xenv \<Rightarrow> string \<Rightarrow> string \<Rightarrow> bool" where
  "CompareMD5 env MD5_value content = (MD5_value = env_md5 env (cstr content))"

definition PackFileInfo :: "xenv \<Rightarrow> string \<Rightarrow> xclient \<Rightarrow> string" where
  "PackFileInfo env filename s =
     (let content = File2String filename s in
      if content = [] then [] else GetMD5 env filename s @ content)"

text \<open>The checksum and what is left of the content; the name is not used by the callers.\<close>

definition UnpackFileInfo :: "string \<Rightarrow> string \<times> string" where
  "UnpackFileInfo content = (take 32 content, drop 32 content)"

fun pack_files :: "FileInfo list \<Rightarrow> string \<Rightarrow> string" where
  "pack_files [] fileInfo = fileInfo"
| "pack_files (it # its) fileInfo =
     pack_files its (fileInfo @ snprintf_buf 288 (fi_name it @ '';'' @ cstr (fi_checksum it) @ '';''))"

definition PackFilelistInfo :: "xclient \<Rightarrow> string" where
  "PackFilelistInfo s = pack_files (localFileList s) (to_string (nodeID s) @ '';'')"

definition UpdateList :: "xenv \<Rightarrow> xclient \<Rightarrow> xclient result" where
  "UpdateList env s =
     bindE (xc_Communicate env ''UPDATELIST'' (si_addr (trackingServerInfo s)) 6000 6004 (PackFilelistInfo s) s)
       (\<lambda>(receivedData, s1).
          let s2 = (if receivedData = ''SUCCESS'' then s1\<lparr>is_trackingServer_online := True\<rparr> else s1)
          in Inr (if receivedData = [] then s2\<lparr>is_trackingServer_online := False\<rparr> else s2))"

definition ValidatePackedData :: "xenv \<Rightarrow> string \<Rightarrow> string \<Rightarrow> xclient \<Rightarrow> (bool \<times> xclient) result" where
  "ValidatePackedData env receivedData filename s =
     (case UnpackFileInfo receivedData of (checksum, content) \<Rightarrow>
        if CompareMD5 env checksum content
        then bindE (UpdateList env (String2File (sharedDirectory s @ filename) content s)) (\<lambda>s1. Inr (True, s1))
        else Inr (False, s))"

text \<open>The names the directory holds, in the order \<open>readdir\<close> gives them.\<close>

fun file_list_loop :: "xenv \<Rightarrow> string list \<Rightarrow> xclient \<Rightarrow> FileInfo list result" where
  "file_list_loop env [] s = Inr []"
| "file_list_loop env (d_name # ds) s =
     (if d_name = ''..'' \<or> d_name = ''.'' then file_list_loop env ds s
      else bindE (strcpy_buf 256 d_name) (\<lambda>name.
        bindE (file_list_loop env ds s) (\<lambda>fs.
          Inr (\<lparr>fi_name = name, fi_checksum = GetMD5 env (''share/'' @ name) s\<rparr> # fs))))"

definition LoadFileList :: "xenv \<Rightarrow> string \<Rightarrow> string list option \<Rightarrow> xclient \<Rightarrow> xclient result" where
  "LoadFileList env directory entries s =
     (let s1 = s\<lparr>sharedDirectory := directory\<rparr> in
      case entries of None \<Rightarrow> Inr s1
      | Some ds \<Rightarrow> bindE (file_list_loop env ds s1) (\<lambda>fs. Inr (s1\<lparr>localFileList := fs\<rparr>)))"

end
