(* ===== verification/XfsDownload.thy ===== *)
theory XfsDownload
  imports XfsClient
begin

text \<open>
  Downloads of the xFS peer (Project3/Client/client.cpp): source routes, the forwarding of
  a request, the download loop, the listener, the heartbeat and start-up. The thread that
  executes a forwarded request is one step: \<open>serve_download\<close> is what
  \<open>Client_communicate_Download\<close> does with its copy of the request. The download loop may
  run for ever; \<open>None\<close> is a run that does.
\<close>

section \<open>Source routes\<close>

definition GetNextForwardAddr :: "string \<Rightarrow> (string \<times> string) result" where
  "GetNextForwardAddr request =
     bindE (Split request '';'') (\<lambda>t.
       bindE (substr request (pos_succ (find_first_of request '';'' 0)) None) (\<lambda>r. Inr (fst (GetNext t), r)))"

definition PackForwardRequest :: "ServerInfo list \<Rightarrow> string \<Rightarrow> string" where
  "PackForwardRequest forwardList filename =
     concat (map (\<lambda>it. si_addr it @ '';'') forwardList) @ ''$;'' @ filename"

text \<open>Node 1 spoils a character of one answer in five, for testing.\<close>

definition add_noise :: "xenv \<Rightarrow> string \<Rightarrow> xclient \<Rightarrow> string result" where
  "add_noise env receivedData s =
     (if nodeID s = 1 \<and> env_rand env (length (xc_out s)) mod 5 = 1 then
        if length receivedData < 2 then Inl OutOfRange
        else Inr (receivedData[length receivedData - 2 := CHR ''k''])
      else Inr receivedData)"

text \<open>An invalid port is only reported; in both cases the port is returned.\<close>

definition ForwardDownload :: "xenv \<Rightarrow> string \<Rightarrow> xclient \<Rightarrow> (string \<times> xclient) result" where
  "ForwardDownload env request s =
     bindE (GetNextForwardAddr request) (\<lambda>(addr, request').
       if addr \<noteq> ''$'' then
         bindE (GetPort s) (\<lambda>(listen_port, s1).
         bindE (xc_Communicate env ''DOWNLOAD'' addr 6000 listen_port request' s1) (\<lambda>(r, s2).
         bindE (add_noise env r s2) (\<lambda>receivedData.
           Inr (if receivedData = [] then [] else receivedData, ReturnPort listen_port s2))))
       else Inr (PackFileInfo env (sharedDirectory s @ request') s, s))"

text \<open>The route to the node: nothing when it is too far, else up to the mark -1.\<close>

definition path_row :: "graph \<Rightarrow> int \<Rightarrow> int \<Rightarrow> int list result" where
  "path_row g src dst =
     bindE (vertex g src) (\<lambda>u. bindE (vertex g dst) (\<lambda>v.
       let row = gpath g ! u ! v; p = takeWhile (\<lambda>x. x \<noteq> - 1) row
       in if length p = length row then Inl OutOfBounds else Inr p))"

definition FillForwardList :: "xenv \<Rightarrow> ServerInfo list \<Rightarrow> int \<Rightarrow> xclient \<Rightarrow> ServerInfo list result" where
  "FillForwardList env nodeInfoList minload_id s =
     bindE (dist_at (xc_dist s) minload_id) (\<lambda>d.
       if d > MAX_LATENCY then Inr []
       else bindE (path_row (localLatencyGraph s) (nodeID s) minload_id) (\<lambda>p.
         Inr (LoadInfoListByID (env_ip env) (map (\<lambda>i. \<lparr>si_addr = [], si_id = i\<rparr>) p) nodeInfoList)))"

definition GetLatency :: "xenv \<Rightarrow> int \<Rightarrow> int \<Rightarrow> xclient \<Rightarrow> (int \<times> int list \<times> xclient) result option" where
  "GetLatency env id_1 id_2 s =
     map_option (\<lambda>r. bindE r (\<lambda>(dist, g).
       bindE (dist_at dist id_2) (\<lambda>d.
         let s1 = s\<lparr>xc_dist := dist, localLatencyGraph := g\<rparr> in
         if d > MAX_LATENCY then Inr (- 1, [], s1)
         else bindE (path_row g id_1 id_2) (\<lambda>p. Inr (d, p, s1)))))
       (shortestPath (env_pick env) id_1 (localLatencyGraph s))"

section \<open>The download loop\<close>

datatype attempt = Stored | Mismatch | Failed

definition validate :: "xenv \<Rightarrow> string \<Rightarrow> string \<Rightarrow> xclient \<Rightarrow> (attempt \<times> xclient) result" where
  "validate env receivedData filename s =
     bindE (ValidatePackedData env receivedData filename s) (\<lambda>(b, s1). Inr (if b then Stored else Mismatch, s1))"

text \<open>
  One pass for a node other than the client: along the shortest path, then directly.
\<close>

definition download_from :: "xenv \<Rightarrow> string \<Rightarrow> ServerInfo list \<Rightarrow> int \<Rightarrow> xclient \<Rightarrow> (attempt \<times> xclient) result" where
  "download_from env filename nodes minload_id s =
     bindE (FillForwardList env nodes minload_id s) (\<lambda>forwardList.
     bindE (ForwardDownload env (PackForwardRequest forwardList filename) s) (\<lambda>(receivedData, s1).
       if receivedData \<noteq> [] then validate env receivedData filename s1
       else bindE (ForwardDownload env (GetNodeAddr minload_id nodes @ '';$;'' @ filename) s1) (\<lambda>(direct, s2).
         if direct \<noteq> [] then validate env direct filename s2 else Inr (Failed, s2))))"

partial_function (option) download_loop ::
  "xenv \<Rightarrow> string \<Rightarrow> ServerInfo list \<Rightarrow> xclient \<Rightarrow> (bool \<times> xclient) result option" where
  "download_loop env filename nodes s =
     (if nodes = [] then Some (Inr (False, s))
      else case GetMinLoadNode env nodes s of
        Inl e \<Rightarrow> Some (Inl e)
      | Inr (minload_id, s1) \<Rightarrow>
          if minload_id = nodeID s1 then download_loop env filename (RemoveNodeInfo minload_id nodes) s1
          else case download_from env filename nodes minload_id s1 of
            Inl e \<Rightarrow> Some (Inl e)
          | Inr (a, s2) \<Rightarrow>
              if a = Stored then Some (Inr (True, s2))
              else if a = Mismatch then download_loop env filename nodes s2
              else download_loop env filename (RemoveNodeInfo minload_id nodes) s2)"

declare download_loop.simps [code]

text \<open>The result says whether the file was stored.\<close>

definition Download :: "xenv \<Rightarrow> string \<Rightarrow> xclient \<Rightarrow> (bool \<times> xclient) result option" where
  "Download env filename s =
     (case xc_Find env filename s of
        Inl e \<Rightarrow> Some (Inl e)
      | Inr (receivedData, s1) \<Rightarrow>
          if receivedData = [] \<or> receivedData = ''EMPTY'' then Some (Inr (False, s1))
          else case LoadServerInfo receivedData [] of
            Inl e \<Rightarrow> Some (Inl e)
          | Inr nodeInfoList \<Rightarrow>
              (case shortestPath (env_pick env) (nodeID s1) (localLatencyGraph s1) of
                 None \<Rightarrow> None
               | Some (Inl e) \<Rightarrow> Some (Inl e)
               | Some (Inr (dist, g)) \<Rightarrow>
                   download_loop env filename nodeInfoList (s1\<lparr>xc_dist := dist, localLatencyGraph := g\<rparr>)))"

section \<open>The listener\<close>

datatype xc_command = XC_UNKNOWN | XC_GETLOAD | XC_DOWNLOAD | XC_DEBUG

definition xc_command_of :: "string \<Rightarrow> xc_command" where
  "xc_command_of strCommand =
     (if strcaseeq strCommand ''GETLOAD'' then XC_GETLOAD
      else if strcaseeq strCommand ''DOWNLOAD'' then XC_DOWNLOAD
      else if strcaseeq strCommand ''DEBUG'' then XC_DEBUG
      else XC_UNKNOWN)"

text \<open>A requester without ID in the list is node -1, whose edges are outside the array.\<close>

definition serve_download :: "xenv \<Rightarrow> string \<Rightarrow> int \<Rightarrow> string \<Rightarrow> xclient \<Rightarrow> xclient result" where
  "serve_download env addr_back port_back request s =
     bindE (ForwardDownload env request s) (\<lambda>(receivedData, s1).
     bindE (getPathLength (GetAddrNode addr_back (global_nodeInfoList s1)) (nodeID s1) (localLatencyGraph s1)) (\<lambda>latency.
       xc_send env addr_back port_back receivedData s1))"

definition drop_three :: "string \<Rightarrow> string result" where
  "drop_three d =
     bindE (substr d (pos_succ (find_first_of d '';'' 0)) None) (\<lambda>d1.
     bindE (substr d1 (pos_succ (find_first_of d1 '';'' 0)) None) (\<lambda>d2.
       substr d2 (pos_succ (find_first_of d2 '';'' 0)) None))"

definition xc_listen_step :: "xenv \<Rightarrow> string \<Rightarrow> xclient \<Rightarrow> xclient result option" where
  "xc_listen_step env datagram s =
     (let d = cstr (take XFS_BUFLEN datagram) in
      case Split d '';'' of Inl e \<Rightarrow> Some (Inl e)
      | Inr t0 \<Rightarrow>
          let (strCommand, t1) = GetNext t0; (strIPAddress, t2) = GetNext t1; (strPort, t3) = GetNext t2;
              nPort = atoi strPort; command_type = xc_command_of strCommand
          in if isValidIP strIPAddress \<and> isValidPort nPort then
               (case drop_three d of Inl e \<Rightarrow> Some (Inl e)
                | Inr request \<Rightarrow>
                    (case command_type of
                       XC_GETLOAD \<Rightarrow> Some (xc_send env strIPAddress nPort (to_string (Load s)) s)
                     | XC_DEBUG \<Rightarrow> map_option (\<lambda>r. bindE r (\<lambda>(b, s1). Inr s1)) (Download env request s)
                     | XC_DOWNLOAD \<Rightarrow> Some (serve_download env strIPAddress nPort request s)
                     | XC_UNKNOWN \<Rightarrow> Some (Inr s)))
             else Some (Inr s))"

section \<open>Heartbeat and start-up\<close>

definition LoadGlobalNodeInfo :: "xenv \<Rightarrow> xclient \<Rightarrow> xclient result" where
  "LoadGlobalNodeInfo env s =
     bindE (xc_Find env ''global.txt'' (s\<lparr>global_nodeInfoList := []\<rparr>)) (\<lambda>(receivedData, s1).
       if receivedData = [] then Inr s1
       else bindE (LoadServerInfo receivedData (global_nodeInfoList s1)) (\<lambda>l. Inr (s1\<lparr>global_nodeInfoList := l\<rparr>)))"

definition ping_server :: "xenv \<Rightarrow> xclient \<Rightarrow> (string \<times> xclient) result" where
  "ping_server env s = xc_Communicate env ''HEARTBEAT'' (si_addr (trackingServerInfo s)) 6002 6005 [] s"

definition xc_heartbeat :: "xenv \<Rightarrow> xclient \<Rightarrow> xclient result" where
  "xc_heartbeat env s =
     bindE (if \<not> is_trackingServer_online s then
              bindE (ping_server env s) (\<lambda>(r, s1).
                if r = ''SUCCESS'' then UpdateList env (s1\<lparr>is_trackingServer_online := True\<rparr>) else Inr s1)
            else Inr s) (\<lambda>s2.
       if is_trackingServer_online s2 then
         bindE (ping_server env s2) (\<lambda>(r, s3).
           if r = ''SUCCESS'' then LoadGlobalNodeInfo env s3 else Inr (s3\<lparr>is_trackingServer_online := False\<rparr>))
       else Inr s2)"

fun debug_loop :: "xenv \<Rightarrow> string \<Rightarrow> ServerInfo list \<Rightarrow> xclient \<Rightarrow> xclient result" where
  "debug_loop env filename [] s = Inr s"
| "debug_loop env filename (it # its) s =
     (if si_id it = nodeID s then debug_loop env filename its s
      else bindE (xc_Send env ''DEBUG'' (si_addr it) 6006 6003 filename s) (debug_loop env filename its))"

fun download_times :: "nat \<Rightarrow> xenv \<Rightarrow> string \<Rightarrow> xclient \<Rightarrow> xclient result option" where
  "download_times n env filename s =
     (if n = 0 then Some (Inr s)
      else case Download env filename s of
        None \<Rightarrow> None
      | Some (Inl e) \<Rightarrow> Some (Inl e)
      | Some (Inr (b, s1)) \<Rightarrow> download_times (n - 1) env filename s1)"

definition Debug :: "xenv \<Rightarrow> string \<Rightarrow> xclient \<Rightarrow> xclient result option" where
  "Debug env filename s =
     (if global_nodeInfoList s = [] then Some (Inr s)
      else case debug_loop env filename (global_nodeInfoList s) s of
        Inl e \<Rightarrow> Some (Inl e)
      | Inr s1 \<Rightarrow> download_times 10 env filename s1)"

fun latency_lines :: "string list \<Rightarrow> graph \<Rightarrow> graph result" where
  "latency_lines [] g = Inr g"
| "latency_lines (line # ls) g =
     bindE (Split line '' '') (\<lambda>t0.
       let (a, t1) = GetNext t0; (b, t2) = GetNext t1; (c, t3) = GetNext t2
       in bindE (stoi a) (\<lambda>node_1. bindE (stoi b) (\<lambda>node_2. bindE (stoi c) (\<lambda>latency.
            bindE (addEdge node_1 node_2 latency g) (latency_lines ls)))))"

definition LoadLatencyList :: "string list \<Rightarrow> xclient \<Rightarrow> xclient result" where
  "LoadLatencyList lines s =
     bindE (latency_lines lines (Graph_empty (localLatencyGraph s))) (\<lambda>g. Inr (s\<lparr>localLatencyGraph := g\<rparr>))"

definition StartUp ::
  "xenv \<Rightarrow> string \<Rightarrow> int \<Rightarrow> string \<Rightarrow> string list option \<Rightarrow> string list \<Rightarrow> xclient \<Rightarrow> xclient result" where
  "StartUp env addr ID directory entries latency_file s =
     (let s1 = s\<lparr>trackingServerInfo := \<lparr>si_addr = addr, si_id = ID\<rparr>, nodeID := ID,
                 downloadPortPool := downloadPortPool s @ map int [5000..<5901]\<rparr>
      in bindE (LoadFileList env directory entries s1) (\<lambda>s2.
         bindE (LoadLatencyList latency_file s2) (UpdateList env)))"

text \<open>
  One command of the console: the line, and the line asked for next. Other lines go to the
  shell. True when it is \<open>exit\<close>.
\<close>

definition xc_console :: "xenv \<Rightarrow> string \<Rightarrow> string \<Rightarrow> xclient \<Rightarrow> (bool \<times> xclient) result option" where
  "xc_console env buffer arg s =
     (if buffer = ''download'' then map_option (\<lambda>r. bindE r (\<lambda>(b, s1). Inr (False, s1))) (Download env arg s)
      else if buffer = ''updatelist'' then Some (bindE (UpdateList env s) (\<lambda>s1. Inr (False, s1)))
      else if buffer = ''getload'' then
        Some (bindE (stoi arg) (\<lambda>ID. bindE (GetLoad env ID s) (\<lambda>(l, s1). Inr (False, s1))))
      else if buffer = ''exit'' then Some (Inr (True, s))
      else if buffer = ''find'' then Some (bindE (xc_Find env arg s) (\<lambda>(r, s1). Inr (False, s1)))
      else if buffer = ''debug'' then map_option (\<lambda>r. bindE r (\<lambda>s1. Inr (False, s1))) (Debug env arg s)
      else Some (Inr (False, s)))"

end
