(* ===== verification/XfsLoop.thy ===== *)
theory XfsLoop
  imports XfsTransfer
begin

text \<open>
  The choice of a node and the download loop (\<open>Client::GetMinLoadNode\<close>,
  \<open>Client::Download\<close> of Project3/Client/client.cpp): the node chosen has the least load
  and among those the least distance; a download changes the disk only by a file whose
  checksum was compared; the loop ends unless a node keeps answering with a bad package.
\<close>

section \<open>The least loaded node\<close>

text \<open>\<open>std::sort\<close> permutes the vector into ascending order.\<close>

definition sorts_ok :: "xenv \<Rightarrow> bool" where
  "sorts_ok env \<longleftrightarrow>
     (\<forall>xs. mset (env_sort_load env xs) = mset xs \<and> sorted (map snd (env_sort_load env xs)))
     \<and> (\<forall>xs. mset (env_sort_dist env xs) = mset xs \<and> sorted (map snd (env_sort_dist env xs)))"

lemma sample_env_sorts: "sorts_ok sample_env"
  by (simp add: sorts_ok_def sample_env_def)

text \<open>Steps that only send.\<close>

definition only_out :: "xclient \<Rightarrow> xclient \<Rightarrow> bool" where
  "only_out s s' \<longleftrightarrow> s' = s\<lparr>xc_out := xc_out s'\<rparr>"

lemma only_out_refl [simp]: "only_out s s"
  by (simp add: only_out_def)

lemma only_out_trans: "only_out s1 s2 \<Longrightarrow> only_out s2 s3 \<Longrightarrow> only_out s1 s3"
  unfolding only_out_def by (metis xclient.surjective xclient.update_convs(12))

lemma only_out_core: "only_out s s' \<Longrightarrow> core_eq s s' \<and> disk s' = disk s"
  unfolding only_out_def by (erule ssubst) (simp add: core_eq_def)

lemma xc_Communicate_only_out: "xc_Communicate env op addr sp cp req s = Inr (r, s') \<Longrightarrow> only_out s s'"
  by (auto simp: only_out_def dest!: xc_Communicate_state)

lemma GetLoad_from_state:
  assumes "GetLoad_from env ID nodes s = Inr (l, s')"
  shows "only_out s s'"
proof (cases "GetNodeAddr ID nodes = []")
  case True
  then show ?thesis using assms by (simp add: GetLoad_from_def)
next
  case False
  then obtain r s1 where c: "xc_Communicate env ''GETLOAD'' (GetNodeAddr ID nodes) 6001 6002 [] s = Inr (r, s1)"
    using assms by (auto simp: GetLoad_from_def result_simps)
  then have "s' = s1" using assms False by (auto simp: GetLoad_from_def split: sum.splits if_splits)
  then show ?thesis using xc_Communicate_only_out [OF c] by simp
qed

lemma loads_loop_state:
  "loads_loop env nodes its s = Inr (v, s') \<Longrightarrow> map fst v = map si_id its \<and> only_out s s'"
proof (induction its arbitrary: s v)
  case (Cons it its)
  then obtain l s1 v1 where "GetLoad_from env (si_id it) nodes s = Inr (l, s1)"
    "loads_loop env nodes its s1 = Inr (v1, s')" "v = (si_id it, l) # v1"
    by (auto simp: result_simps)
  then show ?case using Cons.IH [of s1 v1] only_out_trans [OF GetLoad_from_state] by auto
qed simp

lemma takeWhile_filter_sorted:
  "sorted (map f ys) \<Longrightarrow> \<forall>y\<in>set ys. m \<le> f y \<Longrightarrow> takeWhile (\<lambda>p. f p = m) ys = filter (\<lambda>p. f p = m) ys"
  for f :: "'a \<Rightarrow> int"
proof (induction ys)
  case (Cons y ys)
  show ?case
  proof (cases "f y = m")
    case True
    then show ?thesis using Cons by simp
  next
    case False
    then have "\<forall>z\<in>set ys. f z \<noteq> m" using Cons.prems by force
    then show ?thesis using False by (simp add: filter_empty_conv)
  qed
qed simp

lemma dist_loop_eq:
  "dist_loop dist ps = Inr v \<Longrightarrow> v = map (\<lambda>p. (p, dist ! nat (fst p))) ps"
  by (induction ps arbitrary: v) (auto simp: result_simps dist_at_def split: if_splits)

text \<open>Of the nodes tied at the least load, the second sort hands out one that is nearest.\<close>

lemma nearest_tie:
  assumes "sorts_ok env" "dist_loop dist ties = Inr v" "env_sort_dist env v = c # cs"
  shows "fst c \<in> set ties \<and> (\<forall>y\<in>set ties. dist ! nat (fst (fst c)) \<le> dist ! nat (fst y))"
proof -
  have cs: "mset (c # cs) = mset v" "sorted (map snd (c # cs))" using assms(1,3) by (metis sorts_ok_def)+
  have "set (c # cs) = set v" using cs(1) by (metis set_mset_mset)
  then have s: "set (c # cs) = (\<lambda>p. (p, dist ! nat (fst p))) ` set ties" using dist_loop_eq [OF assms(2)] by simp
  then have "c \<in> (\<lambda>p. (p, dist ! nat (fst p))) ` set ties" by (metis list.set_intros(1))
  then obtain b where b: "b \<in> set ties" "c = (b, dist ! nat (fst b))" by blast
  have "dist ! nat (fst b) \<le> dist ! nat (fst y)" if "y \<in> set ties" for y
  proof -
    have "(y, dist ! nat (fst y)) \<in> set (c # cs)" using that s by blast
    then show ?thesis using cs(2) b(2) by auto
  qed
  with b show ?thesis by simp
qed

lemma min_load_least:
  assumes "sorts_ok env" "GetMinLoadNode env nodes s = Inr (i, s')"
  shows "\<exists>loads. loads_loop env nodes nodes s = Inr (loads, s') \<and> i \<in> si_id ` set nodes
     \<and> (\<exists>l. (i, l) \<in> set loads \<and> (\<forall>(j, m)\<in>set loads. l \<le> m \<and> (m = l \<longrightarrow> xc_dist s ! nat i \<le> xc_dist s ! nat j)))"
proof -
  obtain loads s1 where l: "loads_loop env nodes nodes s = Inr (loads, s1)"
    using assms(2) by (auto simp: GetMinLoadNode_def result_simps)
  moreover from this obtain x xs where x: "env_sort_load env loads = x # xs"
    using assms(2) by (cases "env_sort_load env loads") (auto simp: GetMinLoadNode_def)
  ultimately have r: "(let ties = takeWhile (\<lambda>p. snd p = snd x) (x # xs) in
           if length ties = 1 then Inr (fst x, s1)
           else bindE (dist_loop (xc_dist s1) ties) (\<lambda>pathV.
             case env_sort_dist env pathV of [] \<Rightarrow> Inl OutOfBounds | best # _ \<Rightarrow> Inr (fst (fst best), s1))) = Inr (i, s')"
    using assms(2) by (auto simp: GetMinLoadNode_def)
  have st: "map fst loads = map si_id nodes" "xc_dist s1 = xc_dist s"
    using loads_loop_state [OF l] only_out_core [of s s1] by (auto simp: core_eq_def)
  have so: "mset (x # xs) = mset loads" "sorted (map snd (x # xs))"
    using assms(1) x by (metis sorts_ok_def)+
  have set: "set loads = set (x # xs)" using so(1) by (metis set_mset_mset)
  have least: "\<forall>y\<in>set (x # xs). snd x \<le> snd y" using so(2) by auto
  let ?ties = "filter (\<lambda>p. snd p = snd x) (x # xs)"
  have tw: "takeWhile (\<lambda>p. snd p = snd x) (x # xs) = ?ties"
    by (rule takeWhile_filter_sorted [OF so(2) least])
  obtain b where b: "b \<in> set ?ties" "i = fst b" "s' = s1"
    and near: "\<forall>y\<in>set ?ties. xc_dist s ! nat (fst b) \<le> xc_dist s ! nat (fst y)"
  proof (cases "length ?ties = 1")
    case True
    then have "?ties = [x]" by (cases "filter (\<lambda>p. snd p = snd x) xs") auto
    then show thesis using r True that [of x] unfolding tw by (auto simp: Let_def)
  next
    case False
    then obtain v where v: "dist_loop (xc_dist s) ?ties = Inr v"
      "(case env_sort_dist env v of [] \<Rightarrow> Inl OutOfBounds | best # _ \<Rightarrow> Inr (fst (fst best), s1)) = Inr (i, s')"
      using r st(2) unfolding tw Let_def by (auto simp: result_simps)
    then obtain c cs where "env_sort_dist env v = c # cs" "i = fst (fst c)" "s' = s1" by (auto split: list.splits)
    with nearest_tie [OF assms(1) v(1)] show thesis using that [of "fst c"] by blast
  qed
  have "b \<in> set (x # xs)" using b(1) by (simp only: set_filter mem_Collect_eq)
  then have "(i, snd b) \<in> set loads" using b(2) set by simp
  moreover from this have "i \<in> si_id ` set nodes"
    using st(1) by (metis fst_conv image_eqI list.set_map)
  moreover have "\<forall>(j, m)\<in>set loads. snd b \<le> m \<and> (m = snd b \<longrightarrow> xc_dist s ! nat i \<le> xc_dist s ! nat j)"
    using near b set least by (auto simp del: set_filter) (auto split: if_splits)
  ultimately show ?thesis using l b(3) by blast
qed

text \<open>
  The node chosen. When \<open>std::sort\<close> sorts, the node is in the list, no node reported a
  smaller load, and none with the same load is nearer.
\<close>

theorem min_load_node:
  assumes "sorts_ok env" "GetMinLoadNode env nodes s = Inr (i, s')"
  shows "\<exists>loads. loads_loop env nodes nodes s = Inr (loads, s') \<and> i \<in> si_id ` set nodes
     \<and> (\<exists>l. (i, l) \<in> set loads \<and> (\<forall>(j, m)\<in>set loads. l \<le> m \<and> (m = l \<longrightarrow> xc_dist s ! nat i \<le> xc_dist s ! nat j)))"
  using assms by (rule min_load_least)

definition two_nodes :: "ServerInfo list" where
  "two_nodes = [\<lparr>si_addr = ''10.0.0.2'', si_id = 2\<rparr>, \<lparr>si_addr = ''10.0.0.3'', si_id = 1\<rparr>]"

lemma min_load_node_witness:
  "\<exists>s'. GetMinLoadNode sample_env two_nodes (sample_peer 0 (\<lambda>_. None)) = Inr (1, s')
     \<and> (\<exists>loads. loads_loop sample_env two_nodes two_nodes (sample_peer 0 (\<lambda>_. None)) = Inr (loads, s'))"
proof -
  obtain s' where g: "GetMinLoadNode sample_env two_nodes (sample_peer 0 (\<lambda>_. None)) = Inr (1, s')"
    by (simp add: GetMinLoadNode_def GetLoad_from_def xc_Communicate_def xc_send_def xc_receive_def Let_def two_nodes_def
        sample_env_def sample_peer_def stoi_def strtol10_def dist_at_def)
  from min_load_node [OF sample_env_sorts g] g show ?thesis by blast
qed

section \<open>What a download changes\<close>

text \<open>The file written: what follows the checksum of some package, compared with it.\<close>

definition stored :: "xenv \<Rightarrow> string \<Rightarrow> xclient \<Rightarrow> xclient \<Rightarrow> bool" where
  "stored env filename s s' \<longleftrightarrow> (\<exists>p. disk s' = (disk s)(sharedDirectory s @ filename \<mapsto> drop 32 p)
     \<and> take 32 p = env_md5 env (cstr (drop 32 p)))"

definition attempt_ok :: "xenv \<Rightarrow> string \<Rightarrow> bool \<Rightarrow> xclient \<Rightarrow> xclient \<Rightarrow> bool" where
  "attempt_ok env filename b s s' \<longleftrightarrow> core_eq s s' \<and> (if b then stored env filename s s' else disk s' = disk s)"

lemma attempt_ok_trans:
  "core_eq s1 s2 \<Longrightarrow> disk s2 = disk s1 \<Longrightarrow> attempt_ok env filename b s2 s3 \<Longrightarrow> attempt_ok env filename b s1 s3"
  by (auto simp: attempt_ok_def core_eq_def stored_def)

lemma UpdateList_state:
  assumes "UpdateList env s = Inr s'"
  shows "core_eq s s' \<and> disk s' = disk s"
proof -
  obtain r s1 where c: "xc_Communicate env ''UPDATELIST'' (si_addr (trackingServerInfo s)) 6000 6004 (PackFilelistInfo s) s = Inr (r, s1)"
    and s': "s' = (let s2 = (if r = ''SUCCESS'' then s1\<lparr>is_trackingServer_online := True\<rparr> else s1)
          in if r = [] then s2\<lparr>is_trackingServer_online := False\<rparr> else s2)"
    using assms by (auto simp: UpdateList_def Let_def result_simps)
  show ?thesis using xc_Communicate_state [OF c] by (auto simp: s' core_eq_def)
qed

lemma validate_state:
  assumes "validate env r filename s = Inr (a, s')"
  shows "a \<noteq> Failed \<and> attempt_ok env filename (a = Stored) s s'"
proof (cases "take 32 r = env_md5 env (cstr (drop 32 r))")
  case True
  then obtain s1 where u: "UpdateList env (String2File (sharedDirectory s @ filename) (drop 32 r) s) = Inr s1" "a = Stored" "s' = s1"
    using assms by (auto simp: validate_def ValidatePackedData_def UnpackFileInfo_def CompareMD5_def result_simps)
  show ?thesis
    using UpdateList_state [OF u(1)] True by (auto simp: u attempt_ok_def core_eq_def stored_def String2File_def)
next
  case False
  then show ?thesis
    using assms by (auto simp: validate_def ValidatePackedData_def UnpackFileInfo_def CompareMD5_def attempt_ok_def)
qed

lemma download_from_state:
  assumes "download_from env filename nodes i s = Inr (a, s')"
  shows "attempt_ok env filename (a = Stored) s s'"
proof -
  obtain fl r s1 where f: "FillForwardList env nodes i s = Inr fl"
    "ForwardDownload env (PackForwardRequest fl filename) s = Inr (r, s1)"
    using assms by (auto simp: download_from_def result_simps)
  note c1 = ForwardDownload_state [OF f(2)]
  show ?thesis
  proof (cases "r = []")
    case False
    then have "validate env r filename s1 = Inr (a, s')" using assms f by (simp add: download_from_def)
    from validate_state [OF this] show ?thesis using attempt_ok_trans c1 by blast
  next
    case True
    then obtain d s2 where d: "ForwardDownload env (GetNodeAddr i nodes @ '';$;'' @ filename) s1 = Inr (d, s2)"
      and a: "(if d \<noteq> [] then validate env d filename s2 else Inr (Failed, s2)) = Inr (a, s')"
      using assms f by (auto simp: download_from_def result_simps)
    note c2 = ForwardDownload_state [OF d]
    have "attempt_ok env filename (a = Stored) s2 s'"
      using a validate_state [of env d filename s2 a s'] by (auto simp: attempt_ok_def split: if_splits)
    then show ?thesis using attempt_ok_trans c1 c2 core_eq_trans by metis
  qed
qed

lemma GetMinLoadNode_state: "GetMinLoadNode env nodes s = Inr (i, s') \<Longrightarrow> core_eq s s' \<and> disk s' = disk s"
proof -
  assume a: "GetMinLoadNode env nodes s = Inr (i, s')"
  then obtain loads s1 where l: "loads_loop env nodes nodes s = Inr (loads, s1)"
    by (auto simp: GetMinLoadNode_def result_simps)
  obtain x xs where x: "env_sort_load env loads = x # xs"
    using a l by (cases "env_sort_load env loads") (auto simp: GetMinLoadNode_def)
  have "s' = s1"
  proof (cases "length (takeWhile (\<lambda>p. snd p = snd x) (x # xs)) = 1")
    case True
    then show ?thesis using a l x by (simp add: GetMinLoadNode_def Let_def)
  next
    case False
    have "bindE (dist_loop (xc_dist s1) (takeWhile (\<lambda>p. snd p = snd x) (x # xs)))
        (\<lambda>v. case env_sort_dist env v of [] \<Rightarrow> Inl OutOfBounds | best # _ \<Rightarrow> Inr (fst (fst best), s1)) = Inr (i, s')"
      using a by (simp only: GetMinLoadNode_def Let_def l x bindE.simps prod.case list.case False if_False)
    then obtain v where "(case env_sort_dist env v of [] \<Rightarrow> Inl OutOfBounds | best # _ \<Rightarrow> Inr (fst (fst best), s1)) = Inr (i, s')"
      unfolding bindE_Inr_iff by blast
    then show ?thesis by (cases "env_sort_dist env v") auto
  qed
  then show ?thesis using loads_loop_state [OF l] only_out_core by blast
qed

text \<open>
  Reasoning about a loop that returned: an invariant that survives the choice of a node, a
  failed attempt and the removal of a node, and what a successful attempt gives.
\<close>

lemma download_loop_rule:
  assumes "download_loop env filename nodes s = Some (Inr (b, s'))" "I nodes s"
    and "\<And>nodes s i s1. I nodes s \<Longrightarrow> GetMinLoadNode env nodes s = Inr (i, s1) \<Longrightarrow> I nodes s1"
    and "\<And>nodes s i. I nodes s \<Longrightarrow> I (RemoveNodeInfo i nodes) s"
    and "\<And>nodes t s i a s2. I nodes s \<Longrightarrow> GetMinLoadNode env nodes t = Inr (i, s) \<Longrightarrow>
           download_from env filename nodes i s = Inr (a, s2) \<Longrightarrow> if a = Stored then Q s2 else I nodes s2"
  shows "if b then Q s' else \<exists>nodes'. I nodes' s'"
proof -
  have "\<forall>b s'. env' = env \<longrightarrow> f = filename \<longrightarrow> I nodes s \<longrightarrow> y = Inr (b, s') \<longrightarrow> (if b then Q s' else \<exists>nodes'. I nodes' s')"
    if "download_loop env' f nodes s = Some y" for env' f nodes s y
  proof (rule download_loop.raw_induct [where P = "\<lambda>env' f nodes s y. \<forall>b s'. env' = env \<longrightarrow> f = filename \<longrightarrow> I nodes s \<longrightarrow>
      y = Inr (b, s') \<longrightarrow> (if b then Q s' else \<exists>nodes'. I nodes' s')", OF _ that], intro allI impI, goal_cases)
    case (1 loop env' f nodes s y b s')
    show ?case
    proof (cases "nodes = []")
      case True
      then show ?thesis using 1(2,5,6) by auto
    next
      case ne: False
      then obtain i s1 where g: "GetMinLoadNode env nodes s = Inr (i, s1)"
        using 1(2-6) by (auto split: sum.splits)
      note i1 = assms(3) [OF 1(5) g]
      show ?thesis
      proof (cases "i = nodeID s1")
        case True
        then show ?thesis using 1 ne g assms(4) [OF i1] by auto
      next
        case False
        then obtain a s2 where d: "download_from env filename nodes i s1 = Inr (a, s2)"
          using 1(2-6) ne g by (auto split: sum.splits)
        then show ?thesis
          using 1 ne g False assms(4) assms(5) [OF i1 _ d] i1 by (cases a) fastforce+
      qed
    qed
  qed
  from this [OF assms(1)] assms(2) show ?thesis by blast
qed

lemma download_loop_state:
  assumes "download_loop env filename nodes s = Some (Inr (b, s'))"
  shows "attempt_ok env filename b s s'"
proof -
  have "if b then attempt_ok env filename True s s' else \<exists>nodes' :: ServerInfo list. core_eq s s' \<and> disk s' = disk s"
  proof (rule download_loop_rule [where I = "\<lambda>_ t. core_eq s t \<and> disk t = disk s"
        and Q = "attempt_ok env filename True s", OF assms])
    show "core_eq s s1 \<and> disk s1 = disk s" if "core_eq s t \<and> disk t = disk s" "GetMinLoadNode env nodes t = Inr (i, s1)" for nodes t i s1
      using that GetMinLoadNode_state [OF that(2)] core_eq_trans by auto
    show "if a = Stored then attempt_ok env filename True s s2 else core_eq s s2 \<and> disk s2 = disk s"
      if "core_eq s t \<and> disk t = disk s" "download_from env filename nodes i t = Inr (a, s2)" for nodes t i a s2
      using that attempt_ok_trans [OF _ _ download_from_state [OF that(2)], of s] by (auto simp: attempt_ok_def)
  qed simp_all
  then show ?thesis by (cases b) (simp_all add: attempt_ok_def)
qed

lemma Download_state:
  assumes "Download env filename s = Some (Inr (b, s'))"
  shows "\<exists>out dist g. attempt_ok env filename b (s\<lparr>xc_out := out, xc_dist := dist, localLatencyGraph := g\<rparr>) s'"
proof -
  obtain r s1 where f: "xc_Find env filename s = Inr (r, s1)"
    using assms by (auto simp: Download_def split: sum.splits)
  then obtain out where s1: "s1 = s\<lparr>xc_out := out\<rparr>"
    using xc_Communicate_state by (fastforce simp: xc_Find_def)
  show ?thesis
  proof (cases "r = [] \<or> r = ''EMPTY''")
    case True
    then have "b = False" "s' = s\<lparr>xc_out := out, xc_dist := xc_dist s, localLatencyGraph := localLatencyGraph s\<rparr>"
      using assms f by (auto simp: Download_def s1)
    then show ?thesis by (intro exI [of _ out] exI [of _ "xc_dist s"] exI [of _ "localLatencyGraph s"]) (simp add: attempt_ok_def)
  next
    case False
    then obtain nodes dist g where "download_loop env filename nodes (s1\<lparr>xc_dist := dist, localLatencyGraph := g\<rparr>) = Some (Inr (b, s'))"
      using assms f by (auto simp: Download_def split: sum.splits option.splits)
    then show ?thesis using download_loop_state by (intro exI [of _ out] exI [of _ dist] exI [of _ g]) (auto simp: s1)
  qed
qed


section \<open>Whether the loop ends\<close>

text \<open>
  A network in which every answer to a download request is empty, a timeout or a package
  whose checksum agrees.
\<close>

definition valid_package :: "xenv \<Rightarrow> string \<Rightarrow> bool" where
  "valid_package env r \<longleftrightarrow> r = [] \<or> take 32 r = env_md5 env (cstr (drop 32 r))"

definition honest :: "xenv \<Rightarrow> bool" where
  "honest env \<longleftrightarrow> (\<forall>n t p m d. env_net env n (t, p, m) = Some d \<and> take 9 m = ''DOWNLOAD;'' \<longrightarrow>
     cstr d = ''FAIL'' \<or> valid_package env (cstr d))"

lemma Communicate_valid:
  assumes "honest env" "xc_Communicate env ''DOWNLOAD'' addr 6000 p req s = Inr (r, s')"
  shows "valid_package env r"
proof -
  have t: "take 9 (command_text ''DOWNLOAD'' (env_ip env) p req) = ''DOWNLOAD;''"
    by (simp add: command_text_def snprintf_buf_def cstr_def)
  obtain x where x: "xc_receive (env_net env (length (xc_out s)) (addr, 6000, command_text ''DOWNLOAD'' (env_ip env) p req)) = Inr x"
    "r = (if x = ''FAIL'' then [] else x)"
    using assms(2) by (auto simp: xc_Communicate_def Let_def result_simps)
  show ?thesis
  proof (cases "x = ''FAIL''")
    case True
    then show ?thesis using x by (simp add: valid_package_def)
  next
    case False
    then obtain d where "env_net env (length (xc_out s)) (addr, 6000, command_text ''DOWNLOAD'' (env_ip env) p req) = Some d" "x = cstr d"
      using x(1) by (auto simp: xc_receive_def split: option.splits if_splits)
    then show ?thesis using assms(1) t x(2) False unfolding honest_def by metis
  qed
qed

lemma ForwardDownload_valid:
  assumes "honest env" "md5_ok (env_md5 env)" "nodeID s \<noteq> 1" "ForwardDownload env request s = Inr (r, s')"
  shows "valid_package env r"
proof (cases "tok_at (tokens '';'' request) 0 = ''$''")
  case True
  then have "r = PackFileInfo env (sharedDirectory s @ skip_field request) s"
    using assms(4) by (auto simp: ForwardDownload_def GetNextForwardAddr_ok)
  then show ?thesis
    using assms(2) by (auto simp: valid_package_def PackFileInfo_def Let_def GetMD5_def md5_ok_def)
next
  case False
  then obtain p s1 x s2 where "GetPort s = Inr (p, s1)"
    "xc_Communicate env ''DOWNLOAD'' (tok_at (tokens '';'' request) 0) 6000 p (skip_field request) s1 = Inr (x, s2)"
    and n: "add_noise env x s2 = Inr r"
    using assms(4) by (auto simp: ForwardDownload_def GetNextForwardAddr_ok result_simps split: if_splits)
  moreover from this have "nodeID s2 = nodeID s"
    using xc_Communicate_state by (fastforce simp: GetPort_def split: list.splits)
  ultimately show ?thesis using Communicate_valid [OF assms(1)] assms(3) by (auto simp: add_noise_def)
qed

lemma validate_not_mismatch: "valid_package env r \<Longrightarrow> r \<noteq> [] \<Longrightarrow> validate env r filename s \<noteq> Inr (Mismatch, s')"
  by (auto simp: validate_def ValidatePackedData_def UnpackFileInfo_def CompareMD5_def valid_package_def result_simps)

lemma download_from_honest:
  assumes "honest env" "md5_ok (env_md5 env)" "nodeID s \<noteq> 1"
  shows "download_from env filename nodes i s \<noteq> Inr (Mismatch, s')"
proof
  assume a: "download_from env filename nodes i s = Inr (Mismatch, s')"
  then obtain fl r s1 where f: "FillForwardList env nodes i s = Inr fl"
    "ForwardDownload env (PackForwardRequest fl filename) s = Inr (r, s1)"
    by (auto simp: download_from_def result_simps)
  have n: "nodeID s1 \<noteq> 1" using ForwardDownload_state [OF f(2)] assms(3) by (simp add: core_eq_def)
  show False
  proof (cases "r = []")
    case False
    then show False
      using a f validate_not_mismatch [OF ForwardDownload_valid [OF assms f(2)]] by (simp add: download_from_def)
  next
    case True
    then obtain d s2 where d: "ForwardDownload env (GetNodeAddr i nodes @ '';$;'' @ filename) s1 = Inr (d, s2)"
      "(if d \<noteq> [] then validate env d filename s2 else Inr (Failed, s2)) = Inr (Mismatch, s')"
      using a f by (auto simp: download_from_def result_simps)
    then show False
      using validate_not_mismatch [OF ForwardDownload_valid [OF assms(1,2) n d(1)]] by (auto split: if_splits)
  qed
qed

lemma length_RemoveNodeInfo: "i \<in> si_id ` set nodes \<Longrightarrow> length (RemoveNodeInfo i nodes) < length nodes"
  by (induction nodes) auto

lemma download_loop_ends:
  assumes "honest env" "md5_ok (env_md5 env)" "sorts_ok env" "nodeID s \<noteq> 1"
  shows "\<exists>y. download_loop env filename nodes s = Some y"
  using assms(4)
proof (induction "length nodes" arbitrary: nodes s rule: less_induct)
  case less
  show ?case
  proof (cases "nodes = [] \<or> (\<exists>e. GetMinLoadNode env nodes s = Inl e)")
    case True
    then show ?thesis by (subst download_loop.simps) auto
  next
    case False
    then obtain i s1 where g: "GetMinLoadNode env nodes s = Inr (i, s1)" "nodes \<noteq> []"
      by (cases "GetMinLoadNode env nodes s") auto
    have n: "nodeID s1 \<noteq> 1" using GetMinLoadNode_state [OF g(1)] less.prems by (simp add: core_eq_def)
    have "i \<in> si_id ` set nodes" using min_load_least [OF assms(3) g(1)] by blast
    then have IH: "\<exists>y. download_loop env filename (RemoveNodeInfo i nodes) s' = Some y" if "nodeID s' \<noteq> 1" for s'
      using less.hyps [OF length_RemoveNodeInfo] that by blast
    show ?thesis
    proof (cases "i = nodeID s1 \<or> (\<exists>e. download_from env filename nodes i s1 = Inl e)")
      case True
      then show ?thesis using IH [OF n] g by (subst download_loop.simps) auto
    next
      case False
      then obtain a s2 where d: "download_from env filename nodes i s1 = Inr (a, s2)"
        by (cases "download_from env filename nodes i s1") auto
      have "a \<noteq> Mismatch" using download_from_honest [OF assms(1,2) n] d by metis
      moreover have "nodeID s2 \<noteq> 1" using download_from_state [OF d] n by (simp add: attempt_ok_def core_eq_def)
      ultimately show ?thesis using IH [of s2] g False d by (subst download_loop.simps) auto
    qed
  qed
qed


text \<open>A network whose every answer is a number below 2^31 and no package.\<close>

definition spoiled :: "xenv \<Rightarrow> bool" where
  "spoiled env \<longleftrightarrow> (\<forall>n p. \<exists>d. env_net env n p = Some d \<and> length d < 65536 \<and> ok (stoi (cstr d))
     \<and> cstr d \<noteq> ''FAIL'' \<and> \<not> valid_package env (cstr d))"

lemma spoiled_Communicate:
  assumes "spoiled env" "env_aton env (cstr a)"
  shows "\<exists>r out. xc_Communicate env op a sp cp req s = Inr (r, s\<lparr>xc_out := out\<rparr>) \<and> ok (stoi r) \<and> \<not> valid_package env r"
proof -
  obtain d where "env_net env (length (xc_out s)) (a, sp mod 65536, command_text op (env_ip env) cp req) = Some d"
    "length d < 65536" "ok (stoi (cstr d))" "cstr d \<noteq> ''FAIL''" "\<not> valid_package env (cstr d)"
    using assms(1) unfolding spoiled_def by blast
  then show ?thesis using assms(2) by (auto simp: xc_Communicate_def xc_send_def xc_receive_def Let_def)
qed

text \<open>A client with one node to load from, at an address it can send to.\<close>

definition stuck :: "xenv \<Rightarrow> ServerInfo \<Rightarrow> ServerInfo \<Rightarrow> ServerInfo list \<Rightarrow> xclient \<Rightarrow> bool" where
  "stuck env n h hops s \<longleftrightarrow> nodeID s \<noteq> 1 \<and> si_id n \<noteq> nodeID s \<and> downloadPortPool s \<noteq> []
     \<and> env_aton env (cstr (si_addr n)) \<and> FillForwardList env [n] (si_id n) s = Inr (h # hops)
     \<and> field_ok (si_addr h) \<and> si_addr h \<noteq> ''$'' \<and> env_aton env (cstr (si_addr h))"

lemma stuck_core: "core_eq s s' \<Longrightarrow> stuck env n h hops s \<Longrightarrow> stuck env n h hops s'"
  by (auto simp: stuck_def core_eq_def FillForwardList_def cong: if_cong)

lemma spoiled_forward:
  assumes "spoiled env" "stuck env n h hops s"
  shows "\<exists>r s'. ForwardDownload env (PackForwardRequest (h # hops) filename) s = Inr (r, s') \<and> \<not> valid_package env r"
proof -
  obtain p ps where p: "downloadPortPool s = p # ps" using assms(2) by (cases "downloadPortPool s") (auto simp: stuck_def)
  let ?s1 = "s\<lparr>Load := Load s + 1, downloadPortPool := ps\<rparr>"
  obtain r out where c: "xc_Communicate env ''DOWNLOAD'' (si_addr h) 6000 p (PackForwardRequest hops filename) ?s1 = Inr (r, ?s1\<lparr>xc_out := out\<rparr>)"
    "\<not> valid_package env r"
    using spoiled_Communicate [OF assms(1), of "si_addr h" "''DOWNLOAD''" 6000 p "PackForwardRequest hops filename" ?s1]
      assms(2) by (auto simp: stuck_def)
  have "r \<noteq> []" using c(2) by (auto simp: valid_package_def)
  then show ?thesis using assms(2) c p by (auto simp: ForwardDownload_def pack_Cons stuck_def GetPort_def add_noise_def)
qed

lemma spoiled_load:
  assumes "spoiled env" "sorts_ok env" "stuck env n h hops s"
  shows "\<exists>s'. GetMinLoadNode env [n] s = Inr (si_id n, s')"
proof -
  have "\<exists>l s1. GetLoad_from env (si_id n) [n] s = Inr (l, s1)"
  proof (cases "si_addr n = []")
    case False
    obtain r out where c: "xc_Communicate env ''GETLOAD'' (si_addr n) 6001 6002 [] s = Inr (r, s\<lparr>xc_out := out\<rparr>)" "ok (stoi r)"
      using spoiled_Communicate [OF assms(1), of "si_addr n" "''GETLOAD''" 6001 6002 "[]" s] assms(3) by (auto simp: stuck_def)
    then show ?thesis using False by (auto simp: GetLoad_from_def ok_def)
  qed (simp add: GetLoad_from_def)
  then obtain l s1 where l: "GetLoad_from env (si_id n) [n] s = Inr (l, s1)" by blast
  have "mset (env_sort_load env [(si_id n, l)]) = mset [(si_id n, l)]" using assms(2) unfolding sorts_ok_def by blast
  then have "env_sort_load env [(si_id n, l)] = [(si_id n, l)]" by simp
  then show ?thesis by (simp add: GetMinLoadNode_def l)
qed

text \<open>
  C27: a download that never ends. A single node whose packages always fail their checksum
  keeps the loop running for ever: \<open>continue\<close> after a mismatch does not remove the node.
\<close>

theorem download_diverges:
  assumes "spoiled env" "sorts_ok env" "stuck env n h hops s"
  shows "download_loop env filename [n] s = None"
proof (rule ccontr)
  assume "download_loop env filename [n] s \<noteq> None"
  then obtain y where y: "download_loop env filename [n] s = Some y" by auto
  have "\<not> (env = env0 \<and> nodes = [n] \<and> stuck env n h hops s)"
    if "spoiled env0" "sorts_ok env0" "download_loop env filename nodes s = Some y" for env env0 filename nodes s y
  proof (rule download_loop.raw_induct [where P = "\<lambda>env filename nodes s y. \<not> (env = env0 \<and> nodes = [n] \<and> stuck env n h hops s)",
        OF _ that(3)], goal_cases)
    case (1 loop env filename nodes s y)
    show ?case
    proof
      assume a: "env = env0 \<and> nodes = [n] \<and> stuck env n h hops s"
      then have e: "spoiled env" "sorts_ok env" "stuck env n h hops s" using that by (metis, metis, metis)
      obtain s1 where g: "GetMinLoadNode env [n] s = Inr (si_id n, s1)" using spoiled_load [OF e] by blast
      have st: "stuck env n h hops s1" using a stuck_core GetMinLoadNode_state [OF g] by blast
      then have i: "si_id n \<noteq> nodeID s1" and ff: "FillForwardList env [n] (si_id n) s1 = Inr (h # hops)"
        by (simp_all add: stuck_def)
      obtain r s2 where f: "ForwardDownload env (PackForwardRequest (h # hops) filename) s1 = Inr (r, s2)" "\<not> valid_package env r"
        using spoiled_forward [OF e(1) st] by blast
      have "r \<noteq> []" using f(2) by (auto simp: valid_package_def)
      then have d: "download_from env filename [n] (si_id n) s1 = Inr (Mismatch, s2)"
        using f by (simp add: download_from_def ff validate_def ValidatePackedData_def UnpackFileInfo_def CompareMD5_def valid_package_def)
      have "stuck env n h hops s2" using stuck_core [OF _ st] ForwardDownload_state [OF f(1)] by blast
      moreover have "loop env filename [n] s2 = Some y"
        using 1(2) a g d i by simp
      ultimately show False using 1(1) a by blast
    qed
  qed
  from this [OF assms(1,2) y] assms(3) show False by blast
qed

definition routed_peer :: xclient where
  "routed_peer = (sample_peer 0 (\<lambda>_. None))\<lparr>localLatencyGraph :=
     \<lparr>gV = 3, adj = [[(2, 9)], [], [(0, 9)]], gpath = [[[- 1, - 1, - 1], [- 1, - 1, - 1], [2, - 1, - 1]], [], []]\<rparr>\<rparr>"

lemma download_diverges_witness:
  "download_loop (sample_env\<lparr>env_net := \<lambda>_ _. Some ''0''\<rparr>) ''a'' [\<lparr>si_addr = ''10.0.0.2'', si_id = 2\<rparr>] routed_peer = None"
proof (rule download_diverges [where hops = "[]" and h = "\<lparr>si_addr = ''10.0.0.2'', si_id = 2\<rparr>"])
  have "stoi ''0'' = Inr 0" by code_simp
  moreover have "length (sample_md5 []) = 32" using sample_md5_ok by (simp add: md5_ok_def)
  then have "sample_md5 [] \<noteq> ''0''" by auto
  ultimately show "spoiled (sample_env\<lparr>env_net := \<lambda>_ _. Some ''0''\<rparr>)"
    by (auto simp: spoiled_def sample_env_def valid_package_def)
  show "sorts_ok (sample_env\<lparr>env_net := \<lambda>_ _. Some ''0''\<rparr>)" using sample_env_sorts by (simp add: sorts_ok_def)
  show "stuck (sample_env\<lparr>env_net := \<lambda>_ _. Some ''0''\<rparr>) \<lparr>si_addr = ''10.0.0.2'', si_id = 2\<rparr> \<lparr>si_addr = ''10.0.0.2'', si_id = 2\<rparr> [] routed_peer"
    by (simp add: stuck_def routed_peer_def sample_peer_def sample_env_def FillForwardList_def dist_at_def path_row_def vertex_def field_ok_def)
qed

definition answering_env :: xenv where
  "answering_env = sample_env\<lparr>env_net := (\<lambda>n _. if n = 0 then Some ''2;10.0.0.2'' else if n = 1 then Some ''0''
     else if n = 2 then Some (sample_md5 ''text'' @ ''text'') else Some ''SUCCESS'')\<rparr>"

lemma sample_download:
  "map_option (map_sum id (\<lambda>(b, s). (b, disk s ''share/a'', map fst (xc_out s)))) (Download answering_env ''a'' routed_peer)
     = Some (Inr (True, Some ''text'', [''10.0.0.9'', ''10.0.0.2'', ''10.0.0.2'', ''10.0.0.9'']))"
  by code_simp


lemma sample_env_honest: "honest sample_env"
  by (simp add: honest_def sample_env_def)


end
