(* ===== verification/PeerProcess.thy ===== *)
theory PeerProcess
  imports XfsLoop Process
begin

text \<open>
  An xFS client as a process (Project3/Client/client.cpp): its three listener threads, which
  run the same function on the ports 6000, 6001 and 6006, the heartbeat, and the console of
  \<open>main\<close>. Unlike the servers' consoles, \<open>exit\<close> does not put \<open>Is_live\<close> down, so the flag stays
  true. A step that does not return is \<open>Blocked\<close>.
\<close>

section \<open>The threads\<close>

definition Client_listenImpl :: "xenv \<Rightarrow> bool \<Rightarrow> recv_event \<Rightarrow> xclient \<Rightarrow> xclient result option" where
  "Client_listenImpl env live r s =
     (case r of Datagram d \<Rightarrow> xc_listen_step env d s | Silence \<Rightarrow> Some (if live then Inr s else Inl (Exit (- 1))))"

record peer_process =
  pp_client :: xclient
  pp_live :: bool
  pp_console :: bool
  pp_shell :: "string list"

definition returns :: "'a result option \<Rightarrow> 'a result" where
  "returns m = (case m of None \<Rightarrow> Inl Blocked | Some r \<Rightarrow> r)"

definition on_client :: "(bool \<Rightarrow> xclient \<Rightarrow> xclient result option) \<Rightarrow> peer_process \<Rightarrow> peer_process result" where
  "on_client f p = bindE (returns (f (pp_live p) (pp_client p))) (\<lambda>s. Inr (p\<lparr>pp_client := s\<rparr>))"

text \<open>A line of the console with the line asked for next; after \<open>exit\<close>, \<open>main\<close> waits for the threads.\<close>

definition peer_console :: "xenv \<Rightarrow> string \<Rightarrow> string \<Rightarrow> peer_process \<Rightarrow> peer_process result" where
  "peer_console env buffer arg p =
     bindE (returns (xc_console env buffer arg (pp_client p))) (\<lambda>(over, s).
       Inr (p\<lparr>pp_client := s, pp_console := \<not> over,
              pp_shell := pp_shell p @ (if buffer \<in> {''download'', ''updatelist'', ''getload'', ''exit'', ''find'', ''debug''}
                                        then [] else [buffer])\<rparr>))"

definition peer_main ::
  "xenv \<Rightarrow> string list \<Rightarrow> string list option \<Rightarrow> string list \<Rightarrow> xclient \<Rightarrow> peer_process result" where
  "peer_main env argv entries latency_file s =
     (case argv of
        addr # ID # _ \<Rightarrow>
          bindE (stoi ID) (\<lambda>n. bindE (StartUp env addr n ''share/'' entries latency_file s) (\<lambda>s1.
            Inr \<lparr>pp_client = s1, pp_live = True, pp_console = True, pp_shell = []\<rparr>))
      | _ \<Rightarrow> Inl (Exit (- 1)))"

datatype peer_event = DownloadSocket recv_event | GetloadSocket recv_event | DebugSocket recv_event | Beat | Entered string string

fun peer_step :: "xenv \<Rightarrow> peer_event \<Rightarrow> peer_process \<Rightarrow> peer_process result" where
  "peer_step env (DownloadSocket r) p = on_client (\<lambda>live. Client_listenImpl env live r) p"
| "peer_step env (GetloadSocket r) p = on_client (\<lambda>live. Client_listenImpl env live r) p"
| "peer_step env (DebugSocket r) p = on_client (\<lambda>live. Client_listenImpl env live r) p"
| "peer_step env Beat p = on_client (\<lambda>live s. Some (xc_heartbeat env s)) p"
| "peer_step env (Entered buffer arg) p = (if pp_console p then peer_console env buffer arg p else Inr p)"

section \<open>What no step changes\<close>

text \<open>
  Ports, load, announced list and identity stay; a file that changed lies under the shared
  directory and has a content that came with its checksum.
\<close>

definition same_peer :: "xenv \<Rightarrow> xclient \<Rightarrow> xclient \<Rightarrow> bool" where
  "same_peer env s s' \<longleftrightarrow> mset (downloadPortPool s') = mset (downloadPortPool s) \<and> Load s' = Load s
     \<and> localFileList s' = localFileList s \<and> sharedDirectory s' = sharedDirectory s \<and> nodeID s' = nodeID s
     \<and> trackingServerInfo s' = trackingServerInfo s
     \<and> (\<forall>path. disk s' path \<noteq> disk s path \<longrightarrow>
          (\<exists>name p. path = sharedDirectory s @ name \<and> disk s' path = Some (drop 32 p) \<and> take 32 p = env_md5 env (cstr (drop 32 p))))"

lemma same_peer_refl: "same_peer env s s"
  by (simp add: same_peer_def)

lemma same_peer_trans: "same_peer env s1 s2 \<Longrightarrow> same_peer env s2 s3 \<Longrightarrow> same_peer env s1 s3"
  unfolding same_peer_def by metis

lemma core_same_peer: "core_eq s s' \<Longrightarrow> disk s' = disk s \<Longrightarrow> same_peer env s s'"
  by (simp add: core_eq_def same_peer_def)

lemma out_same_peer [simp]: "same_peer env s (s\<lparr>xc_out := x\<rparr>)" "same_peer env s (s\<lparr>is_trackingServer_online := b\<rparr>)"
  "same_peer env s (s\<lparr>global_nodeInfoList := l\<rparr>)"
  by (simp_all add: same_peer_def)

lemma online_same_peer [simp]: "same_peer env (s\<lparr>is_trackingServer_online := b\<rparr>) s' = same_peer env s s'"
  by (simp add: same_peer_def)

lemma send_same_peer: "xc_send env a p m s = Inr s' \<Longrightarrow> same_peer env s s'"
  by (auto simp: xc_send_def split: if_splits)

lemma Communicate_same_peer: "xc_Communicate env op a sp cp req s = Inr (r, s') \<Longrightarrow> same_peer env s s'"
  using xc_Communicate_state by fastforce

lemma Find_same_peer: "xc_Find env f s = Inr (r, s') \<Longrightarrow> same_peer env s s'"
  unfolding xc_Find_def by (rule Communicate_same_peer)

lemma UpdateList_same_peer: "UpdateList env s = Inr s' \<Longrightarrow> same_peer env s s'"
  using UpdateList_state core_same_peer by blast

lemma Download_same_peer:
  assumes "Download env f s = Some (Inr (b, s'))"
  shows "same_peer env s s'"
  using Download_state [OF assms] by (auto simp: same_peer_def attempt_ok_def core_eq_def stored_def split: if_splits)

lemma download_times_same_peer: "download_times n env f s = Some (Inr s') \<Longrightarrow> same_peer env s s'"
proof (induction n env f s rule: download_times.induct)
  case (1 n env f s)
  show ?case
  proof (cases "n = 0")
    case True
    with 1(2) show ?thesis by (simp add: same_peer_refl)
  next
    case False
    then obtain b s1 where d: "Download env f s = Some (Inr (b, s1))" "download_times (n - 1) env f s1 = Some (Inr s')"
      using 1(2) by (auto split: option.splits sum.splits)
    then show ?thesis using 1(1) [OF False d(1)] Download_same_peer [OF d(1)] same_peer_trans by blast
  qed
qed

lemma debug_loop_same_peer: "debug_loop env f l s = Inr s' \<Longrightarrow> same_peer env s s'"
proof (induction l arbitrary: s)
  case (Cons it its)
  show ?case
  proof (cases "si_id it = nodeID s")
    case False
    then obtain s1 where "xc_Send env ''DEBUG'' (si_addr it) 6006 6003 f s = Inr s1" "debug_loop env f its s1 = Inr s'"
      using Cons.prems by (auto simp: bindE_Inr_iff)
    then show ?thesis using Cons.IH send_same_peer same_peer_trans unfolding xc_Send_def by blast
  qed (use Cons in simp)
qed (simp add: same_peer_refl)

lemma Debug_same_peer: "Debug env f s = Some (Inr s') \<Longrightarrow> same_peer env s s'"
  by (auto simp: Debug_def same_peer_refl simp del: download_times.simps split: if_splits sum.splits
      dest!: debug_loop_same_peer download_times_same_peer intro: same_peer_trans)

lemma serve_same_peer:
  assumes "serve_download env a p r s = Inr s'"
  shows "same_peer env s s'"
proof -
  obtain d s1 where "ForwardDownload env r s = Inr (d, s1)" "xc_send env a p d s1 = Inr s'"
    using assms by (auto simp: serve_download_def bindE_Inr_iff)
  then show ?thesis using ForwardDownload_state core_same_peer send_same_peer same_peer_trans by metis
qed

lemma listen_same_peer:
  assumes "xc_listen_step env d s = Some (Inr s')"
  shows "same_peer env s s'"
  using assms
  by (auto simp: xc_listen_step_def Let_def Split_tz same_peer_refl bindE_Inr_iff split: sum.splits prod.splits if_splits xc_command.splits
      dest!: send_same_peer serve_same_peer Download_same_peer)

lemma LoadGlobal_same_peer:
  assumes "LoadGlobalNodeInfo env s = Inr s'"
  shows "same_peer env s s'"
proof -
  obtain r s1 where f: "xc_Find env ''global.txt'' (s\<lparr>global_nodeInfoList := []\<rparr>) = Inr (r, s1)"
    "(if r = [] then Inr s1 else bindE (LoadServerInfo r (global_nodeInfoList s1)) (\<lambda>l. Inr (s1\<lparr>global_nodeInfoList := l\<rparr>))) = Inr s'"
    using assms by (auto simp: LoadGlobalNodeInfo_def bindE_Inr_iff)
  have "same_peer env s s1" using Find_same_peer [OF f(1)] same_peer_trans out_same_peer(3) by blast
  moreover have "same_peer env s1 s'" using f(2) by (auto simp: bindE_Inr_iff same_peer_refl split: if_splits)
  ultimately show ?thesis by (rule same_peer_trans)
qed

lemma heartbeat_same_peer:
  assumes "xc_heartbeat env s = Inr s'"
  shows "same_peer env s s'"
proof -
  obtain s1 where 1: "(if \<not> is_trackingServer_online s then
              bindE (ping_server env s) (\<lambda>(r, s1).
                if r = ''SUCCESS'' then UpdateList env (s1\<lparr>is_trackingServer_online := True\<rparr>) else Inr s1)
            else Inr s) = Inr s1"
    and 2: "(if is_trackingServer_online s1 then
         bindE (ping_server env s1) (\<lambda>(r, s3).
           if r = ''SUCCESS'' then LoadGlobalNodeInfo env s3 else Inr (s3\<lparr>is_trackingServer_online := False\<rparr>))
       else Inr s1) = Inr s'"
    using assms unfolding xc_heartbeat_def bindE_Inr_iff by blast
  have p: "same_peer env t t'" if "ping_server env t = Inr (r, t')" for t t' r
    using that unfolding ping_server_def by (rule Communicate_same_peer)
  have "same_peer env s s1"
    using 1 by (auto simp: bindE_Inr_iff same_peer_refl split: if_splits
        dest!: p UpdateList_same_peer intro: same_peer_trans out_same_peer)
  moreover have "same_peer env s1 s'"
    using 2 by (auto simp: bindE_Inr_iff same_peer_refl split: if_splits
        dest!: p LoadGlobal_same_peer intro: same_peer_trans out_same_peer)
  ultimately show ?thesis by (rule same_peer_trans)
qed

section \<open>Runs\<close>

lemma console_same_peer:
  assumes "xc_console env buffer arg s = Some (Inr (over, s'))"
  shows "same_peer env s s'"
proof -
  have "same_peer env s s'" if "GetLoad env ID s = Inr (l, s')" for ID l
    using that GetLoad_from_state only_out_core core_same_peer by (auto simp: GetLoad_def same_peer_refl split: if_splits)
  then show ?thesis
    using assms
    by (auto simp: xc_console_def bindE_Inr_iff same_peer_refl split: if_splits
        dest!: Download_same_peer UpdateList_same_peer Find_same_peer Debug_same_peer)
qed

lemma returns_Inr: "returns m = Inr x \<longleftrightarrow> m = Some (Inr x)"
  by (auto simp: returns_def split: option.splits)

lemma peer_step_same:
  assumes "peer_step env e p = Inr p'" "pp_live p"
  shows "same_peer env (pp_client p) (pp_client p') \<and> pp_live p'"
  using assms
  by (cases e) (auto simp: on_client_def Client_listenImpl_def returns_Inr bindE_Inr_iff peer_console_def same_peer_refl
      split: recv_event.splits if_splits dest!: listen_same_peer heartbeat_same_peer console_same_peer)

definition peer_quiet :: "peer_event \<Rightarrow> bool" where
  "peer_quiet e \<longleftrightarrow> e \<in> {DownloadSocket Silence, GetloadSocket Silence, DebugSocket Silence} \<or> (\<exists>arg. e = Entered ''exit'' arg)"

definition peer_inv :: "xenv \<Rightarrow> xclient \<Rightarrow> peer_process \<Rightarrow> bool" where
  "peer_inv env s p \<longleftrightarrow> pp_live p \<and> same_peer env s (pp_client p)"

lemma peer_quiet_step:
  assumes "peer_quiet e" "pp_live p"
  shows "peer_step env e p = Inr (if \<exists>arg. e = Entered ''exit'' arg then p\<lparr>pp_console := False\<rparr> else p)"
  using assms by (auto simp: peer_quiet_def on_client_def Client_listenImpl_def returns_def peer_console_def xc_console_def)

interpretation peer_threads: process "peer_step env" "peer_inv env s" "\<lambda>e p f. \<not> peer_quiet e"
proof unfold_locales
  show "peer_inv env s p \<Longrightarrow> peer_step env e p = Inr p' \<Longrightarrow> peer_inv env s p'" for p e p'
    using peer_step_same [of env e p p'] same_peer_trans by (auto simp: peer_inv_def)
  show "peer_inv env s p \<Longrightarrow> peer_step env e p = Inl f \<Longrightarrow> \<not> peer_quiet e" for p e f
    using peer_quiet_step [of e p env] by (auto simp: peer_inv_def)
qed

lemma peer_console_closes:
  "pp_live p \<Longrightarrow> run_events (peer_step env) es p = Inr p' \<Longrightarrow> Entered ''exit'' arg \<in> set es \<Longrightarrow> \<not> pp_console p'"
proof -
  have closed: "\<not> pp_console p \<Longrightarrow> run_events (peer_step env) es p = Inr p' \<Longrightarrow> \<not> pp_console p'" for es p p'
  proof (induction es arbitrary: p)
    case (Cons e es)
    then obtain p1 where "peer_step env e p = Inr p1" "run_events (peer_step env) es p1 = Inr p'" by (auto simp: bindE_Inr_iff)
    moreover from this(1) have "\<not> pp_console p1" using Cons.prems(1) by (cases e) (auto simp: on_client_def bindE_Inr_iff)
    ultimately show ?case using Cons.IH by blast
  qed simp
  show "pp_live p \<Longrightarrow> run_events (peer_step env) es p = Inr p' \<Longrightarrow> Entered ''exit'' arg \<in> set es \<Longrightarrow> \<not> pp_console p'"
  proof (induction es arbitrary: p)
    case (Cons e es)
    then obtain p1 where p1: "peer_step env e p = Inr p1" "run_events (peer_step env) es p1 = Inr p'" by (auto simp: bindE_Inr_iff)
    show ?case
    proof (cases "e = Entered ''exit'' arg")
      case True
      then have "p1 = p\<lparr>pp_console := False\<rparr>" using p1(1) peer_quiet_step [of e p env] Cons.prems(1) by (auto simp: peer_quiet_def)
      then show ?thesis using closed [OF _ p1(2)] by simp
    next
      case False
      then show ?thesis using Cons.IH [OF _ p1(2)] Cons.prems(1,3) peer_step_same [OF p1(1)] by auto
    qed
  qed simp
qed



end
