(* ===== verification/XfsThreads.thy ===== *)
theory XfsThreads
  imports PeerProcess
begin

text \<open>
  The threads of an xFS client interleaved (Project3/Client/client.cpp): every request the
  listener takes starts a thread \<open>Client_communicate_Download\<close>, which copies the request from
  the listener's one \<open>c_data\<close>, takes a port from the pool, sends, binds, waits, and answers;
  and the heartbeat and the console look files up, both at the port 6003. One step of a
  thread is what it does between two points at which others can be seen: the copy, an
  operation under the mutex, a datagram sent, a socket bound, a datagram received. The
  sockets of the process (Project3/Client/xFs_system.cpp) are a map from bound ports to the
  datagrams waiting there; what comes to a port that is not bound is lost.
\<close>

section \<open>Sockets\<close>

type_synonym sockets = "int \<Rightarrow> string list option"

text \<open>A second \<open>bind\<close> to a port fails; \<open>None\<close> stands for the descriptor -1.\<close>

definition UDP_bind :: "int \<Rightarrow> sockets \<Rightarrow> int option \<times> sockets" where
  "UDP_bind targetport sk =
     (let p = targetport mod 65536 in
      case sk p of None \<Rightarrow> (Some p, sk(p := Some [])) | Some _ \<Rightarrow> (None, sk))"

text \<open>
  What follows the bind in \<open>receive\<close>: a read from -1 fails at once, a socket without
  datagram after ten seconds; both give \<open>FAIL\<close>. A socket is closed.
\<close>

definition receive_end :: "int option \<Rightarrow> sockets \<Rightarrow> string result \<times> sockets" where
  "receive_end listenfd sk =
     (case listenfd of
        None \<Rightarrow> (xc_receive None, sk)
      | Some p \<Rightarrow> (case sk p of Some (d # _) \<Rightarrow> xc_receive (Some d) | _ \<Rightarrow> xc_receive None, sk(p := None)))"

definition deliver :: "int \<Rightarrow> string \<Rightarrow> sockets \<Rightarrow> sockets" where
  "deliver p d sk = (case sk p of None \<Rightarrow> sk | Some q \<Rightarrow> sk(p := Some (q @ [d])))"

section \<open>Threads\<close>

record communicate_data =
  cd_request :: string
  cd_addr_back :: string
  cd_port_back :: int

text \<open>A download thread, by what it has done last; \<open>Waiting\<close> holds the descriptor.\<close>

datatype dthread =
    Created
  | Copied communicate_data
  | Asking int string communicate_data
  | Sent int communicate_data
  | Waiting int "int option" communicate_data
  | Received int string communicate_data
  | Replying string communicate_data
  | Ended

text \<open>A look-up by the heartbeat or the console.\<close>

datatype finder = Finding string | Asked | Listening "int option" | Found string

record xthreads =
  xt_client :: xclient
  xt_data :: communicate_data
  xt_threads :: "dthread list"
  xt_finders :: "finder list"
  xt_sockets :: sockets

definition Client_communicate_Download :: "xenv \<Rightarrow> dthread \<Rightarrow> xthreads \<Rightarrow> (dthread \<times> xthreads) result" where
  "Client_communicate_Download env th st =
     (case th of
        Created \<Rightarrow> Inr (Copied (xt_data st), st)
      | Copied c \<Rightarrow>
          bindE (GetNextForwardAddr (cd_request c)) (\<lambda>(addr, request).
            if addr \<noteq> ''$'' then
              bindE (GetPort (xt_client st)) (\<lambda>(p, s). Inr (Asking p addr (c\<lparr>cd_request := request\<rparr>), st\<lparr>xt_client := s\<rparr>))
            else Inr (Replying (PackFileInfo env (sharedDirectory (xt_client st) @ request) (xt_client st)) c, st))
      | Asking p addr c \<Rightarrow>
          bindE (xc_send env addr 6000 (command_text ''DOWNLOAD'' (env_ip env) p (cd_request c)) (xt_client st)) (\<lambda>s.
            Inr (Sent p c, st\<lparr>xt_client := s\<rparr>))
      | Sent p c \<Rightarrow> (case UDP_bind p (xt_sockets st) of (fd, sk) \<Rightarrow> Inr (Waiting p fd c, st\<lparr>xt_sockets := sk\<rparr>))
      | Waiting p fd c \<Rightarrow>
          (case receive_end fd (xt_sockets st) of (r, sk) \<Rightarrow>
             bindE r (\<lambda>x. Inr (Received p (if x = ''FAIL'' then [] else x) c, st\<lparr>xt_sockets := sk\<rparr>)))
      | Received p x c \<Rightarrow>
          bindE (add_noise env x (xt_client st)) (\<lambda>r. Inr (Replying r c, st\<lparr>xt_client := ReturnPort p (xt_client st)\<rparr>))
      | Replying x c \<Rightarrow>
          bindE (getPathLength (GetAddrNode (cd_addr_back c) (global_nodeInfoList (xt_client st)))
                   (nodeID (xt_client st)) (localLatencyGraph (xt_client st))) (\<lambda>latency.
          bindE (xc_send env (cd_addr_back c) (cd_port_back c) x (xt_client st)) (\<lambda>s.
            Inr (Ended, st\<lparr>xt_client := s\<rparr>)))
      | Ended \<Rightarrow> Inr (Ended, st))"

definition find_step :: "xenv \<Rightarrow> finder \<Rightarrow> xthreads \<Rightarrow> (finder \<times> xthreads) result" where
  "find_step env th st =
     (case th of
        Finding f \<Rightarrow>
          bindE (xc_send env (si_addr (trackingServerInfo (xt_client st))) 6001
                   (command_text ''FIND'' (env_ip env) 6003 f) (xt_client st)) (\<lambda>s. Inr (Asked, st\<lparr>xt_client := s\<rparr>))
      | Asked \<Rightarrow> (case UDP_bind 6003 (xt_sockets st) of (fd, sk) \<Rightarrow> Inr (Listening fd, st\<lparr>xt_sockets := sk\<rparr>))
      | Listening fd \<Rightarrow>
          (case receive_end fd (xt_sockets st) of (r, sk) \<Rightarrow>
             bindE r (\<lambda>x. Inr (Found (if x = ''FAIL'' then [] else x), st\<lparr>xt_sockets := sk\<rparr>)))
      | Found x \<Rightarrow> Inr (Found x, st))"

text \<open>The request in a datagram of the listener, with the address it wants the answer at.\<close>

definition parse_request :: "string \<Rightarrow> communicate_data option" where
  "parse_request datagram =
     (let d = cstr (take XFS_BUFLEN datagram); t = tokens '';'' d; ip = tok_at t 1; p = atoi (tok_at t 2) in
      if xc_command_of (tok_at t 0) = XC_DOWNLOAD \<and> isValidIP ip \<and> isValidPort p then
        case drop_three d of Inl _ \<Rightarrow> None
        | Inr request \<Rightarrow> Some \<lparr>cd_request = request, cd_addr_back = ip, cd_port_back = p\<rparr>
      else None)"

datatype xevent = Request string | Run nat | Lookup string | RunFinder nat | Arrive int string

fun xt_step :: "xenv \<Rightarrow> xevent \<Rightarrow> xthreads \<Rightarrow> xthreads result" where
  "xt_step env (Request d) st =
     (case parse_request d of
        Some c \<Rightarrow> Inr (st\<lparr>xt_data := c, xt_threads := xt_threads st @ [Created]\<rparr>)
      | None \<Rightarrow> bindE (returns (xc_listen_step env d (xt_client st))) (\<lambda>s. Inr (st\<lparr>xt_client := s\<rparr>)))"
| "xt_step env (Run i) st =
     (if i < length (xt_threads st) then
        bindE (Client_communicate_Download env (xt_threads st ! i) st) (\<lambda>(th, st'). Inr (st'\<lparr>xt_threads := (xt_threads st)[i := th]\<rparr>))
      else Inr st)"
| "xt_step env (Lookup f) st = Inr (st\<lparr>xt_finders := xt_finders st @ [Finding f]\<rparr>)"
| "xt_step env (RunFinder i) st =
     (if i < length (xt_finders st) then
        bindE (find_step env (xt_finders st ! i) st) (\<lambda>(th, st'). Inr (st'\<lparr>xt_finders := (xt_finders st)[i := th]\<rparr>))
      else Inr st)"
| "xt_step env (Arrive p d) st = Inr (st\<lparr>xt_sockets := deliver p d (xt_sockets st)\<rparr>)"

section \<open>A thread on its own\<close>

text \<open>The listener's step is the parser, then the thread's whole work.\<close>

lemma drop_three_ok: "\<exists>r. drop_three d = Inr r"
  by (simp add: drop_three_def substr_skip_field)

lemma listen_step_request:
  assumes "parse_request d = Some c"
  shows "xc_listen_step env d s = Some (serve_download env (cd_addr_back c) (cd_port_back c) (cd_request c) s)"
proof -
  obtain r where r: "drop_three (cstr (take XFS_BUFLEN d)) = Inr r" using drop_three_ok by blast
  then have "xc_command_of (tok_at (tokens '';'' (cstr (take XFS_BUFLEN d))) 0) = XC_DOWNLOAD"
    "isValidIP (tok_at (tokens '';'' (cstr (take XFS_BUFLEN d))) 1)"
    "isValidPort (atoi (tok_at (tokens '';'' (cstr (take XFS_BUFLEN d))) 2))"
    "c = \<lparr>cd_request = r, cd_addr_back = tok_at (tokens '';'' (cstr (take XFS_BUFLEN d))) 1,
          cd_port_back = atoi (tok_at (tokens '';'' (cstr (take XFS_BUFLEN d))) 2)\<rparr>"
    using assms by (auto simp: parse_request_def Let_def split: if_splits)
  then show ?thesis
    by (simp add: xc_listen_step_def Let_def Split_tz r numeral_2_eq_2)
qed

text \<open>The steps of a thread nothing comes between; the answer arrives while it waits.\<close>

definition alone :: "xenv \<Rightarrow> nat \<Rightarrow> communicate_data \<Rightarrow> xclient \<Rightarrow> xevent list" where
  "alone env i c s =
     (let addr = tok_at (tokens '';'' (cd_request c)) 0; request = skip_field (cd_request c) in
      if addr = ''$'' then [Run i, Run i]
      else [Run i, Run i, Run i]
        @ (case downloadPortPool s of [] \<Rightarrow> []
           | p # _ \<Rightarrow>
               (case env_net env (length (xc_out s)) (addr, 6000, command_text ''DOWNLOAD'' (env_ip env) p request) of
                  None \<Rightarrow> [] | Some d \<Rightarrow> [Arrive p d]))
        @ [Run i, Run i, Run i])"

lemma thread_alone:
  assumes i: "i < length (xt_threads st)" "xt_threads st ! i = Copied c"
    and p: "\<And>p ps. downloadPortPool (xt_client st) = p # ps \<Longrightarrow> isValidPort p \<and> xt_sockets st p = None"
  shows "run_events (xt_step env) (alone env i c (xt_client st)) st
     = bindE (serve_download env (cd_addr_back c) (cd_port_back c) (cd_request c) (xt_client st)) (\<lambda>s.
         Inr (st\<lparr>xt_client := s, xt_threads := (xt_threads st)[i := Ended]\<rparr>))"
proof -
  let ?s = "xt_client st" and ?addr = "tok_at (tokens '';'' (cd_request c)) 0" and ?request = "skip_field (cd_request c)"
  note defs = Client_communicate_Download_def serve_download_def ForwardDownload_def GetNextForwardAddr_ok
  show ?thesis
  proof (cases "?addr = ''$''")
    case True
    have "bindE m (\<lambda>x. bindE (f x) (\<lambda>y. Inr (g y))) = bindE (bindE m f) (\<lambda>y. Inr (g y))"
      for m :: "int result" and f :: "int \<Rightarrow> xclient result" and g :: "xclient \<Rightarrow> xthreads" by (simp add: bindE_assoc)
    with True show ?thesis using i by (simp add: alone_def Let_def defs bindE_assoc)
  next
    case False
    show ?thesis
    proof (cases "downloadPortPool ?s")
      case Nil
      with False i show ?thesis by (simp add: alone_def Let_def defs GetPort_def)
    next
      case (Cons p ps)
      let ?s0 = "?s\<lparr>Load := Load ?s + 1, downloadPortPool := ps\<rparr>"
      let ?m = "command_text ''DOWNLOAD'' (env_ip env) p ?request"
      have pm: "p mod 65536 = p" "xt_sockets st p = None" using p [OF Cons] by (auto simp: isValidPort_def split: if_splits)
      have sk: "(xt_sockets st)(p := None) = xt_sockets st" using pm(2) by auto
      show ?thesis
      proof (cases "env_aton env (cstr ?addr)")
        case False': False
        with False Cons i show ?thesis
          by (simp add: alone_def Let_def defs GetPort_def xc_Communicate_def xc_send_def)
      next
        case True
        show ?thesis
          using False Cons i True pm sk
          by (cases "env_net env (length (xc_out ?s)) (?addr, 6000, ?m)")
            (simp_all add: alone_def Let_def defs GetPort_def xc_Communicate_def xc_send_def UDP_bind_def receive_end_def
              deliver_def bindE_assoc cong: if_cong)
      qed
    qed
  qed
qed

text \<open>
  C12: what a step of the listener stands for. A request taken by the listener and worked
  off by its thread with no other thread in between has exactly the effect of the one
  step \<open>xc_listen_step\<close>, its faults included, when the port it gets is not bound.
\<close>

theorem thread_atomic:
  assumes "parse_request d = Some c"
    and "\<forall>p\<in>set (downloadPortPool (xt_client st)). isValidPort p \<and> xt_sockets st p = None"
  shows "run_events (xt_step env) (Request d # Run (length (xt_threads st)) # alone env (length (xt_threads st)) c (xt_client st)) st
     = bindE (returns (xc_listen_step env d (xt_client st))) (\<lambda>s.
         Inr (st\<lparr>xt_data := c, xt_client := s, xt_threads := xt_threads st @ [Ended]\<rparr>))"
proof -
  let ?st = "st\<lparr>xt_data := c, xt_threads := xt_threads st @ [Copied c]\<rparr>"
  have "run_events (xt_step env) (alone env (length (xt_threads st)) c (xt_client ?st)) ?st
     = bindE (serve_download env (cd_addr_back c) (cd_port_back c) (cd_request c) (xt_client ?st)) (\<lambda>s.
         Inr (?st\<lparr>xt_client := s, xt_threads := (xt_threads ?st)[length (xt_threads st) := Ended]\<rparr>))"
    by (rule thread_alone) (use assms(2) in auto)
  then show ?thesis
    using assms(1) listen_step_request [OF assms(1), of env "xt_client st"]
    by (simp add: Client_communicate_Download_def returns_def)
qed

lemma sample_request:
  "parse_request ''DOWNLOAD;10.0.0.2;5007;$;a'' = Some \<lparr>cd_request = ''$;a'', cd_addr_back = ''10.0.0.2'', cd_port_back = 5007\<rparr>"
  "parse_request ''DOWNLOAD;10.0.0.3;5008;$;b'' = Some \<lparr>cd_request = ''$;b'', cd_addr_back = ''10.0.0.3'', cd_port_back = 5008\<rparr>"
  "parse_request ''DOWNLOAD;10.0.0.2;5007;10.0.0.3;$;a'' = Some \<lparr>cd_request = ''10.0.0.3;$;a'', cd_addr_back = ''10.0.0.2'', cd_port_back = 5007\<rparr>"
  by code_simp+

lemma thread_atomic_witness:
  "\<exists>es. run_events (xt_step sample_env) (Request ''DOWNLOAD;10.0.0.2;5007;10.0.0.3;$;a'' # Run 0 # es)
       \<lparr>xt_client = sample_peer 0 (\<lambda>_. None), xt_data = \<lparr>cd_request = [], cd_addr_back = [], cd_port_back = 0\<rparr>,
         xt_threads = [], xt_finders = [], xt_sockets = \<lambda>_. None\<rparr>
     = bindE (returns (xc_listen_step sample_env ''DOWNLOAD;10.0.0.2;5007;10.0.0.3;$;a'' (sample_peer 0 (\<lambda>_. None)))) (\<lambda>s.
         Inr \<lparr>xt_client = s, xt_data = \<lparr>cd_request = ''10.0.0.3;$;a'', cd_addr_back = ''10.0.0.2'', cd_port_back = 5007\<rparr>,
           xt_threads = [Ended], xt_finders = [], xt_sockets = \<lambda>_. None\<rparr>)"
proof -
  let ?st = "\<lparr>xt_client = sample_peer 0 (\<lambda>_. None), xt_data = \<lparr>cd_request = [], cd_addr_back = [], cd_port_back = 0\<rparr>,
         xt_threads = [], xt_finders = [], xt_sockets = \<lambda>_. None\<rparr> :: xthreads"
  have "isValidPort 5000" "isValidPort 5001" by code_simp+
  then have "\<forall>p\<in>set (downloadPortPool (xt_client ?st)). isValidPort p \<and> xt_sockets ?st p = None" by (simp add: sample_peer_def)
  from thread_atomic [OF sample_request(3) this, of sample_env]
  show ?thesis
    by (intro exI [of _ "alone sample_env 0 \<lparr>cd_request = ''10.0.0.3;$;a'', cd_addr_back = ''10.0.0.2'', cd_port_back = 5007\<rparr> (sample_peer 0 (\<lambda>_. None))"])
      (simp only: xthreads.select_convs xthreads.update_convs list.size append_Nil)
qed

section \<open>Ports\<close>

fun held :: "dthread \<Rightarrow> int list" where
  "held (Asking p addr c) = [p]"
| "held (Sent p c) = [p]"
| "held (Waiting p fd c) = [p]"
| "held (Received p x c) = [p]"
| "held _ = []"

abbreviation taken :: "dthread list \<Rightarrow> int list" where
  "taken ths \<equiv> concat (map held ths)"

definition xt_inv :: "int list \<Rightarrow> int \<Rightarrow> xthreads \<Rightarrow> bool" where
  "xt_inv pool load st \<longleftrightarrow>
     mset (downloadPortPool (xt_client st)) + mset (taken (xt_threads st)) = mset pool
   \<and> Load (xt_client st) = load + int (length (taken (xt_threads st)))
   \<and> (\<forall>p fd c. Waiting p fd c \<in> set (xt_threads st) \<longrightarrow> fd = Some p)
   \<and> (\<forall>p\<in>set pool. xt_sockets st p \<noteq> None \<longrightarrow> (\<exists>fd c. Waiting p fd c \<in> set (xt_threads st)))
   \<and> (\<forall>fd. Listening fd \<in> set (xt_finders st) \<longrightarrow> fd = None \<or> fd = Some 6003)"

text \<open>The pool of \<open>StartUp\<close> is such a list.\<close>

definition pool_ok :: "int list \<Rightarrow> bool" where
  "pool_ok pool \<longleftrightarrow> distinct pool \<and> (\<forall>p\<in>set pool. isValidPort p) \<and> 6003 \<notin> set pool"

lemma mset_taken:
  assumes "i < length ths"
  shows "mset (taken (ths[i := th])) + mset (held (ths ! i)) = mset (taken ths) + mset (held th)"
proof -
  have "ths = take i ths @ ths ! i # drop (Suc i) ths" using assms by (rule id_take_nth_drop)
  then have "mset (taken ths) = mset (taken (take i ths)) + mset (held (ths ! i)) + mset (taken (drop (Suc i) ths))"
    by (metis concat_append map_append list.simps(9) concat.simps(2) mset_append add.assoc)
  then show ?thesis using assms by (simp add: upd_conv_take_nth_drop)
qed

lemma taken_unique:
  "distinct (taken ths) \<Longrightarrow> th \<in> set ths \<Longrightarrow> th' \<in> set ths \<Longrightarrow> p \<in> set (held th) \<Longrightarrow> p \<in> set (held th') \<Longrightarrow> th = th'"
  by (induction ths) auto

lemma in_update: "th \<in> set ths \<Longrightarrow> i < length ths \<Longrightarrow> th \<noteq> ths ! i \<Longrightarrow> th \<in> set (ths[i := x])"
  by (metis in_set_conv_nth length_list_update nth_list_update_neq)

lemma of_update: "th \<in> set (ths[i := x]) \<Longrightarrow> th = x \<or> th \<in> set ths"
  using set_update_subset_insert [of ths i x] by auto

lemma inv_distinct:
  assumes "xt_inv pool load st" "distinct pool"
  shows "distinct (downloadPortPool (xt_client st) @ taken (xt_threads st))"
proof -
  have "mset (downloadPortPool (xt_client st) @ taken (xt_threads st)) = mset pool" using assms(1) by (simp add: xt_inv_def)
  then show ?thesis using assms(2) by (metis mset_eq_imp_distinct_iff)
qed

lemma inv_held: "xt_inv pool load st \<Longrightarrow> th \<in> set (xt_threads st) \<Longrightarrow> p \<in> set (held th) \<Longrightarrow> p \<in> set pool"
proof -
  assume i: "xt_inv pool load st" and th: "th \<in> set (xt_threads st)" "p \<in> set (held th)"
  then have "p \<in># mset (downloadPortPool (xt_client st)) + mset (taken (xt_threads st))" by auto
  moreover have "mset (downloadPortPool (xt_client st)) + mset (taken (xt_threads st)) = mset pool"
    using i unfolding xt_inv_def by blast
  ultimately have "p \<in># mset pool" by (simp only:)
  then show "p \<in> set pool" by simp
qed

text \<open>A port that is taken but not waited at is not bound.\<close>

lemma sent_unbound:
  assumes "xt_inv pool load st" "distinct pool" "Sent p c \<in> set (xt_threads st)"
  shows "xt_sockets st p = None"
proof (rule ccontr)
  assume b: "xt_sockets st p \<noteq> None"
  have "p \<in> set pool" using inv_held [OF assms(1,3)] by simp
  then obtain fd c' where w: "Waiting p fd c' \<in> set (xt_threads st)" using assms(1) b by (auto simp: xt_inv_def)
  have "distinct (taken (xt_threads st))" using inv_distinct [OF assms(1,2)] by simp
  from taken_unique [OF this assms(3) w] show False by simp
qed

text \<open>What a step of a thread leaves to show: the counts, and the sockets.\<close>

lemma run_invI:
  assumes inv: "xt_inv pool load st" and i: "i < length (xt_threads st)"
    and st': "xt_threads st' = (xt_threads st)[i := th]" "xt_finders st' = xt_finders st"
    and m: "mset (downloadPortPool (xt_client st')) + mset (held th) = mset (downloadPortPool (xt_client st)) + mset (held (xt_threads st ! i))"
    and l: "Load (xt_client st') - int (length (held th)) = Load (xt_client st) - int (length (held (xt_threads st ! i)))"
    and w: "\<And>p fd c. th = Waiting p fd c \<Longrightarrow> fd = Some p"
    and s: "\<And>p. p \<in> set pool \<Longrightarrow> xt_sockets st' p \<noteq> None \<Longrightarrow>
        (\<exists>fd c. th = Waiting p fd c) \<or> xt_sockets st p \<noteq> None \<and> (\<forall>fd c. xt_threads st ! i \<noteq> Waiting p fd c)"
  shows "xt_inv pool load st'"
proof -
  note t = mset_taken [OF i, of th]
  have "length (taken ((xt_threads st)[i := th])) + length (held (xt_threads st ! i)) = length (taken (xt_threads st)) + length (held th)"
    using arg_cong [OF t, of size] by simp
  then have "Load (xt_client st') = load + int (length (taken (xt_threads st')))" using l inv st' by (simp add: xt_inv_def)
  moreover have "mset (downloadPortPool (xt_client st')) + mset (taken (xt_threads st')) = mset pool"
  proof -
    have "(mset (downloadPortPool (xt_client st')) + mset (held th)) + (mset (taken (xt_threads st')) + mset (held (xt_threads st ! i)))
        = (mset (downloadPortPool (xt_client st)) + mset (held (xt_threads st ! i))) + (mset (taken (xt_threads st)) + mset (held th))"
      using t m unfolding st'(1) by (simp only:)
    then have "mset (downloadPortPool (xt_client st')) + mset (taken (xt_threads st'))
        = mset (downloadPortPool (xt_client st)) + mset (taken (xt_threads st))"
      by (simp only: ac_simps add_left_cancel) (simp only: add.assoc [symmetric] add_right_cancel)
    then show ?thesis using inv unfolding xt_inv_def by (simp only:)
  qed
  moreover have "\<exists>fd c. Waiting p fd c \<in> set (xt_threads st')" if p: "p \<in> set pool" "xt_sockets st' p \<noteq> None" for p
    using s [OF p]
  proof
    assume "\<exists>fd c. th = Waiting p fd c"
    then show ?thesis using i st'(1) set_update_memI by metis
  next
    assume a: "xt_sockets st p \<noteq> None \<and> (\<forall>fd c. xt_threads st ! i \<noteq> Waiting p fd c)"
    then obtain fd c where "Waiting p fd c \<in> set (xt_threads st)" using inv p(1) by (auto simp: xt_inv_def)
    then show ?thesis using in_update [OF _ i] a st'(1) by metis
  qed
  moreover have "fd = Some p" if "Waiting p fd c \<in> set (xt_threads st')" for p fd c
    using of_update [of _ "xt_threads st" i th] that w inv unfolding st'(1) xt_inv_def by metis
  moreover have "\<forall>fd. Listening fd \<in> set (xt_finders st') \<longrightarrow> fd = None \<or> fd = Some 6003"
    using inv unfolding st'(2) xt_inv_def by blast
  ultimately show ?thesis unfolding xt_inv_def by blast
qed

lemma run_copied:
  assumes "Client_communicate_Download env (Copied c) st = Inr (th, st')"
  shows "(\<exists>x. th = Replying x c \<and> st' = st)
     \<or> (\<exists>p ps a c' s. downloadPortPool (xt_client st) = p # ps \<and> th = Asking p a c'
          \<and> st' = st\<lparr>xt_client := (xt_client st)\<lparr>Load := Load (xt_client st) + 1, downloadPortPool := ps\<rparr>\<rparr>)"
  using assms
  by (auto simp: Client_communicate_Download_def GetNextForwardAddr_ok GetPort_def result_simps split: if_splits list.splits)

lemma thread_keeps:
  assumes inv: "xt_inv pool load st" and pool: "pool_ok pool" and i: "i < length (xt_threads st)"
    and r: "Client_communicate_Download env (xt_threads st ! i) st = Inr (th, st')"
  shows "xt_inv pool load (st'\<lparr>xt_threads := (xt_threads st)[i := th]\<rparr>)"
proof -
  have mem: "xt_threads st ! i \<in> set (xt_threads st)" using i by simp
  have d: "distinct pool" "6003 \<notin> set pool" using pool by (auto simp: pool_ok_def)
  have range: "p mod 65536 = p" if "p \<in> set pool" for p
    using that pool by (auto simp: pool_ok_def isValidPort_def split: if_splits)
  note D = Client_communicate_Download_def
  show ?thesis
  proof (cases "xt_threads st ! i")
    case Created
    then show ?thesis using r by (intro run_invI [OF inv i]) (auto simp: D)
  next
    case (Copied c)
    from run_copied [OF r [unfolded Copied]] show ?thesis
      by (intro run_invI [OF inv i]) (auto simp: Copied)
  next
    case (Asking p a c)
    then show ?thesis using r by (intro run_invI [OF inv i]) (auto simp: D xc_send_def result_simps split: if_splits)
  next
    case (Sent p c)
    have p: "p \<in> set pool" using inv_held [OF inv mem] Sent by simp
    have "xt_sockets st p = None" using sent_unbound [OF inv d(1)] mem Sent by metis
    then have "th = Waiting p (Some p) c" "st' = st\<lparr>xt_sockets := (xt_sockets st)(p := Some [])\<rparr>"
      using r range [OF p] by (auto simp: D Sent UDP_bind_def)
    then show ?thesis by (intro run_invI [OF inv i]) (auto simp: Sent split: if_splits)
  next
    case (Waiting p fd c)
    then have fd: "fd = Some p" using inv mem by (metis xt_inv_def)
    then obtain x where "th = Received p x c" "st' = st\<lparr>xt_sockets := (xt_sockets st)(p := None)\<rparr>"
      using r by (auto simp: D Waiting receive_end_def result_simps)
    then show ?thesis by (intro run_invI [OF inv i]) (auto simp: Waiting split: if_splits)
  next
    case (Received p x c)
    then obtain y where "th = Replying y c" "st' = st\<lparr>xt_client := ReturnPort p (xt_client st)\<rparr>"
      using r by (auto simp: D result_simps)
    then show ?thesis by (intro run_invI [OF inv i]) (auto simp: Received ReturnPort_def)
  next
    case (Replying x c)
    then show ?thesis using r by (intro run_invI [OF inv i]) (auto simp: D xc_send_def result_simps split: if_splits)
  next
    case Ended
    then show ?thesis using r by (intro run_invI [OF inv i]) (auto simp: D)
  qed
qed

text \<open>Steps that leave the pool and its sockets alone.\<close>

lemma frame_invI:
  assumes "xt_inv pool load st" "mset (downloadPortPool (xt_client st')) = mset (downloadPortPool (xt_client st))"
    "Load (xt_client st') = Load (xt_client st)" "xt_threads st' = xt_threads st"
    "\<forall>p\<in>set pool. xt_sockets st' p = None \<longleftrightarrow> xt_sockets st p = None"
    "\<forall>fd. Listening fd \<in> set (xt_finders st') \<longrightarrow> fd = None \<or> fd = Some 6003"
  shows "xt_inv pool load st'"
  using assms(1,5,6) unfolding xt_inv_def assms(2-4) by (elim conjE, intro conjI) simp_all

lemma bind_other: "UDP_bind q sk = (fd, sk') \<Longrightarrow> (fd = None \<or> fd = Some (q mod 65536)) \<and> (\<forall>p. p \<noteq> q mod 65536 \<longrightarrow> sk' p = sk p)"
  by (auto simp: UDP_bind_def Let_def split: option.splits)

lemma receive_other: "receive_end fd sk = (r, sk') \<Longrightarrow> fd = None \<or> fd = Some q \<Longrightarrow> p \<noteq> q \<Longrightarrow> sk' p = sk p"
  by (auto simp: receive_end_def)

lemma finder_keeps:
  assumes inv: "xt_inv pool load st" and pool: "pool_ok pool" and i: "i < length (xt_finders st)"
    and r: "find_step env (xt_finders st ! i) st = Inr (th, st')"
  shows "xt_inv pool load (st'\<lparr>xt_finders := (xt_finders st)[i := th]\<rparr>)"
proof -
  have n: "6003 \<notin> set pool" using pool by (auto simp: pool_ok_def)
  have mem: "xt_finders st ! i \<in> set (xt_finders st)" using i by simp
  have up: "\<forall>fd. Listening fd \<in> set (xt_finders (st'\<lparr>xt_finders := (xt_finders st)[i := th]\<rparr>)) \<longrightarrow> fd = None \<or> fd = Some 6003"
    if "\<forall>fd. th = Listening fd \<longrightarrow> fd = None \<or> fd = Some 6003"
    using that inv set_update_subset_insert [of "xt_finders st" i th] by (auto simp: xt_inv_def)
  show ?thesis
  proof (cases "xt_finders st ! i")
    case (Finding f)
    then have "\<exists>s. st' = st\<lparr>xt_client := (xt_client st)\<lparr>xc_out := s\<rparr>\<rparr> \<and> th = Asked"
      using r by (auto simp: find_step_def xc_send_def result_simps split: if_splits)
    then show ?thesis by (intro frame_invI [OF inv] up) auto
  next
    case Asked
    obtain fd sk where b: "UDP_bind 6003 (xt_sockets st) = (fd, sk)" by (cases "UDP_bind 6003 (xt_sockets st)")
    have "th = Listening fd" "st' = st\<lparr>xt_sockets := sk\<rparr>" using r by (auto simp: find_step_def Asked b)
    moreover have o: "fd = None \<or> fd = Some 6003" "\<forall>p. p \<noteq> 6003 \<longrightarrow> sk p = xt_sockets st p" using bind_other [OF b] by simp_all
    moreover have "\<forall>p\<in>set pool. sk p = xt_sockets st p" using o(2) n by metis
    ultimately show ?thesis by (intro frame_invI [OF inv] up) simp_all
  next
    case (Listening fd)
    then have fd: "fd = None \<or> fd = Some 6003" using inv mem by (metis xt_inv_def)
    obtain y sk where e: "receive_end fd (xt_sockets st) = (y, sk)" by (cases "receive_end fd (xt_sockets st)")
    then obtain x where "th = Found x" "st' = st\<lparr>xt_sockets := sk\<rparr>"
      using r by (auto simp: find_step_def Listening result_simps)
    moreover have "\<forall>p\<in>set pool. sk p = xt_sockets st p" using receive_other [OF e fd] n by metis
    ultimately show ?thesis by (intro frame_invI [OF inv] up) simp_all
  next
    case (Found x)
    then show ?thesis using r by (intro frame_invI [OF inv] up) (auto simp: find_step_def)
  qed
qed

text \<open>Which fault a step can end the client with.\<close>

definition xt_may_end :: "xevent \<Rightarrow> xthreads \<Rightarrow> fault \<Rightarrow> bool" where
  "xt_may_end e st f =
     (case e of
        Request d \<Rightarrow> parse_request d = None
      | Run i \<Rightarrow> i < length (xt_threads st) \<and>
          (case xt_threads st ! i of
             Copied c \<Rightarrow> f = OutOfBounds \<and> downloadPortPool (xt_client st) = []
           | Asking p addr c \<Rightarrow> f = Exit 1
           | Waiting p fd c \<Rightarrow> f = BufferOverflow
           | Received p x c \<Rightarrow> f = OutOfRange \<and> nodeID (xt_client st) = 1
           | Replying x c \<Rightarrow> f = OutOfBounds \<or> f = Exit 1
           | _ \<Rightarrow> False)
      | Lookup g \<Rightarrow> False
      | RunFinder i \<Rightarrow> f = Exit 1 \<or> f = BufferOverflow
      | Arrive p d \<Rightarrow> False)"

lemma thread_fault:
  assumes "Client_communicate_Download env (xt_threads st ! i) st = Inl f" "i < length (xt_threads st)"
  shows "xt_may_end (Run i) st f"
  using assms
  by (cases "xt_threads st ! i")
    (auto simp: xt_may_end_def Client_communicate_Download_def GetNextForwardAddr_ok GetPort_def xc_send_def UDP_bind_def Let_def
      receive_end_def xc_receive_def add_noise_def getPathLength_def vertex_def result_simps
      split: if_splits list.splits option.splits)

lemma finder_fault: "find_step env th st = Inl f \<Longrightarrow> f = Exit 1 \<or> f = BufferOverflow"
  by (auto simp: find_step_def xc_send_def UDP_bind_def receive_end_def xc_receive_def Let_def result_simps
      split: finder.splits if_splits list.splits option.splits)

lemma deliver_bound: "deliver p d sk q = None \<longleftrightarrow> sk q = None"
  by (auto simp: deliver_def split: option.splits)

lemma step_keeps_inv:
  assumes inv: "xt_inv pool load st" and pool: "pool_ok pool" and s: "xt_step env e st = Inr st'"
  shows "xt_inv pool load st'"
proof (cases e)
  case (Request d)
  show ?thesis
  proof (cases "parse_request d")
    case None
    then obtain s where r: "xc_listen_step env d (xt_client st) = Some (Inr s)" "st' = st\<lparr>xt_client := s\<rparr>"
      using s Request by (auto simp: result_simps returns_Inr)
    have "same_peer env (xt_client st) s" using listen_same_peer [OF r(1)] .
    then show ?thesis using r(2) inv by (intro frame_invI [OF inv]) (auto simp: same_peer_def xt_inv_def)
  next
    case (Some c)
    then have st': "st' = st\<lparr>xt_data := c, xt_threads := xt_threads st @ [Created]\<rparr>" using s Request by simp
    show ?thesis using inv unfolding st' xt_inv_def by auto
  qed
next
  case (Run i)
  show ?thesis
  proof (cases "i < length (xt_threads st)")
    case True
    then obtain th st1 where r: "Client_communicate_Download env (xt_threads st ! i) st = Inr (th, st1)"
      "st' = st1\<lparr>xt_threads := (xt_threads st)[i := th]\<rparr>"
      using s Run by (auto simp: result_simps)
    show ?thesis unfolding r(2) by (rule thread_keeps [OF inv pool True r(1)])
  qed (use s Run inv in simp)
next
  case (RunFinder i)
  show ?thesis
  proof (cases "i < length (xt_finders st)")
    case True
    then obtain th st1 where r: "find_step env (xt_finders st ! i) st = Inr (th, st1)"
      "st' = st1\<lparr>xt_finders := (xt_finders st)[i := th]\<rparr>"
      using s RunFinder by (auto simp: result_simps)
    show ?thesis unfolding r(2) by (rule finder_keeps [OF inv pool True r(1)])
  qed (use s RunFinder inv in simp)
next
  case (Lookup g)
  then have "st' = st\<lparr>xt_finders := xt_finders st @ [Finding g]\<rparr>" using s by simp
  then show ?thesis using inv by (intro frame_invI [OF inv]) (auto simp: xt_inv_def)
next
  case (Arrive p d)
  then have "st' = st\<lparr>xt_sockets := deliver p d (xt_sockets st)\<rparr>" using s by simp
  then show ?thesis using inv by (intro frame_invI [OF inv]) (auto simp: deliver_bound xt_inv_def)
qed

interpretation download_threads: process "xt_step env" "\<lambda>st. pool_ok pool \<and> xt_inv pool load st" xt_may_end
proof unfold_locales
  show "pool_ok pool \<and> xt_inv pool load st \<Longrightarrow> xt_step env e st = Inr st' \<Longrightarrow> pool_ok pool \<and> xt_inv pool load st'" for st e st'
    using step_keeps_inv by blast
  show "pool_ok pool \<and> xt_inv pool load st \<Longrightarrow> xt_step env e st = Inl f \<Longrightarrow> xt_may_end e st f" for st e f
    using thread_fault finder_fault
    by (cases e) (auto simp: xt_may_end_def result_simps split: option.splits if_splits)
qed

definition xt_start :: "xclient \<Rightarrow> xthreads" where
  "xt_start s = \<lparr>xt_client = s, xt_data = \<lparr>cd_request = [], cd_addr_back = [], cd_port_back = 0\<rparr>,
     xt_threads = [], xt_finders = [], xt_sockets = \<lambda>_. None\<rparr>"

text \<open>
  C11: downloads side by side. However the requests, the threads and the arrivals are
  interleaved, the ports in the pool and the ports of the threads are the ports the client
  started with, no port is held twice, the load is the number of threads that hold one, and
  no download thread ever waits at a socket it could not bind. The client ends only by the
  faults named; for want of a port only when as many threads hold one as there are.
\<close>

theorem threads_ports:
  assumes "pool_ok (downloadPortPool s)"
  shows "case run_events (xt_step env) es (xt_start s) of
      Inr st \<Rightarrow> mset (downloadPortPool (xt_client st)) + mset (taken (xt_threads st)) = mset (downloadPortPool s)
        \<and> distinct (taken (xt_threads st)) \<and> Load (xt_client st) = Load s + int (length (taken (xt_threads st)))
        \<and> (\<forall>p fd c. Waiting p fd c \<in> set (xt_threads st) \<longrightarrow> fd = Some p)
    | Inl f \<Rightarrow> \<exists>es1 e es2 st. es = es1 @ e # es2 \<and> run_events (xt_step env) es1 (xt_start s) = Inr st
        \<and> xt_step env e st = Inl f \<and> xt_may_end e st f
        \<and> (\<forall>i c. e = Run i \<and> xt_threads st ! i = Copied c \<longrightarrow> length (taken (xt_threads st)) = length (downloadPortPool s))"
proof -
  let ?pool = "downloadPortPool s" and ?load = "Load s"
  have i: "pool_ok ?pool \<and> xt_inv ?pool ?load (xt_start s)" using assms by (simp add: xt_start_def xt_inv_def)
  show ?thesis
  proof (cases "run_events (xt_step env) es (xt_start s)")
    case (Inl f)
    from download_threads.run_ends [OF i Inl] obtain es1 e es2 st where r: "es = es1 @ e # es2"
      "run_events (xt_step env) es1 (xt_start s) = Inr st" "pool_ok ?pool \<and> xt_inv ?pool ?load st" "xt_step env e st = Inl f"
      "xt_may_end e st f" by blast
    have "length (downloadPortPool (xt_client st)) + length (taken (xt_threads st)) = length ?pool"
      using r(3) unfolding xt_inv_def by (metis mset_append size_mset length_append)
    then show ?thesis using r unfolding Inl sum.case
      by (intro exI [of _ es1] exI [of _ e] exI [of _ es2] exI [of _ st]) (auto simp: xt_may_end_def)
  next
    case (Inr st)
    from download_threads.run_keeps [OF i Inr] have v: "xt_inv ?pool ?load st" and d: "distinct ?pool" by (auto simp: pool_ok_def)
    from inv_distinct [OF v d] v show ?thesis unfolding Inr sum.case xt_inv_def by auto
  qed
qed

lemma threads_ports_witness:
  "\<exists>st. run_events (xt_step sample_env) [Lookup ''a'', RunFinder 0, RunFinder 0] (xt_start (sample_peer 0 (\<lambda>_. None))) = Inr st
     \<and> mset (downloadPortPool (xt_client st)) + mset (taken (xt_threads st)) = mset [5000, 5001]"
proof -
  let ?s = "sample_peer 0 (\<lambda>_. None)" and ?es = "[Lookup ''a'', RunFinder 0, RunFinder 0]"
  have "isValidPort 5000" "isValidPort 5001" by code_simp+
  then have "pool_ok (downloadPortPool ?s)" by (simp add: pool_ok_def sample_peer_def)
  from threads_ports [OF this, where es = ?es and env = sample_env]
  obtain st where "run_events (xt_step sample_env) ?es (xt_start ?s) = Inr st"
    by (simp add: xt_start_def find_step_def xc_send_def UDP_bind_def sample_env_def sample_peer_def)
  with threads_ports [OF \<open>pool_ok (downloadPortPool ?s)\<close>, where es = ?es and env = sample_env]
  show ?thesis by (simp add: sample_peer_def)
qed

section \<open>Whose request a thread serves\<close>

text \<open>A thread at work on a request.\<close>

definition works_on :: "communicate_data \<Rightarrow> dthread \<Rightarrow> bool" where
  "works_on c th =
     (let next = c\<lparr>cd_request := skip_field (cd_request c)\<rparr> in
      case th of
        Created \<Rightarrow> True
      | Copied c' \<Rightarrow> c' = c
      | Asking p addr c' \<Rightarrow> c' = next \<and> addr = tok_at (tokens '';'' (cd_request c)) 0
      | Sent p c' \<Rightarrow> c' = next
      | Waiting p fd c' \<Rightarrow> c' = next
      | Received p x c' \<Rightarrow> c' = next
      | Replying x c' \<Rightarrow> cd_addr_back c' = cd_addr_back c \<and> cd_port_back c' = cd_port_back c
      | Ended \<Rightarrow> True)"

text \<open>The requests taken, and runs in which each is copied before the next is taken.\<close>

definition accepted :: "xevent list \<Rightarrow> communicate_data list" where
  "accepted es = List.map_filter (\<lambda>e. case e of Request d \<Rightarrow> parse_request d | _ \<Rightarrow> None) es"

fun prompt :: "nat option \<Rightarrow> nat \<Rightarrow> xevent list \<Rightarrow> bool" where
  "prompt pend n [] = True"
| "prompt pend n (Request d # es) =
     (if parse_request d = None then prompt pend n es else pend = None \<and> prompt (Some n) (Suc n) es)"
| "prompt pend n (Run i # es) = prompt (if pend = Some i then None else pend) n es"
| "prompt pend n (_ # es) = prompt pend n es"

lemma accepted_simps [simp]:
  "accepted [] = []" "accepted (Request d # es) = (case parse_request d of None \<Rightarrow> accepted es | Some c \<Rightarrow> c # accepted es)"
  "accepted (Run i # es) = accepted es" "accepted (Lookup g # es) = accepted es"
  "accepted (RunFinder i # es) = accepted es" "accepted (Arrive p d # es) = accepted es"
  by (simp_all add: accepted_def List.map_filter_simps split: option.splits)

definition served :: "communicate_data list \<Rightarrow> nat option \<Rightarrow> xthreads \<Rightarrow> bool" where
  "served cs pend st \<longleftrightarrow> length (xt_threads st) = length cs
     \<and> (\<forall>i<length cs. works_on (cs ! i) (xt_threads st ! i) \<and> (xt_threads st ! i = Created \<longrightarrow> pend = Some i))
     \<and> (\<forall>i. pend = Some i \<longrightarrow> i < length cs \<and> xt_data st = cs ! i)"

lemma servedI:
  assumes "length (xt_threads st) = length cs"
    and "\<And>i. i < length cs \<Longrightarrow> works_on (cs ! i) (xt_threads st ! i) \<and> (xt_threads st ! i = Created \<longrightarrow> pend = Some i)"
    and "\<And>i. pend = Some i \<Longrightarrow> i < length cs \<and> xt_data st = cs ! i"
  shows "served cs pend st"
  unfolding served_def using assms by blast

lemma servedD:
  assumes "served cs pend st"
  shows "length (xt_threads st) = length cs"
    and "\<And>i. i < length cs \<Longrightarrow> works_on (cs ! i) (xt_threads st ! i) \<and> (xt_threads st ! i = Created \<longrightarrow> pend = Some i)"
    and "\<And>i. pend = Some i \<Longrightarrow> i < length cs \<and> xt_data st = cs ! i"
  using assms unfolding served_def by blast+

lemma thread_works:
  assumes "Client_communicate_Download env th st = Inr (th', st')" "works_on c th" "th = Created \<longrightarrow> xt_data st = c"
  shows "works_on c th' \<and> th' \<noteq> Created \<and> xt_data st' = xt_data st"
  using assms
  by (cases th) (auto simp: Client_communicate_Download_def works_on_def Let_def GetNextForwardAddr_ok result_simps
      split: if_splits prod.splits)

lemma step_served:
  assumes "served cs pend st" "xt_step env (Run i) st = Inr st'"
  shows "served cs (if pend = Some i then None else pend) st'"
proof (cases "i < length (xt_threads st)")
  case True
  then obtain th st1 where r: "Client_communicate_Download env (xt_threads st ! i) st = Inr (th, st1)"
    "st' = st1\<lparr>xt_threads := (xt_threads st)[i := th]\<rparr>"
    using assms(2) by (auto simp: result_simps)
  note l = servedD(1) [OF assms(1)] and a = servedD(2) [OF assms(1)] and b = servedD(3) [OF assms(1)]
  have "i < length cs" using True l by simp
  then have "works_on (cs ! i) (xt_threads st ! i)" "xt_threads st ! i = Created \<longrightarrow> xt_data st = cs ! i"
    using a b by blast+
  from thread_works [OF r(1) this] have "works_on (cs ! i) th \<and> th \<noteq> Created \<and> xt_data st1 = xt_data st" .
  then have w: "works_on (cs ! i) th" "th \<noteq> Created" "xt_data st' = xt_data st" "xt_threads st' = (xt_threads st)[i := th]"
    using r(2) by simp_all
  show ?thesis
  proof (rule servedI)
    fix j assume j: "j < length cs"
    show "works_on (cs ! j) (xt_threads st' ! j) \<and> (xt_threads st' ! j = Created \<longrightarrow> (if pend = Some i then None else pend) = Some j)"
      using a [OF j] w(1,2) True unfolding w(4) by (cases "j = i") auto
  next
    fix j assume "(if pend = Some i then None else pend) = Some j"
    then show "j < length cs \<and> xt_data st' = cs ! j" using b [of j] w(3) by (simp split: if_splits)
  qed (simp add: w(4) l)
next
  case False
  then have "st' = st" "pend \<noteq> Some i" using assms(2) servedD(1,3) [OF assms(1)] by auto
  then show ?thesis using assms(1) by simp
qed

lemma other_served:
  assumes "served cs pend st" "xt_threads st' = xt_threads st" "xt_data st' = xt_data st"
  shows "served cs pend st'"
  using assms(1) unfolding served_def assms(2,3) .

lemma request_served:
  assumes "served cs None st"
  shows "served (cs @ [c]) (Some (length cs)) (st\<lparr>xt_data := c, xt_threads := xt_threads st @ [Created]\<rparr>)"
proof (rule servedI)
  fix i assume i: "i < length (cs @ [c])"
  show "works_on ((cs @ [c]) ! i) (xt_threads (st\<lparr>xt_data := c, xt_threads := xt_threads st @ [Created]\<rparr>) ! i)
     \<and> (xt_threads (st\<lparr>xt_data := c, xt_threads := xt_threads st @ [Created]\<rparr>) ! i = Created \<longrightarrow> Some (length cs) = Some i)"
  proof (cases "i = length cs")
    case True
    then show ?thesis using servedD(1) [OF assms] by (simp add: nth_append works_on_def)
  next
    case False
    then have "i < length cs" using i by simp
    then show ?thesis using servedD(2) [OF assms, of i] servedD(1) [OF assms] by (simp add: nth_append)
  qed
qed (use servedD(1) [OF assms] in simp_all)

lemma run_served:
  "prompt pend (length cs) es \<Longrightarrow> served cs pend st \<Longrightarrow> run_events (xt_step env) es st = Inr st' \<Longrightarrow>
   \<exists>pend'. served (cs @ accepted es) pend' st'"
proof (induction es arbitrary: cs pend st)
  case Nil
  then show ?case by auto
next
  case (Cons e es)
  obtain st1 where s: "xt_step env e st = Inr st1" "run_events (xt_step env) es st1 = Inr st'"
    using Cons.prems(3) by (auto simp: result_simps)
  show ?case
  proof (cases e)
    case (Request d)
    show ?thesis
    proof (cases "parse_request d")
      case None
      then have "xt_threads st1 = xt_threads st" "xt_data st1 = xt_data st" using s(1) Request by (auto simp: result_simps)
      from Cons.IH [OF _ other_served [OF Cons.prems(2) this] s(2)] Cons.prems(1) None Request show ?thesis by simp
    next
      case (Some c)
      then have p: "pend = None" "prompt (Some (length cs)) (length (cs @ [c])) es" using Cons.prems(1) Request by auto
      have st1: "st1 = st\<lparr>xt_data := c, xt_threads := xt_threads st @ [Created]\<rparr>" using s(1) Request Some by simp
      have "served (cs @ [c]) (Some (length cs)) st1" unfolding st1 using request_served Cons.prems(2) p(1) by blast
      from Cons.IH [OF p(2) this s(2)] Some Request show ?thesis by simp
    qed
  next
    case (Run i)
    have "served cs (if pend = Some i then None else pend) st1" using step_served [OF Cons.prems(2)] s(1) Run by blast
    from Cons.IH [OF _ this s(2)] Cons.prems(1) Run show ?thesis by simp
  next
    case (RunFinder i)
    have "xt_threads st1 = xt_threads st" "xt_data st1 = xt_data st"
      using s(1) RunFinder by (auto simp: find_step_def result_simps split: if_splits finder.splits prod.splits)
    from Cons.IH [OF _ other_served [OF Cons.prems(2) this] s(2)] Cons.prems(1) RunFinder show ?thesis by simp
  next
    case (Lookup g)
    then have "xt_threads st1 = xt_threads st" "xt_data st1 = xt_data st" using s(1) by auto
    from Cons.IH [OF _ other_served [OF Cons.prems(2) this] s(2)] Cons.prems(1) Lookup show ?thesis by simp
  next
    case (Arrive p d)
    then have "xt_threads st1 = xt_threads st" "xt_data st1 = xt_data st" using s(1) by auto
    from Cons.IH [OF _ other_served [OF Cons.prems(2) this] s(2)] Cons.prems(1) Arrive show ?thesis by simp
  qed
qed

text \<open>
  C34: threads that copy in time. In every run in which a thread has copied its request
  before the listener takes the next, the i-th thread works on the i-th request and answers
  the address that sent it, whatever else is interleaved.
\<close>

theorem threads_serve:
  assumes "prompt None 0 es" "run_events (xt_step env) es (xt_start s) = Inr st"
  shows "length (xt_threads st) = length (accepted es)
     \<and> (\<forall>i<length (accepted es). works_on (accepted es ! i) (xt_threads st ! i))"
proof -
  have "served [] None (xt_start s)" by (simp add: served_def xt_start_def)
  from run_served [OF _ this assms(2)] assms(1) obtain pend where v: "served (accepted es) pend st" by auto
  from servedD(1,2) [OF v] show ?thesis by blast
qed

lemma threads_serve_witness:
  "\<exists>st. run_events (xt_step sample_env) [Request ''DOWNLOAD;10.0.0.2;5007;$;a'', Run 0, Request ''DOWNLOAD;10.0.0.3;5008;$;b'', Run 0]
        (xt_start (sample_peer 0 (\<lambda>_. None))) = Inr st
     \<and> length (xt_threads st) = 2 \<and> works_on \<lparr>cd_request = ''$;a'', cd_addr_back = ''10.0.0.2'', cd_port_back = 5007\<rparr> (xt_threads st ! 0)"
proof -
  let ?es = "[Request ''DOWNLOAD;10.0.0.2;5007;$;a'', Run 0, Request ''DOWNLOAD;10.0.0.3;5008;$;b'', Run 0]"
  have "\<exists>st. run_events (xt_step sample_env) ?es (xt_start (sample_peer 0 (\<lambda>_. None))) = Inr st"
    by (simp add: sample_request xt_start_def Client_communicate_Download_def GetNextForwardAddr_ok) (simp add: tokens_field [of "''$''", simplified])
  then obtain st where st: "run_events (xt_step sample_env) ?es (xt_start (sample_peer 0 (\<lambda>_. None))) = Inr st" by blast
  have "prompt None 0 ?es" by (simp add: sample_request)
  from threads_serve [OF this st] st show ?thesis by (auto simp: sample_request)
qed

text \<open>
  C36: a request overwritten. When two requests are taken before the thread of the first has
  copied it, both threads copy the second: its sender is answered twice, the sender of the
  first never.
\<close>

theorem request_overwritten:
  assumes "parse_request d1 = Some c1" "parse_request d2 = Some c2" "cd_request c2 = ''$;'' @ name"
    and "ok (vertex (localLatencyGraph (xt_client st)) (GetAddrNode (cd_addr_back c2) (global_nodeInfoList (xt_client st))))"
    and "env_aton env (cstr (cd_addr_back c2))"
  shows "let i = length (xt_threads st); s = xt_client st;
             answer = (cd_addr_back c2, cd_port_back c2 mod 65536, cstr (PackFileInfo env (sharedDirectory s @ name) s))
         in run_events (xt_step env) [Request d1, Request d2, Run i, Run (Suc i), Run i, Run (Suc i), Run i, Run (Suc i)] st
            = Inr (st\<lparr>xt_client := s\<lparr>xc_out := xc_out s @ [answer, answer]\<rparr>, xt_data := c2,
                     xt_threads := xt_threads st @ [Ended, Ended]\<rparr>)"
proof -
  have pack: "PackFileInfo env f (s\<lparr>xc_out := x\<rparr>) = PackFileInfo env f s" for f s x
    by (simp add: PackFileInfo_def File2String_def GetMD5_def Let_def)
  have m: "GetNextForwardAddr (CHR ''$'' # CHR '';'' # name) = Inr (''$'', name)" using route_next [OF field_ok_dollar, of name] by simp
  obtain v where v: "vertex (localLatencyGraph (xt_client st)) (GetAddrNode (cd_addr_back c2) (global_nodeInfoList (xt_client st))) = Inr v"
    using assms(4) by (auto simp: ok_def split: sum.splits)
  have two: "(xs @ [a, b])[Suc (length xs) := y] = xs @ [a, y]" "(xs @ [a, b]) ! Suc (length xs) = b"
    for xs :: "dthread list" and a b y by (simp_all add: list_update_append nth_append)
  obtain s dt ths fs sk where st: "st = \<lparr>xt_client = s, xt_data = dt, xt_threads = ths, xt_finders = fs, xt_sockets = sk\<rparr>" by (cases st)
  show ?thesis
    using assms(1,2,5) v
    by (simp add: Let_def Client_communicate_Download_def assms(3) m getPathLength_def xc_send_def pack two st)
qed

lemma request_overwritten_witness:
  "\<exists>st answer. run_events (xt_step sample_env) [Request ''DOWNLOAD;10.0.0.2;5007;$;a'', Request ''DOWNLOAD;10.0.0.3;5008;$;b'',
        Run 0, Run (Suc 0), Run 0, Run (Suc 0), Run 0, Run (Suc 0)] (xt_start (sample_peer 0 (\<lambda>_. None))) = Inr st
     \<and> xc_out (xt_client st) = [answer, answer] \<and> fst answer = ''10.0.0.3''"
proof -
  let ?st = "xt_start (sample_peer 0 (\<lambda>_. None))"
  let ?c = "\<lparr>cd_request = ''$;b'', cd_addr_back = ''10.0.0.3'', cd_port_back = 5008\<rparr>"
  have c: "cd_request ?c = ''$;'' @ ''b''"
    "ok (vertex (localLatencyGraph (xt_client ?st)) (GetAddrNode (cd_addr_back ?c) (global_nodeInfoList (xt_client ?st))))"
    "env_aton sample_env (cstr (cd_addr_back ?c))"
    by (simp_all add: xt_start_def sample_peer_def sample_env_def vertex_def Graph_new_def)
  from request_overwritten [OF sample_request(1,2) c]
  show ?thesis by (simp add: Let_def xt_start_def sample_peer_def)
qed

text \<open>
  C37: answers that cross. Two look-ups at once share the port 6003: the second cannot bind
  it and reads no answer, and the first takes the answer to the second for its own. So
  the heartbeat may load the nodes with some file as the list of all nodes.
\<close>

theorem lookups_cross:
  assumes "env_aton env (cstr (si_addr (trackingServerInfo (xt_client st))))" "xt_sockets st 6003 = None"
    and "length answer2 < XFS_BUFLEN" "cstr answer2 \<noteq> ''FAIL''"
  shows "let i = length (xt_finders st) in \<exists>st'.
     run_events (xt_step env) [Lookup f1, Lookup f2, RunFinder i, RunFinder i, RunFinder (Suc i), RunFinder (Suc i),
        Arrive 6003 answer2, RunFinder i, RunFinder (Suc i)] st = Inr st'
     \<and> xt_finders st' = xt_finders st @ [Found (cstr answer2), Found []]"
proof -
  have two: "(xs @ [a, b])[Suc (length xs) := y] = xs @ [a, y]" "(xs @ [a, b]) ! Suc (length xs) = b"
    for xs :: "finder list" and a b y by (simp_all add: list_update_append nth_append)
  show ?thesis
    using assms
    by (simp add: two Let_def find_step_def xc_send_def UDP_bind_def receive_end_def xc_receive_def deliver_def)
qed

lemma lookups_cross_witness:
  "\<exists>st'. run_events (xt_step sample_env) [Lookup ''global.txt'', Lookup ''a'', RunFinder 0, RunFinder 0, RunFinder (Suc 0),
        RunFinder (Suc 0), Arrive 6003 ''2;10.0.0.2'', RunFinder 0, RunFinder (Suc 0)] (xt_start (sample_peer 0 (\<lambda>_. None))) = Inr st'
     \<and> xt_finders st' = [Found ''2;10.0.0.2'', Found []]"
  using lookups_cross [of sample_env "xt_start (sample_peer 0 (\<lambda>_. None))" "''2;10.0.0.2''" "''global.txt''" "''a''"]
  by (simp add: Let_def xt_start_def sample_peer_def sample_env_def)

end
