(* ===== verification/XfsDelivery.thy ===== *)
theory XfsDelivery
  imports XfsLoop
begin

text \<open>
  A download that succeeds (\<open>Client::Download\<close> of Project3/Client/client.cpp): on a graph
  that holds the nodes the tracking server names, with a network whose answers fit the
  buffers and one node that does answer a direct request, the file is stored, however many
  of the other nodes, and of the hops of the shortest paths, never answer.
\<close>

section \<open>The surroundings\<close>

text \<open>
  Answers to what a download sends fit the receive buffer, and a load is never a number
  outside of \<open>int\<close>. A node the client can address has a vertex of the graph.
\<close>

definition asks :: "string \<Rightarrow> string \<Rightarrow> bool" where
  "asks op m \<longleftrightarrow> take (Suc (length op)) m = op @ '';''"

definition calm :: "xenv \<Rightarrow> bool" where
  "calm env \<longleftrightarrow> (\<forall>n t p m d. env_net env n (t, p, m) = Some d \<longrightarrow>
     (asks ''DOWNLOAD'' m \<or> asks ''GETLOAD'' m \<or> asks ''UPDATELIST'' m \<longrightarrow> length d < XFS_BUFLEN)
     \<and> (asks ''GETLOAD'' m \<longrightarrow> stoi (cstr d) \<noteq> Inl OutOfRange))"

lemma asks_command [simp]:
  "asks ''DOWNLOAD'' (command_text ''DOWNLOAD'' ip p req)" "asks ''GETLOAD'' (command_text ''GETLOAD'' ip p req)"
  "asks ''UPDATELIST'' (command_text ''UPDATELIST'' ip p req)"
  by (simp_all add: asks_def command_text_def snprintf_buf_def cstr_def)

definition can_send :: "xenv \<Rightarrow> string \<Rightarrow> bool" where
  "can_send env a \<longleftrightarrow> field_ok a \<and> a \<noteq> ''$'' \<and> env_aton env (cstr a)"

definition node_ok :: "xenv \<Rightarrow> nat \<Rightarrow> ServerInfo \<Rightarrow> bool" where
  "node_ok env n it \<longleftrightarrow> 0 \<le> si_id it \<and> si_id it < int n \<and> can_send env (si_addr it)"

text \<open>A node that answers a direct request for the file.\<close>

definition serves :: "xenv \<Rightarrow> string \<Rightarrow> ServerInfo \<Rightarrow> bool" where
  "serves env filename it \<longleftrightarrow>
     (\<forall>k p. isValidPort p \<longrightarrow> (\<exists>d. env_net env k (si_addr it, 6000, command_text ''DOWNLOAD'' (env_ip env) p (''$;'' @ filename)) = Some d
        \<and> cstr d \<noteq> [] \<and> cstr d \<noteq> ''FAIL''))"

text \<open>The client before and during its loop: ports, distances and routes it can read.\<close>

definition ready :: "xenv \<Rightarrow> xclient \<Rightarrow> bool" where
  "ready env s \<longleftrightarrow> downloadPortPool s \<noteq> [] \<and> (\<forall>p\<in>#mset (downloadPortPool s). isValidPort p) \<and> nodeID s \<noteq> 1 \<and> 0 \<le> nodeID s \<and> nodeID s < int (gV (localLatencyGraph s))
     \<and> can_send env (env_ip env) \<and> env_aton env (cstr (si_addr (trackingServerInfo s)))"

definition routed :: "xclient \<Rightarrow> bool" where
  "routed s \<longleftrightarrow> length (xc_dist s) = gV (localLatencyGraph s)
     \<and> (\<forall>v<gV (localLatencyGraph s). length (gpath (localLatencyGraph s) ! nat (nodeID s) ! v) = gV (localLatencyGraph s))
     \<and> (\<forall>v<gV (localLatencyGraph s). xc_dist s ! v \<le> MAX_LATENCY \<longrightarrow>
          (\<exists>p. row_is (gpath (localLatencyGraph s) ! nat (nodeID s) ! v) p))"

lemma ready_core: "core_eq s s' \<Longrightarrow> ready env s \<Longrightarrow> ready env s'"
  by (auto simp: ready_def core_eq_def)

lemma routed_core: "core_eq s s' \<Longrightarrow> routed s \<Longrightarrow> routed s'"
  by (auto simp: routed_def core_eq_def)

lemma shortestPath_routed:
  assumes "graph_ok (localLatencyGraph s)" "weights_ok (adj (localLatencyGraph s)) (gV (localLatencyGraph s)) W"
    and "0 \<le> nodeID s" "nodeID s < int (gV (localLatencyGraph s))"
  shows "\<exists>dist g. shortestPath pick (nodeID s) (localLatencyGraph s) = Some (Inr (dist, g))
     \<and> gV g = gV (localLatencyGraph s) \<and> routed (s\<lparr>xc_dist := dist, localLatencyGraph := g\<rparr>)"
proof -
  define v where "v = nat (nodeID s)"
  have v: "vertex (localLatencyGraph s) (nodeID s) = Inr v" using assms(3,4) by (simp add: vertex_def v_def)
  obtain dist rows where run: "shortestPath pick (nodeID s) (localLatencyGraph s)
        = Some (Inr (dist, (localLatencyGraph s)\<lparr>gpath := (gpath (localLatencyGraph s))[v := rows]\<rparr>))"
      "gpath ((localLatencyGraph s)\<lparr>gpath := (gpath (localLatencyGraph s))[v := rows]\<rparr>) ! v = rows"
    and inv: "sp_inv (adj (localLatencyGraph s)) (gV (localLatencyGraph s)) v
        (\<lambda>u. set (adj (localLatencyGraph s) ! u)) (dist, rows, [])"
    using shortestPath_run [OF assms(1,2) v] by blast
  have "routed (s\<lparr>xc_dist := dist, localLatencyGraph := (localLatencyGraph s)\<lparr>gpath := (gpath (localLatencyGraph s))[v := rows]\<rparr>\<rparr>)"
    using inv run(2) by (auto simp: routed_def sp_inv_def best_route_def v_def)
  with run(1) show ?thesis by force
qed

section \<open>Steps that cannot fail\<close>

lemma Communicate_returns:
  assumes "calm env" "op \<in> {''DOWNLOAD'', ''GETLOAD'', ''UPDATELIST''}" "env_aton env (cstr a)"
  shows "\<exists>r out. xc_Communicate env op a sp cp req s = Inr (r, s\<lparr>xc_out := out\<rparr>)"
proof -
  let ?m = "command_text op (env_ip env) cp req"
  have m: "asks ''DOWNLOAD'' ?m \<or> asks ''GETLOAD'' ?m \<or> asks ''UPDATELIST'' ?m" using assms(2) asks_command by blast
  have "\<exists>x. xc_receive (env_net env (length (xc_out s)) (a, sp mod 65536, ?m)) = Inr x"
  proof (cases "env_net env (length (xc_out s)) (a, sp mod 65536, ?m)")
    case (Some d)
    then have "length d < XFS_BUFLEN" using assms(1) m unfolding calm_def by blast
    then show ?thesis by (simp add: Some xc_receive_def)
  qed (simp add: xc_receive_def)
  then show ?thesis using assms(3) by (auto simp: xc_Communicate_def xc_send_def Let_def)
qed

lemma Communicate_load:
  assumes "calm env" "xc_Communicate env ''GETLOAD'' a sp cp req s = Inr (r, s')"
  shows "stoi r \<noteq> Inl OutOfRange"
proof -
  let ?m = "command_text ''GETLOAD'' (env_ip env) cp req"
  obtain x where x: "xc_receive (env_net env (length (xc_out s)) (a, sp mod 65536, ?m)) = Inr x"
    "r = (if x = ''FAIL'' then [] else x)"
    using assms(2) by (auto simp: xc_Communicate_def Let_def result_simps)
  have e: "stoi [] \<noteq> Inl OutOfRange" by code_simp
  show ?thesis
  proof (cases "x = ''FAIL''")
    case False
    then obtain d where "env_net env (length (xc_out s)) (a, sp mod 65536, ?m) = Some d" "x = cstr d"
      using x(1) by (auto simp: xc_receive_def split: option.splits if_splits)
    then show ?thesis using assms(1) asks_command(2) x(2) False unfolding calm_def by metis
  qed (use x e in simp)
qed

lemma GetNodeAddr_cases: "GetNodeAddr ID nodes = [] \<or> (\<exists>it\<in>set nodes. GetNodeAddr ID nodes = si_addr it)"
  by (induction nodes) auto

lemma GetNodeAddr_ok: "\<forall>it\<in>set nodes. node_ok env n it \<Longrightarrow> GetNodeAddr ID nodes = [] \<or> can_send env (GetNodeAddr ID nodes)"
  using GetNodeAddr_cases [of ID nodes] by (auto simp: node_ok_def)

lemma GetLoad_returns:
  assumes "calm env" "\<forall>it\<in>set nodes. node_ok env n it"
  shows "\<exists>l s'. GetLoad_from env ID nodes s = Inr (l, s')"
proof (cases "GetNodeAddr ID nodes = []")
  case False
  then have "env_aton env (cstr (GetNodeAddr ID nodes))" using GetNodeAddr_ok [OF assms(2)] by (auto simp: can_send_def)
  then obtain r out where c: "xc_Communicate env ''GETLOAD'' (GetNodeAddr ID nodes) 6001 6002 [] s = Inr (r, s\<lparr>xc_out := out\<rparr>)"
    using Communicate_returns [OF assms(1)] by fastforce
  from Communicate_load [OF assms(1) c] have "stoi r \<noteq> Inl OutOfRange" .
  then show ?thesis
    using c False by (auto simp: GetLoad_from_def stoi_def split: option.splits if_splits)
qed (simp add: GetLoad_from_def)

lemma loads_return:
  assumes "calm env" "\<forall>it\<in>set nodes. node_ok env n it"
  shows "\<exists>v s'. loads_loop env nodes its s = Inr (v, s')"
proof (induction its arbitrary: s)
  case (Cons it its)
  obtain l s1 where l: "GetLoad_from env (si_id it) nodes s = Inr (l, s1)" using GetLoad_returns [OF assms] by blast
  obtain v s2 where "loads_loop env nodes its s1 = Inr (v, s2)" using Cons by blast
  with l show ?case by simp
qed simp

lemma dists_return: "\<forall>p\<in>set ps. 0 \<le> fst p \<and> fst p < int (length dist) \<Longrightarrow> \<exists>v. dist_loop dist ps = Inr v"
  by (induction ps) (auto simp: dist_at_def)

lemma GetMinLoadNode_returns:
  assumes "calm env" "sorts_ok env" "nodes \<noteq> []" "\<forall>it\<in>set nodes. node_ok env n it" "length (xc_dist s) = n"
  shows "\<exists>i s'. GetMinLoadNode env nodes s = Inr (i, s')"
proof -
  obtain loads s1 where l: "loads_loop env nodes nodes s = Inr (loads, s1)" using loads_return [OF assms(1,4)] by blast
  have st: "map fst loads = map si_id nodes" "xc_dist s1 = xc_dist s"
    using loads_loop_state [OF l] only_out_core [of s s1] by (auto simp: core_eq_def)
  have so: "mset (env_sort_load env loads) = mset loads" using assms(2) by (simp add: sorts_ok_def)
  moreover have "loads \<noteq> []" using st(1) assms(3) by auto
  ultimately obtain x xs where x: "env_sort_load env loads = x # xs" by (cases "env_sort_load env loads") auto
  let ?ties = "takeWhile (\<lambda>p. snd p = snd x) (x # xs)"
  have sub: "set ?ties \<subseteq> set loads" using so x set_takeWhileD by (metis set_mset_mset subsetI)
  have "fst p \<in> si_id ` set nodes" if "p \<in> set loads" for p
    using that st(1) by (metis image_eqI list.set_map)
  then have "\<forall>p\<in>set ?ties. 0 \<le> fst p \<and> fst p < int (length (xc_dist s1))"
    using sub assms(4,5) st(2) by (fastforce simp: node_ok_def)
  then obtain v where v: "dist_loop (xc_dist s1) ?ties = Inr v" using dists_return by blast
  have "length v = length ?ties" using dist_loop_eq [OF v] by simp
  moreover have "mset (env_sort_dist env v) = mset v" using assms(2) by (simp add: sorts_ok_def)
  ultimately obtain c cs where c: "env_sort_dist env v = c # cs"
    by (cases "env_sort_dist env v") (auto dest: arg_cong [where f = size])
  show ?thesis
    using l x v c by (cases "length ?ties = 1") (auto simp: GetMinLoadNode_def Let_def simp del: takeWhile.simps)
qed

section \<open>One node\<close>

lemma hops_can_send:
  assumes "can_send env (env_ip env)" "\<forall>it\<in>set nodes. node_ok env n it"
  shows "\<forall>h\<in>set (LoadInfoListByID (env_ip env) its nodes). can_send env (si_addr h)"
  using assms(1) GetNodeAddr_ok [OF assms(2)] by (induction its) (auto simp: Let_def)

lemma FillForwardList_returns:
  assumes "ready env s" "routed s" "\<forall>it\<in>set nodes. node_ok env (gV (localLatencyGraph s)) it" "i \<in> si_id ` set nodes"
  shows "\<exists>fl. FillForwardList env nodes i s = Inr fl \<and> (\<forall>h\<in>set fl. can_send env (si_addr h))"
proof -
  let ?g = "localLatencyGraph s"
  have i: "0 \<le> i" "i < int (gV ?g)" using assms(3,4) by (auto simp: node_ok_def)
  then have d: "dist_at (xc_dist s) i = Inr (xc_dist s ! nat i)" using assms(2) by (simp add: dist_at_def routed_def)
  have v: "vertex ?g (nodeID s) = Inr (nat (nodeID s))" "vertex ?g i = Inr (nat i)"
    using assms(1) i by (simp_all add: ready_def vertex_def)
  show ?thesis
  proof (cases "xc_dist s ! nat i > MAX_LATENCY")
    case True
    then show ?thesis using d by (simp add: FillForwardList_def)
  next
    case False
    then obtain p where "row_is (gpath ?g ! nat (nodeID s) ! nat i) p" using assms(2) i by (fastforce simp: routed_def)
    then have "\<exists>q. path_row ?g (nodeID s) i = Inr q" using v by (simp add: path_row_def row_is_def Let_def)
    then show ?thesis
      using d False hops_can_send [OF _ assms(3)] assms(1) by (auto simp: FillForwardList_def ready_def)
  qed
qed

lemma ForwardDownload_returns:
  assumes "calm env" "ready env s" "\<forall>h\<in>set fl. can_send env (si_addr h)"
  shows "\<exists>r s'. ForwardDownload env (PackForwardRequest fl filename) s = Inr (r, s')"
proof (cases fl)
  case Nil
  then show ?thesis using route_next [OF field_ok_dollar, of filename] by (simp add: ForwardDownload_def pack_Nil)
next
  case (Cons h hops)
  have h: "field_ok (si_addr h)" "si_addr h \<noteq> ''$''" "env_aton env (cstr (si_addr h))"
    using assms(3) Cons by (auto simp: can_send_def)
  obtain p ps where p: "downloadPortPool s = p # ps" using assms(2) by (cases "downloadPortPool s") (auto simp: ready_def)
  let ?s0 = "s\<lparr>Load := Load s + 1, downloadPortPool := ps\<rparr>"
  obtain r out where "xc_Communicate env ''DOWNLOAD'' (si_addr h) 6000 p (PackForwardRequest hops filename) ?s0
      = Inr (r, ?s0\<lparr>xc_out := out\<rparr>)"
    using Communicate_returns [OF assms(1) _ h(3)] by fastforce
  then show ?thesis
    using h p assms(2) Cons by (auto simp: ForwardDownload_def pack_Cons GetPort_def add_noise_def ready_def)
qed

lemma direct_request: "a @ '';$;'' @ filename = PackForwardRequest [\<lparr>si_addr = a, si_id = i\<rparr>] filename"
  by (simp add: pack_Cons pack_Nil)

lemma direct_answer:
  assumes "calm env" "ready env s" "serves env filename it" "can_send env (si_addr it)"
    and "ForwardDownload env (si_addr it @ '';$;'' @ filename) s = Inr (r, s')"
  shows "r \<noteq> []"
proof -
  have h: "field_ok (si_addr it)" "si_addr it \<noteq> ''$''" using assms(4) by (auto simp: can_send_def)
  obtain p ps where p: "downloadPortPool s = p # ps" using assms(2) by (cases "downloadPortPool s") (auto simp: ready_def)
  let ?s0 = "s\<lparr>Load := Load s + 1, downloadPortPool := ps\<rparr>"
  obtain r1 s1 where c: "xc_Communicate env ''DOWNLOAD'' (si_addr it) 6000 p (''$;'' @ filename) ?s0 = Inr (r1, s1)"
    and a: "add_noise env r1 s1 = Inr r"
    using assms(5) h p by (auto simp: ForwardDownload_def GetPort_def result_simps split: if_splits)
  obtain d where "env_net env (length (xc_out ?s0)) (si_addr it, 6000, command_text ''DOWNLOAD'' (env_ip env) p (''$;'' @ filename)) = Some d"
    "cstr d \<noteq> []" "cstr d \<noteq> ''FAIL''"
    using assms(2,3) p unfolding serves_def ready_def by fastforce
  then have "r1 \<noteq> []" using c by (auto simp: xc_Communicate_def xc_receive_def Let_def result_simps split: if_splits)
  moreover have "nodeID s1 \<noteq> 1" using xc_Communicate_state [OF c] assms(2) by (auto simp: ready_def)
  ultimately show ?thesis using a by (auto simp: add_noise_def)
qed

lemma validate_returns:
  assumes "calm env" "ready env s"
  shows "\<exists>a s'. validate env r filename s = Inr (a, s') \<and> a \<noteq> Failed"
proof -
  have "\<exists>s'. UpdateList env (String2File f c s) = Inr s'" for f c
  proof -
    have "env_aton env (cstr (si_addr (trackingServerInfo (String2File f c s))))"
      using assms(2) by (simp add: ready_def String2File_def)
    from Communicate_returns [OF assms(1) _ this] obtain r out where
      "xc_Communicate env ''UPDATELIST'' (si_addr (trackingServerInfo (String2File f c s))) 6000 6004
         (PackFilelistInfo (String2File f c s)) (String2File f c s) = Inr (r, (String2File f c s)\<lparr>xc_out := out\<rparr>)" by blast
    then show ?thesis by (simp add: UpdateList_def Let_def)
  qed
  then obtain s' where u: "UpdateList env (String2File (sharedDirectory s @ filename) (drop 32 r) s) = Inr s'" by blast
  then show ?thesis
    by (cases "CompareMD5 env (take 32 r) (drop 32 r)") (simp_all add: validate_def ValidatePackedData_def UnpackFileInfo_def)
qed

lemma download_from_returns:
  assumes env: "calm env" "honest env" "md5_ok (env_md5 env)" and s: "ready env s" "routed s"
    and nodes: "\<forall>it\<in>set nodes. node_ok env (gV (localLatencyGraph s)) it" "i \<in> si_id ` set nodes"
  shows "\<exists>a s'. download_from env filename nodes i s = Inr (a, s') \<and> a \<noteq> Mismatch
     \<and> (\<forall>it. GetNodeAddr i nodes = si_addr it \<and> serves env filename it \<and> can_send env (si_addr it) \<longrightarrow> a = Stored)"
proof -
  obtain fl where fl: "FillForwardList env nodes i s = Inr fl" "\<forall>h\<in>set fl. can_send env (si_addr h)"
    using FillForwardList_returns [OF s nodes] by blast
  obtain r s1 where f: "ForwardDownload env (PackForwardRequest fl filename) s = Inr (r, s1)"
    using ForwardDownload_returns [OF env(1) s(1) fl(2)] by blast
  have r1: "ready env s1" using ready_core ForwardDownload_state [OF f] s(1) by blast
  have n: "nodeID s \<noteq> 1" using s(1) by (simp add: ready_def)
  note nm = download_from_honest [OF env(2,3) n, of filename nodes i]
  show ?thesis
  proof (cases "r = []")
    case False
    obtain a s2 where v: "validate env r filename s1 = Inr (a, s2)" "a \<noteq> Failed" using validate_returns [OF env(1) r1] by blast
    then have d: "download_from env filename nodes i s = Inr (a, s2)" using fl f False by (simp add: download_from_def)
    with v(2) nm show ?thesis by (cases a) auto
  next
    case True
    let ?a = "GetNodeAddr i nodes"
    have "?a = si_addr it \<Longrightarrow> can_send env (si_addr it) \<Longrightarrow> can_send env ?a" for it by simp
    obtain it where it: "it \<in> set nodes" "si_id it = i" using nodes(2) by blast
    have "\<exists>h\<in>set nodes. ?a = si_addr h" using it by (induction nodes) auto
    then have sa: "can_send env ?a" using nodes(1) by (auto simp: node_ok_def)
    obtain d s2 where d: "ForwardDownload env (?a @ '';$;'' @ filename) s1 = Inr (d, s2)"
      using ForwardDownload_returns [OF env(1) r1, where fl = "[\<lparr>si_addr = ?a, si_id = i\<rparr>]" and filename = filename] sa unfolding direct_request [of _ _ i] by auto
    have r2: "ready env s2" using ready_core ForwardDownload_state [OF d] r1 by blast
    obtain a s3 where v: "validate env d filename s2 = Inr (a, s3)" "a \<noteq> Failed" using validate_returns [OF env(1) r2] by blast
    have e: "download_from env filename nodes i s = (if d \<noteq> [] then Inr (a, s3) else Inr (Failed, s2))"
      using fl f True d v by (simp add: download_from_def)
    have ans: "?a = si_addr it \<and> serves env filename it \<and> can_send env (si_addr it) \<longrightarrow> d \<noteq> []" for it
      using direct_answer [OF env(1) r1, of filename it] d by metis
    show ?thesis
    proof (cases "d = []")
      case True
      then show ?thesis using e ans by auto
    next
      case False
      then show ?thesis using e v(2) nm by (cases a) auto
    qed
  qed
qed

section \<open>The whole download\<close>

lemma GetNodeAddr_mem: "distinct (map si_id nodes) \<Longrightarrow> it \<in> set nodes \<Longrightarrow> GetNodeAddr (si_id it) nodes = si_addr it"
  by (induction nodes) force+

lemma RemoveNodeInfo_filter: "distinct (map si_id nodes) \<Longrightarrow> RemoveNodeInfo i nodes = filter (\<lambda>it. si_id it \<noteq> i) nodes"
proof (induction nodes)
  case (Cons it its)
  moreover from this have "si_id x \<noteq> si_id it" if "x \<in> set its" for x using that by (metis distinct.simps(2) image_eqI list.set_map list.simps(9))
  ultimately show ?case by (cases "si_id it = i") (auto intro!: filter_True [symmetric])
qed simp

lemma RemoveNodeInfo_distinct: "distinct (map si_id nodes) \<Longrightarrow> distinct (map si_id (RemoveNodeInfo i nodes))"
  by (simp add: RemoveNodeInfo_filter distinct_map inj_on_def)

lemma download_loop_stores:
  assumes env: "calm env" "honest env" "md5_ok (env_md5 env)" "sorts_ok env"
    and "ready env s" "routed s" "\<forall>it\<in>set nodes. node_ok env (gV (localLatencyGraph s)) it" "distinct (map si_id nodes)"
    and "it \<in> set nodes" "si_id it \<noteq> nodeID s" "serves env filename it"
  shows "\<exists>s'. download_loop env filename nodes s = Some (Inr (True, s'))"
  using assms(5-)
proof (induction "length nodes" arbitrary: nodes s rule: less_induct)
  case less
  let ?g = "localLatencyGraph s"
  have ne: "nodes \<noteq> []" using less.prems(5) by auto
  obtain i s1 where g: "GetMinLoadNode env nodes s = Inr (i, s1)"
    using GetMinLoadNode_returns [OF env(1,4) ne less.prems(3), of s] less.prems(2) by (auto simp: routed_def)
  note c1 = conjunct1 [OF GetMinLoadNode_state [OF g]]
  have i: "i \<in> si_id ` set nodes" using min_load_least [OF env(4) g] by blast
  have loop: "\<exists>s'. download_loop env filename (RemoveNodeInfo i nodes) t = Some (Inr (True, s'))"
    if c: "core_eq s t" and r: "si_id it \<noteq> i" for t
  proof (rule less.hyps [OF length_RemoveNodeInfo [OF i]])
    show "ready env t" "routed t" using ready_core [OF c] routed_core [OF c] less.prems(1,2) by blast+
    show "\<forall>it\<in>set (RemoveNodeInfo i nodes). node_ok env (gV (localLatencyGraph t)) it" "it \<in> set (RemoveNodeInfo i nodes)"
      using less.prems(3-5) c r by (auto simp: RemoveNodeInfo_filter core_eq_def)
    show "si_id it \<noteq> nodeID t" using less.prems(6) c by (simp add: core_eq_def)
  qed (rule RemoveNodeInfo_distinct [OF less.prems(4)], rule less.prems(7))
  show ?case
  proof (cases "i = nodeID s1")
    case True
    then have "si_id it \<noteq> i" using less.prems(6) c1 by (simp add: core_eq_def)
    then show ?thesis using loop [OF c1] True g ne by (subst download_loop.simps) simp
  next
    case False
    have s1: "ready env s1" "routed s1" "\<forall>it\<in>set nodes. node_ok env (gV (localLatencyGraph s1)) it"
      using ready_core [OF c1] routed_core [OF c1] less.prems(1-3) c1 by (auto simp: core_eq_def)
    obtain a s2 where d: "download_from env filename nodes i s1 = Inr (a, s2)" "a \<noteq> Mismatch"
      "GetNodeAddr i nodes = si_addr it \<and> can_send env (si_addr it) \<longrightarrow> a = Stored"
      using download_from_returns [OF env(1-3) s1 i, of filename] less.prems(7) by blast
    have "core_eq s1 s2" using download_from_state [OF d(1)] by (simp add: attempt_ok_def)
    note c2 = core_eq_trans [OF c1 this]
    have "si_id it \<noteq> i" if "a \<noteq> Stored"
      using d(3) that GetNodeAddr_mem [OF less.prems(4,5)] less.prems(3,5) by (auto simp: node_ok_def)
    then show ?thesis using loop [OF c2] False g ne d(1,2) by (subst download_loop.simps) auto
  qed
qed

lemma Download_stores:
  assumes "calm env" "honest env" "md5_ok (env_md5 env)" "sorts_ok env" "ready env s"
    and "graph_ok (localLatencyGraph s)" "weights_ok (adj (localLatencyGraph s)) (gV (localLatencyGraph s)) W"
    and "xc_Find env filename s = Inr (r, s1)" "r \<notin> {[], ''EMPTY''}" "LoadServerInfo r [] = Inr nodes"
    and "\<forall>it\<in>set nodes. node_ok env (gV (localLatencyGraph s)) it" "distinct (map si_id nodes)"
    and "it \<in> set nodes" "si_id it \<noteq> nodeID s" "serves env filename it"
  shows "\<exists>s'. Download env filename s = Some (Inr (True, s'))"
proof -
  obtain out where s1: "s1 = s\<lparr>xc_out := out\<rparr>"
    using assms(8) xc_Communicate_state by (fastforce simp: xc_Find_def)
  have s1': "ready env s1" "localLatencyGraph s1 = localLatencyGraph s" "nodeID s1 = nodeID s"
    using assms(5) by (simp_all add: s1 ready_def)
  obtain dist g where p: "shortestPath (env_pick env) (nodeID s1) (localLatencyGraph s1) = Some (Inr (dist, g))"
    "gV g = gV (localLatencyGraph s1)" "routed (s1\<lparr>xc_dist := dist, localLatencyGraph := g\<rparr>)"
    using shortestPath_routed [of s1 W "env_pick env"] assms(6,7) s1' by (auto simp: ready_def)
  have "ready env (s1\<lparr>xc_dist := dist, localLatencyGraph := g\<rparr>)" using s1'(1) p(2) by (simp add: ready_def)
  then have "\<exists>s'. download_loop env filename nodes (s1\<lparr>xc_dist := dist, localLatencyGraph := g\<rparr>) = Some (Inr (True, s'))"
    using p s1' assms(11-15) by (intro download_loop_stores [OF assms(1-4)]) auto
  then show ?thesis using assms(8-10) p(1) by (auto simp: Download_def)
qed

text \<open>
  A node that is too far: the request has no hop and is answered from the client's own disk,
  so a client that has the file already "downloads" its own copy, one NUL longer each time.
\<close>

theorem far_node_own_copy:
  assumes "calm env" "ready env s" "md5_ok (env_md5 env)"
    and "dist_at (xc_dist s) i = Inr d" "d > MAX_LATENCY" "disk s (sharedDirectory s @ filename) = Some c" "length c < MAX_FILESIZE"
  shows "\<exists>s'. download_from env filename nodes i s = Inr (Stored, s')
     \<and> disk s' = (disk s)(sharedDirectory s @ filename \<mapsto> c @ [CHR 0x00])"
proof -
  let ?r = "env_md5 env (cstr c) @ c @ [CHR 0x00]"
  have "PackFileInfo env (sharedDirectory s @ filename) s = ?r" by (rule PackFileInfo_eq [OF assms(6,7)])
  then have f: "ForwardDownload env (PackForwardRequest [] filename) s = Inr (?r, s)"
    using route_next [OF field_ok_dollar, of filename] by (simp add: ForwardDownload_def pack_Nil)
  have m: "CompareMD5 env (take 32 ?r) (drop 32 ?r)" "drop 32 ?r = c @ [CHR 0x00]"
    using assms(3) by (simp_all add: CompareMD5_def md5_ok_def cstr_snoc_nul)
  obtain a s' where v: "validate env ?r filename s = Inr (a, s')" using validate_returns [OF assms(1,2)] by blast
  then obtain s1 where u: "UpdateList env (String2File (sharedDirectory s @ filename) (c @ [CHR 0x00]) s) = Inr s1" "a = Stored" "s' = s1"
    using m by (auto simp: validate_def ValidatePackedData_def UnpackFileInfo_def result_simps)
  have "download_from env filename nodes i s = Inr (Stored, s')"
    using assms(4,5) f v u(2) by (simp add: download_from_def FillForwardList_def)
  then show ?thesis using UpdateList_state [OF u(1)] u(3) by (auto simp: String2File_def)
qed

end
