(* ===== verification/XfsSystem.thy ===== *)
theory XfsSystem
  imports XfsLoop
begin

text \<open>
  The xFS parts together: what the tracking server answers is what the client loads, what
  a client announces is what the server then finds, and a request that travels a source
  route comes back with the last peer's file. In \<open>chain_reply\<close> every peer runs its own
  listener step on the request it is sent and asks the next peer the same way; the nesting
  depth bounds the number of hops, and a timeout is the answer when it is used up.
\<close>

section \<open>FIND\<close>

lemma load_info_loop_answer:
  "list_all client_ok cs \<Longrightarrow> load_info_loop (answer_fields cs) acc
     = Inr (acc @ map (\<lambda>c. \<lparr>si_addr = ci_host c, si_id = ci_id c\<rparr>) cs)"
proof (induction cs arbitrary: acc)
  case (Cons c cs)
  then show ?case by (simp add: answer_fields_def client_ok_def stoi_to_string)
qed (simp add: answer_fields_def)

definition find_answer :: "string \<Rightarrow> xserver \<Rightarrow> string" where
  "find_answer filename t =
     (let cs = filter (has_file filename) (clientInfoList t)
      in if cs = [] then ''EMPTY'' else join_fields (CHR '';'') (answer_fields cs))"

lemma find_message:
  assumes "tracker_ok t" "isValidIP ip" "CHR 0x00 \<notin> set ip" "aton ip" "field_ok filename" "length filename < 60000"
  shows "FindRes_step aton (command_text ''FIND'' ip 6003 filename) t
      = Inr (t\<lparr>xs_out := xs_out t @ [(ip, 6003, find_answer filename t)]\<rparr>)"
    "cstr (command_text ''FIND'' ip 6003 filename) = command_text ''FIND'' ip 6003 filename"
proof -
  let ?m = "join_fields (CHR '';'') (find_fields ip 6003 filename)"
  have six: "to_string 6003 = ''6003''" by code_simp
  have f: "field_ok ip" "length ip \<le> 15"
    using assms(2,3) isValidIP_clean [of ip] isValidIP_not_Nil [of ip] isValidIP_length [of ip] by (auto simp: field_ok_def)
  have nul: "CHR 0x00 \<notin> set filename" using assms(5) by (simp add: field_ok_def)
  have m: "command_text ''FIND'' ip 6003 filename = ?m"
    using f(2) assms(3,6) nul by (simp add: command_text_def find_fields_def snprintf_buf_def six)
  have "length ?m \<le> XFS_BUFLEN" using f(2) assms(6) by (simp add: find_fields_def six)
  then show "FindRes_step aton (command_text ''FIND'' ip 6003 filename) t
      = Inr (t\<lparr>xs_out := xs_out t @ [(ip, 6003, find_answer filename t)]\<rparr>)"
    unfolding m find_answer_def using FindRes_step_eq [of ip 6003 filename aton t ?m] f(1) assms(1,4,5)
    by (simp add: is_int32_def Let_def)
  show "cstr (command_text ''FIND'' ip 6003 filename) = command_text ''FIND'' ip 6003 filename"
    unfolding m using f(1) nul by (simp add: find_fields_def six field_ok_def)
qed

lemma find_answer_loads:
  assumes "tracker_ok t" "filter (has_file filename) (clientInfoList t) \<noteq> []"
  shows "LoadServerInfo (find_answer filename t) []
      = Inr (map (\<lambda>c. \<lparr>si_addr = ci_host c, si_id = ci_id c\<rparr>) (filter (has_file filename) (clientInfoList t)))"
proof -
  have ok: "list_all client_ok (filter (has_file filename) (clientInfoList t))"
    using assms(1) by (auto simp: tracker_ok_def list_all_iff)
  show ?thesis
    using load_info_loop_answer [OF ok, of "[]"] tokens_join_semicolon(2) [OF answer_fields_ok [OF ok]] assms(2)
    by (simp add: LoadServerInfo_def find_answer_def Let_def)
qed

text \<open>
  FIND from end to end. The client's request, handled by a well-formed tracking
  server, is answered at the port the client waits on; when some client announced the file
  the answer loads as exactly the IDs and addresses of those that did, in order, else it
  is \<open>EMPTY\<close>.
\<close>

theorem find_roundtrip:
  assumes "tracker_ok t" "isValidIP (env_ip env)" "CHR 0x00 \<notin> set (env_ip env)" "aton (env_ip env)"
    and "field_ok filename" "length filename < 60000"
    and "xc_Find env filename s = Inr (r, s')"
  shows "\<exists>m msg. xc_out s' = xc_out s @ [(si_addr (trackingServerInfo s), 6001, m)]
     \<and> FindRes_step aton m t = Inr (t\<lparr>xs_out := xs_out t @ [(env_ip env, 6003, msg)]\<rparr>)
     \<and> (let cs = filter (has_file filename) (clientInfoList t)
        in if cs = [] then msg = ''EMPTY''
           else LoadServerInfo msg [] = Inr (map (\<lambda>c. \<lparr>si_addr = ci_host c, si_id = ci_id c\<rparr>) cs))"
proof -
  note f = find_message [where aton = aton, OF assms(1-6)]
  have "xc_out s' = xc_out s @ [(si_addr (trackingServerInfo s), 6001, command_text ''FIND'' (env_ip env) 6003 filename)]"
    using assms(7) f(2) by (auto simp: xc_Find_def xc_Communicate_def xc_send_def Let_def result_simps split: if_splits)
  then show ?thesis
    using f(1) find_answer_loads [OF assms(1), of filename]
    by (intro exI [of _ "command_text ''FIND'' (env_ip env) 6003 filename"] exI [of _ "find_answer filename t"])
      (simp add: Let_def find_answer_def)
qed

lemma find_roundtrip_witness:
  "\<exists>r s' m msg. xc_Find sample_env ''a.txt'' (sample_peer 0 (\<lambda>_. None)) = Inr (r, s')
     \<and> FindRes_step (\<lambda>a. a \<noteq> []) m sample_tracker = Inr (sample_tracker\<lparr>xs_out := [(''10.0.0.1'', 6003, msg)]\<rparr>)
     \<and> LoadServerInfo msg [] = Inr [\<lparr>si_addr = ''10.0.0.1'', si_id = 1\<rparr>, \<lparr>si_addr = ''10.0.0.3'', si_id = 3\<rparr>]"
proof -
  obtain r s' where f: "xc_Find sample_env ''a.txt'' (sample_peer 0 (\<lambda>_. None)) = Inr (r, s')"
    by (simp add: xc_Find_def xc_Communicate_def xc_send_def xc_receive_def Let_def sample_env_def sample_peer_def)
  have ip: "isValidIP ''10.0.0.1''" by code_simp
  have cs: "filter (has_file ''a.txt'') (clientInfoList sample_tracker)
      = [clientInfoList sample_tracker ! 0, clientInfoList sample_tracker ! 2]"
    by (simp add: sample_tracker_def has_file_def)
  have g: "filter (has_file ''a.txt'') (clientInfoList sample_tracker) \<noteq> []" by (simp add: cs)
  obtain m msg where "FindRes_step (\<lambda>a. a \<noteq> []) m sample_tracker = Inr (sample_tracker\<lparr>xs_out := xs_out sample_tracker @ [(''10.0.0.1'', 6003, msg)]\<rparr>)"
    "LoadServerInfo msg [] = Inr (map (\<lambda>c. \<lparr>si_addr = ci_host c, si_id = ci_id c\<rparr>) [clientInfoList sample_tracker ! 0, clientInfoList sample_tracker ! 2])"
    using find_roundtrip [OF sample_tracker_ok _ _ _ _ _ f, of "\<lambda>a. a \<noteq> []"] ip g
    unfolding Let_def cs [symmetric] by (auto simp: sample_env_def field_ok_def)
  then have "\<exists>m msg. FindRes_step (\<lambda>a. a \<noteq> []) m sample_tracker = Inr (sample_tracker\<lparr>xs_out := [(''10.0.0.1'', 6003, msg)]\<rparr>)
     \<and> LoadServerInfo msg [] = Inr [\<lparr>si_addr = ''10.0.0.1'', si_id = 1\<rparr>, \<lparr>si_addr = ''10.0.0.3'', si_id = 3\<rparr>]"
    by (auto simp: sample_tracker_def)
  then show ?thesis using f by blast
qed

section \<open>UPDATELIST\<close>

text \<open>
  Files whose entry fits the 288-byte buffer of \<open>PackFilelistInfo\<close>: with a checksum of 32
  characters, names of at most 253.
\<close>

definition announced_ok :: "FileInfo \<Rightarrow> bool" where
  "announced_ok f \<longleftrightarrow> field_ok (fi_name f) \<and> length (fi_name f) \<le> 253 \<and> field_ok (fi_checksum f) \<and> length (fi_checksum f) = 32"

definition file_pairs :: "FileInfo list \<Rightarrow> (string \<times> string) list" where
  "file_pairs fs = map (\<lambda>f. (fi_name f, fi_checksum f)) fs"

lemma file_pairs_ok: "list_all announced_ok fs \<Longrightarrow> list_all file_ok (file_pairs fs) \<and> map file_of (file_pairs fs) = fs"
  by (induction fs) (auto simp: file_pairs_def file_ok_def announced_ok_def file_of_def)

lemma pack_files_eq:
  "list_all announced_ok fs \<Longrightarrow> pack_files fs acc
     = acc @ concat (map (\<lambda>f. f @ '';'') (concat (map (\<lambda>(f, c). [f, c]) (file_pairs fs))))"
proof (induction fs arbitrary: acc)
  case (Cons f fs)
  have "snprintf_buf 288 (fi_name f @ '';'' @ cstr (fi_checksum f) @ '';'') = fi_name f @ '';'' @ fi_checksum f @ '';''"
  proof -
    have l: "length (fi_name f @ '';'' @ fi_checksum f @ '';'') \<le> 288 - 1" and
      n: "cstr (fi_name f @ '';'' @ fi_checksum f @ '';'') = fi_name f @ '';'' @ fi_checksum f @ '';''"
      "cstr (fi_checksum f) = fi_checksum f"
      using Cons.prems by (auto simp: announced_ok_def field_ok_def)
    show ?thesis unfolding snprintf_buf_def n by (rule take_all [OF l])
  qed
  then show ?case using Cons by (simp add: file_pairs_def)
qed (simp add: file_pairs_def)

lemma update_text:
  assumes "list_all announced_ok fs"
  shows "''UPDATELIST;'' @ ip @ '';'' @ to_string 6004 @ '';'' @ pack_files fs (to_string ID @ '';'')
     = join_fields (CHR '';'') (update_fields ip 6004 ID (file_pairs fs)) @ '';''"
  using join_fields_terminated [of "CHR '';''" "''UPDATELIST''" "ip # to_string 6004 # to_string ID # concat (map (\<lambda>(f, c). [f, c]) (file_pairs fs))"]
  by (simp add: pack_files_eq [OF assms] update_fields_def)

lemma add_files_found:
  "\<exists>c\<in>set (add_files ID ip p fs cs). client_key c = (ID, ip, p) \<and> (\<forall>f\<in>set fs. has_file (fi_name f) c)"
  by (induction cs) (auto simp: same_client_def has_file_def)


section \<open>A request along its route\<close>

text \<open>
  The answer of the peer at an address: the last datagram its listener step sends when the
  peers behind it answer at depth \<open>k\<close>. Peers are taken in the state \<open>nodes\<close> gives.
\<close>

fun chain_reply ::
  "xenv \<Rightarrow> (string \<Rightarrow> xclient option) \<Rightarrow> nat \<Rightarrow> string \<times> int \<times> string \<Rightarrow> string option" where
  "chain_reply env nodes 0 pkt = None"
| "chain_reply env nodes (Suc k) pkt =
     (case nodes (fst pkt) of None \<Rightarrow> None
      | Some s \<Rightarrow>
          if fst (snd pkt) \<noteq> 6000 then None
          else case xc_listen_step (env\<lparr>env_ip := fst pkt, env_net := \<lambda>_. chain_reply env nodes k\<rparr>) (snd (snd pkt)) s of
            Some (Inr s') \<Rightarrow>
              if length (xc_out s') = length (xc_out s) then None else Some (snd (snd (last (xc_out s'))))
          | _ \<Rightarrow> None)"

abbreviation hop_env :: "xenv \<Rightarrow> (string \<Rightarrow> xclient option) \<Rightarrow> nat \<Rightarrow> string \<Rightarrow> xenv" where
  "hop_env env nodes k ip \<equiv> env\<lparr>env_ip := ip, env_net := \<lambda>_. chain_reply env nodes k\<rparr>"

text \<open>
  The client at \<open>ip\<close> can ask the next peer: a free valid port, addresses that resolve, and
  the next peer knows the client's ID as a vertex of its graph.
\<close>

definition link_ok :: "xenv \<Rightarrow> string \<Rightarrow> xclient \<Rightarrow> string \<Rightarrow> xclient \<Rightarrow> bool" where
  "link_ok env ip s h s' \<longleftrightarrow> downloadPortPool s \<noteq> [] \<and> isValidPort (hd (downloadPortPool s)) \<and> nodeID s \<noteq> 1
     \<and> field_ok h \<and> h \<noteq> ''$'' \<and> env_aton env h
     \<and> isValidIP ip \<and> CHR 0x00 \<notin> set ip \<and> env_aton env ip
     \<and> ok (vertex (localLatencyGraph s') (GetAddrNode ip (global_nodeInfoList s')))"

fun path_ok ::
  "xenv \<Rightarrow> (string \<Rightarrow> xclient option) \<Rightarrow> string \<Rightarrow> string \<Rightarrow> string \<Rightarrow> xclient \<Rightarrow> ServerInfo list \<Rightarrow> bool" where
  "path_ok env nodes filename c ip s [] = (disk s (sharedDirectory s @ filename) = Some c)"
| "path_ok env nodes filename c ip s (h # hops) =
     (case nodes (si_addr h) of None \<Rightarrow> False
      | Some s' \<Rightarrow> link_ok env ip s (si_addr h) s' \<and> path_ok env nodes filename c (si_addr h) s' hops)"

lemma listen_download:
  assumes "isValidIP ip" "CHR 0x00 \<notin> set ip" "isValidPort p" "CHR 0x00 \<notin> set req" "length req < 65000"
  shows "xc_listen_step env (command_text ''DOWNLOAD'' ip p req) s = Some (serve_download env ip p req s)"
    "cstr (command_text ''DOWNLOAD'' ip p req) = command_text ''DOWNLOAD'' ip p req"
proof -
  let ?m = "''DOWNLOAD'' @ CHR '';'' # ip @ CHR '';'' # to_string p @ CHR '';'' # req"
  have f: "field_ok ip" "length ip \<le> 15"
    using assms(1,2) isValidIP_clean [of ip] isValidIP_not_Nil [of ip] isValidIP_length [of ip] by (auto simp: field_ok_def)
  have l: "length (to_string p) \<le> 5" using assms(3) by (rule length_to_string_port)
  have n: "cstr ?m = ?m" using assms(2,4) by simp
  have "length ?m < 65536" using f(2) l assms(5) by simp
  then have m: "command_text ''DOWNLOAD'' ip p req = ?m"
    using n assms(4) by (simp add: command_text_def snprintf_buf_def)
  have c: "cstr (take XFS_BUFLEN ?m) = ?m" using n \<open>length ?m < 65536\<close> by (simp add: take_all)
  have t: "tokens '';'' ?m = ''DOWNLOAD'' # ip # to_string p # tokens '';'' req"
    using f by (simp only: tokens_field field_ok_def to_string_not_Nil to_string_no_semicolon) (subst tokens_field; simp add: field_ok_def tokens_field)
  have d: "drop_three ?m = Inr req"
    using f(1) skip_field_app [of "''DOWNLOAD''" "ip @ CHR '';'' # to_string p @ CHR '';'' # req"]
    by (simp add: drop_three_def substr_skip_field skip_field_app field_ok_def)
  have x: "xc_command_of ''DOWNLOAD'' = XC_DOWNLOAD" by code_simp
  have a: "atoi (to_string p) = p" using assms(3) by (simp add: atoi_to_string)
  show "xc_listen_step env (command_text ''DOWNLOAD'' ip p req) s = Some (serve_download env ip p req s)"
    unfolding m xc_listen_step_def c Let_def Split_tz t sum.case GetNext_tz prod.case
    using assms(1,3) by (simp only: tok_at_simps a x d sum.case xc_command.case if_True conj_absorb simp_thms numeral_eq_Suc pred_numeral_simps)
  show "cstr (command_text ''DOWNLOAD'' ip p req) = command_text ''DOWNLOAD'' ip p req"
    unfolding m by (rule n)
qed

lemma pack_suffix:
  "CHR 0x00 \<notin> set (PackForwardRequest (h # hops) filename) \<Longrightarrow> CHR 0x00 \<notin> set (PackForwardRequest hops filename)"
  "length (PackForwardRequest hops filename) \<le> length (PackForwardRequest (h # hops) filename)"
  by (simp_all add: pack_Cons)

lemma path_text: "path_ok env nodes filename c ip s hops \<Longrightarrow> CHR 0x00 \<notin> set filename \<Longrightarrow> CHR 0x00 \<notin> set (PackForwardRequest hops filename)"
  by (induction hops arbitrary: ip s) (auto simp: pack_Nil pack_Cons link_ok_def field_ok_def split: option.splits)

lemma package_text:
  assumes "md5_ok md5"
  shows "cstr (package md5 (cstr c)) = package md5 (cstr c)" "package md5 t \<noteq> ''FAIL''"
proof -
  show "cstr (package md5 (cstr c)) = package md5 (cstr c)"
    using assms by (auto simp: package_def md5_ok_def cstr_app)
  show "package md5 t \<noteq> ''FAIL''"
    using package_long [OF assms, of t] by auto
qed

lemma serve_sends:
  assumes "ForwardDownload env request s = Inr (r, s1)" "ok (vertex (localLatencyGraph s) (GetAddrNode ip (global_nodeInfoList s)))"
    and "env_aton env (cstr ip)"
  shows "\<exists>s2. serve_download env ip p request s = Inr s2 \<and> xc_out s2 = xc_out s1 @ [(ip, p mod 65536, cstr r)]"
  using assms ForwardDownload_state [OF assms(1)]
  by (auto simp: serve_download_def getPathLength_def core_eq_def xc_send_def ok_def)

lemma ForwardDownload_out:
  "ForwardDownload env request s = Inr (r, s1) \<Longrightarrow> length (xc_out s) \<le> length (xc_out s1)"
  by (auto simp: ForwardDownload_def xc_Communicate_def xc_send_def GetPort_def ReturnPort_def Let_def result_simps
      split: if_splits list.splits)

lemma chain_forward:
  assumes "path_ok env nodes filename c ip s hops" "length hops \<le> k" "md5_ok (env_md5 env)" "length c < 65000"
    and "CHR 0x00 \<notin> set filename" "length (PackForwardRequest hops filename) < 65000"
  shows "\<exists>r s1. ForwardDownload (hop_env env nodes k ip) (PackForwardRequest hops filename) s = Inr (r, s1)
     \<and> cstr r = package (env_md5 env) (cstr c) \<and> (hops \<noteq> [] \<longrightarrow> r = cstr r)"
  using assms(1,2,6)
proof (induction hops arbitrary: ip s k)
  case Nil
  have "ForwardDownload (hop_env env nodes k ip) (PackForwardRequest [] filename) s
      = Inr (PackFileInfo (hop_env env nodes k ip) (sharedDirectory s @ filename) s, s)"
    unfolding pack_Nil ForwardDownload_def route_next [OF field_ok_dollar] by simp
  then show ?case
    using Nil cstr_PackFileInfo [of "hop_env env nodes k ip" s "sharedDirectory s @ filename" c] assms(3,4) by simp
next
  case (Cons h hops)
  obtain s' where s': "nodes (si_addr h) = Some s'" "link_ok env ip s (si_addr h) s'" "path_ok env nodes filename c (si_addr h) s' hops"
    using Cons.prems(1) by (auto split: option.splits)
  obtain k' where k: "k = Suc k'" "length hops \<le> k'" using Cons.prems(2) by (cases k) auto
  let ?req = "PackForwardRequest hops filename" and ?h = "si_addr h"
  let ?E = "hop_env env nodes k' ?h" and ?A = "hop_env env nodes k ip"
  have rl: "length ?req < 65000" using Cons.prems(3) pack_suffix(2) [of hops filename h] by linarith
  obtain r' s1' where IH: "ForwardDownload ?E ?req s' = Inr (r', s1')" "cstr r' = package (env_md5 env) (cstr c)"
    using Cons.IH [OF s'(3) k(2) rl] by blast
  obtain p ps where p: "downloadPortPool s = p # ps" "isValidPort p"
    using s'(2) by (cases "downloadPortPool s") (auto simp: link_ok_def)
  have ip: "isValidIP ip" "CHR 0x00 \<notin> set ip" "env_aton env (cstr ip)" "field_ok ?h" "?h \<noteq> ''$''" "cstr ?h = ?h" "env_aton env ?h" "nodeID s \<noteq> 1"
    using s'(2) by (auto simp: link_ok_def field_ok_def)
  note ls = listen_download [OF ip(1,2) p(2) path_text [OF s'(3) assms(5)] rl]
  obtain s2 where s2: "serve_download ?E ip p ?req s' = Inr s2" "xc_out s2 = xc_out s1' @ [(ip, p mod 65536, cstr r')]"
    using serve_sends [OF IH(1), of ip p] s'(2) ip(3) by (auto simp: link_ok_def)
  have len: "length (xc_out s2) \<noteq> length (xc_out s')" using ForwardDownload_out [OF IH(1)] s2(2) by simp
  have la: "snd (snd (last (xc_out s2))) = cstr r'" by (simp add: s2(2))
  have reply: "chain_reply env nodes k (?h, 6000, command_text ''DOWNLOAD'' ip p ?req) = Some (package (env_md5 env) (cstr c))"
    using len by (simp add: k(1) s'(1) ls(1) s2(1) la IH(2))
  let ?s0 = "s\<lparr>Load := Load s + 1, downloadPortPool := ps\<rparr>"
  have "length (package (env_md5 env) (cstr c)) < 65536"
    using assms(3,4) length_takeWhile_le [of "\<lambda>x. x \<noteq> CHR 0x00" c] by (simp add: package_def md5_ok_def cstr_def)
  then have "xc_receive (Some (package (env_md5 env) (cstr c))) = Inr (package (env_md5 env) (cstr c))"
    using package_text(1) [OF assms(3)] by (simp add: xc_receive_def)
  then have comm: "\<exists>out. xc_Communicate ?A ''DOWNLOAD'' ?h 6000 p ?req ?s0 = Inr (package (env_md5 env) (cstr c), ?s0\<lparr>xc_out := out\<rparr>)"
    using reply package_text(2) [OF assms(3)] ip by (auto simp: xc_Communicate_def xc_send_def Let_def)
  have "package (env_md5 env) (cstr c) \<noteq> []" using package_long [OF assms(3), of "cstr c"] by auto
  then show ?case
    using comm ip p package_text(1) [OF assms(3)]
    by (auto simp: ForwardDownload_def pack_Cons GetPort_def add_noise_def)
qed


definition sample_nodes :: "string \<Rightarrow> xclient option" where
  "sample_nodes = [''10.0.0.2'' \<mapsto> sample_peer 2 (\<lambda>_. None), ''10.0.0.3'' \<mapsto> sample_peer 1 [''share/a'' \<mapsto> ''text'']]"



section \<open>The heartbeat without a global list\<close>

text \<open>
  The heartbeat loads the list of all nodes as the nodes that share \<open>global.txt\<close>. When
  nobody does, the tracking server answers \<open>EMPTY\<close>, which is taken for a node ID: \<open>stoi\<close>
  throws and ends the client.
\<close>

theorem heartbeat_without_global_list:
  assumes "is_trackingServer_online s" "xc_Communicate env ''HEARTBEAT'' (si_addr (trackingServerInfo s)) 6002 6005 [] s = Inr (''SUCCESS'', s1)"
    and "xc_Find env ''global.txt'' (s1\<lparr>global_nodeInfoList := []\<rparr>) = Inr (''EMPTY'', s2)"
  shows "xc_heartbeat env s = Inl InvalidArgument"
proof -
  have "LoadServerInfo ''EMPTY'' l = Inl InvalidArgument" for l
  proof -
    have "tokens '';'' ''EMPTY'' = [''EMPTY'']" "stoi ''EMPTY'' = Inl InvalidArgument" by code_simp+
    then show ?thesis by (simp add: LoadServerInfo_def)
  qed
  then show ?thesis
    using assms by (simp add: xc_heartbeat_def ping_server_def LoadGlobalNodeInfo_def)
qed

end
