(* ===== verification/XfsFetch.thy ===== *)
theory XfsFetch
  imports XfsDelivery XfsSystem
begin

text \<open>
  A file fetched in the whole xFS system: the client runs \<open>Download\<close>, and what answers its
  datagrams are the tracking server's loops and the listeners of the other peers, which
  forward requests among themselves. \<open>whole_net\<close> is that network, for peers at rest in
  the states \<open>nodes\<close> and routes of at most \<open>k\<close> further hops.
\<close>

section \<open>The network\<close>

text \<open>The last datagram a step sent, if it sent one.\<close>

definition answered :: "(string \<times> int \<times> string) list \<Rightarrow> (string \<times> int \<times> string) list \<Rightarrow> string option" where
  "answered out out' = (if length out' = length out then None else Some (snd (snd (last out'))))"

definition tracker_answer :: "(string \<Rightarrow> bool) \<Rightarrow> xserver \<Rightarrow> int \<Rightarrow> string \<Rightarrow> string option" where
  "tracker_answer aton t port m =
     (case (if port = 6000 then RecvList_step aton m t else if port = 6001 then FindRes_step aton m t
            else if port = 6002 then Heartbeat_step aton m t else Inr t) of
        Inl _ \<Rightarrow> None | Inr t' \<Rightarrow> answered (xs_out t) (xs_out t'))"

definition peer_answer :: "xenv \<Rightarrow> (string \<Rightarrow> xclient option) \<Rightarrow> nat \<Rightarrow> string \<times> int \<times> string \<Rightarrow> string option" where
  "peer_answer env nodes k pkt =
     (case nodes (fst pkt) of None \<Rightarrow> None
      | Some s \<Rightarrow>
          if fst (snd pkt) \<noteq> 6000 \<and> fst (snd pkt) \<noteq> 6001 then None
          else case xc_listen_step (hop_env env nodes k (fst pkt)) (snd (snd pkt)) s of
            Some (Inr s') \<Rightarrow> answered (xc_out s) (xc_out s')
          | _ \<Rightarrow> None)"

definition whole_net ::
  "xenv \<Rightarrow> string \<Rightarrow> xserver \<Rightarrow> (string \<Rightarrow> xclient option) \<Rightarrow> nat \<Rightarrow> string \<times> int \<times> string \<Rightarrow> string option" where
  "whole_net env tr t nodes k pkt =
     (if fst pkt = tr then tracker_answer (env_aton env) t (fst (snd pkt)) (snd (snd pkt)) else peer_answer env nodes k pkt)"

abbreviation system_env :: "xenv \<Rightarrow> string \<Rightarrow> xserver \<Rightarrow> (string \<Rightarrow> xclient option) \<Rightarrow> nat \<Rightarrow> string \<Rightarrow> xenv" where
  "system_env env tr t nodes k ip \<equiv> env\<lparr>env_ip := ip, env_net := \<lambda>_. whole_net env tr t nodes k\<rparr>"

text \<open>On the download port this is what a route sees.\<close>

lemma peer_answer_route: "peer_answer env nodes k (a, 6000, m) = chain_reply env nodes (Suc k) (a, 6000, m)"
  by (simp add: peer_answer_def answered_def split: option.splits sum.splits)

section \<open>What the servers make of a client's messages\<close>

lemma asks_text:
  assumes "asks op m" "field_ok op" "length op < 100"
  shows "\<exists>rest. cstr (take XFS_BUFLEN m) = op @ CHR '';'' # rest"
proof -
  have m: "m = (op @ '';'') @ drop (Suc (length op)) m" using assms(1) unfolding asks_def by (metis append_take_drop_id)
  have "take XFS_BUFLEN m = (op @ '';'') @ take (XFS_BUFLEN - Suc (length op)) (drop (Suc (length op)) m)"
    by (subst m, subst take_append) (use assms(3) in simp)
  moreover have "cstr ((op @ '';'') @ r) = (op @ '';'') @ cstr r" for r
    using assms(2) by (intro cstr_app) (auto simp: field_ok_def)
  ultimately show ?thesis by simp
qed

lemma asks_tokens:
  assumes "asks op m" "field_ok op" "length op < 100"
  shows "\<exists>ts. tokens '';'' (cstr (take XFS_BUFLEN m)) = op # ts"
  using asks_text [OF assms] assms(2) by (auto simp: field_ok_def tokens_field)

lemma ops_ok: "field_ok ''DOWNLOAD''" "field_ok ''GETLOAD''" "field_ok ''UPDATELIST''" "field_ok ''FIND''"
  by (simp_all add: field_ok_def)

lemma xc_command_ops: "xc_command_of ''DOWNLOAD'' = XC_DOWNLOAD" "xc_command_of ''GETLOAD'' = XC_GETLOAD"
  "xc_command_of ''UPDATELIST'' = XC_UNKNOWN"
  by code_simp+

lemma tracker_silent:
  assumes "asks op m" "op \<in> {''DOWNLOAD'', ''GETLOAD''}"
  shows "tracker_answer aton t port m = None"
proof -
  obtain ts where "tokens '';'' (cstr (take XFS_BUFLEN m)) = op # ts"
    using asks_tokens [OF assms(1)] assms(2) ops_ok by force
  then show ?thesis
    using assms(2) by (auto simp: tracker_answer_def RecvList_step_def FindRes_step_def Heartbeat_step_def Let_def answered_def)
qed

lemma tracker_update:
  assumes "asks ''UPDATELIST'' m" "tracker_answer aton t port m = Some d"
  shows "d = ''SUCCESS''"
proof -
  obtain ts where "tokens '';'' (cstr (take XFS_BUFLEN m)) = ''UPDATELIST'' # ts"
    using asks_tokens [OF assms(1) ops_ok(3)] by auto
  then show ?thesis
    using assms(2)
    by (auto simp: tracker_answer_def RecvList_step_def FindRes_step_def Heartbeat_step_def Let_def answered_def xs_send_def
        result_simps cstr_def split: sum.splits if_splits)
qed

lemma listen_unknown:
  assumes "asks ''UPDATELIST'' m" "xc_listen_step env m s = Some (Inr s')"
  shows "s' = s"
proof -
  obtain ts where "tokens '';'' (cstr (take XFS_BUFLEN m)) = ''UPDATELIST'' # ts"
    using asks_tokens [OF assms(1) ops_ok(3)] by auto
  then show ?thesis using assms(2) by (auto simp: xc_listen_step_def Let_def Split_tz xc_command_ops split: sum.splits if_splits)
qed

lemma listen_load:
  assumes "asks ''GETLOAD'' m" "xc_listen_step env m s = Some (Inr s')"
  shows "s' = s \<or> (\<exists>a p. s' = s\<lparr>xc_out := xc_out s @ [(a, p, to_string (Load s))]\<rparr>)"
proof -
  obtain ts where "tokens '';'' (cstr (take XFS_BUFLEN m)) = ''GETLOAD'' # ts"
    using asks_tokens [OF assms(1) ops_ok(2)] by auto
  then show ?thesis
    using assms(2)
    by (auto simp: xc_listen_step_def Let_def Split_tz xc_command_ops xc_send_def split: sum.splits if_splits)
qed

lemma listen_download_cases:
  assumes "asks ''DOWNLOAD'' m" "xc_listen_step env m s = Some (Inr s')"
  shows "s' = s \<or> (\<exists>a p request. serve_download env a p request s = Inr s')"
proof -
  obtain ts where "tokens '';'' (cstr (take XFS_BUFLEN m)) = ''DOWNLOAD'' # ts"
    using asks_tokens [OF assms(1) ops_ok(1)] by auto
  then show ?thesis
    using assms(2) by (auto simp: xc_listen_step_def Let_def Split_tz xc_command_ops split: sum.splits if_splits)
qed

lemma serve_answer:
  assumes "serve_download env a p request s = Inr s'"
  shows "\<exists>r s1. ForwardDownload env request s = Inr (r, s1) \<and> answered (xc_out s) (xc_out s') = Some (cstr r)"
proof -
  obtain r s1 where r: "ForwardDownload env request s = Inr (r, s1)" "xc_send env a p r s1 = Inr s'"
    using assms by (auto simp: serve_download_def result_simps)
  then show ?thesis using ForwardDownload_out [OF r(1)] by (auto simp: answered_def xc_send_def split: if_splits)
qed

section \<open>Such a network is honest and calm\<close>

definition peer_ok :: "xclient \<Rightarrow> bool" where
  "peer_ok s \<longleftrightarrow> nodeID s \<noteq> 1 \<and> is_int32 (Load s) \<and> (\<forall>p\<in>#mset (downloadPortPool s). isValidPort p)
     \<and> (\<forall>f c. disk s f = Some c \<longrightarrow> length c < 65000)"

definition peers_ok :: "(string \<Rightarrow> xclient option) \<Rightarrow> bool" where
  "peers_ok nodes \<longleftrightarrow> (\<forall>a s. nodes a = Some s \<longrightarrow> peer_ok s)"

lemma peer_download:
  assumes "asks ''DOWNLOAD'' m" "peer_answer env nodes k (a, p, m) = Some d"
  shows "\<exists>s request r s1. nodes a = Some s \<and> ForwardDownload (hop_env env nodes k a) request s = Inr (r, s1) \<and> d = cstr r"
proof -
  obtain s s' where s: "nodes a = Some s" "xc_listen_step (hop_env env nodes k a) m s = Some (Inr s')"
    "answered (xc_out s) (xc_out s') = Some d"
    using assms(2) by (auto simp: peer_answer_def split: option.splits sum.splits if_splits)
  then have "s' \<noteq> s" by (auto simp: answered_def)
  then obtain b q request where "serve_download (hop_env env nodes k a) b q request s = Inr s'"
    using listen_download_cases [OF assms(1) s(2)] by blast
  from serve_answer [OF this] s show ?thesis by auto
qed

lemma chain_is_peer: "chain_reply env nodes k (a, p, m) = Some d \<Longrightarrow> \<exists>j. k = Suc j \<and> p = 6000 \<and> peer_answer env nodes j (a, p, m) = Some d"
  by (cases k) (auto simp: peer_answer_def answered_def split: option.splits sum.splits if_splits)

lemma valid_package_cstr: "md5_ok (env_md5 env) \<Longrightarrow> valid_package env r \<Longrightarrow> valid_package env (cstr r)"
proof -
  assume m: "md5_ok (env_md5 env)" and v: "valid_package env r"
  show "valid_package env (cstr r)"
  proof (cases "r = []")
    case False
    then have t: "take 32 r = env_md5 env (cstr (drop 32 r))" using v by (simp add: valid_package_def)
    have "cstr r = cstr (env_md5 env (cstr (drop 32 r)) @ drop 32 r)" using t by (metis append_take_drop_id)
    also have "\<dots> = env_md5 env (cstr (drop 32 r)) @ cstr (drop 32 r)" using m by (intro cstr_app) (simp add: md5_ok_def)
    finally show ?thesis using m by (simp add: valid_package_def md5_ok_def)
  qed (simp add: valid_package_def cstr_def)
qed

lemma honestI:
  assumes "\<And>n a p m d. env_net env n (a, p, m) = Some d \<Longrightarrow> asks ''DOWNLOAD'' m \<Longrightarrow> valid_package env (cstr d)"
  shows "honest env"
  unfolding honest_def
proof (intro allI impI disjI2)
  fix n a p m d
  assume "env_net env n (a, p, m) = Some d \<and> take 9 m = ''DOWNLOAD;''"
  then show "valid_package env (cstr d)" using assms [of n a p m d] by (simp add: asks_def numeral_eq_Suc)
qed

lemma chain_honest:
  assumes "peers_ok nodes" "md5_ok (env_md5 env)"
  shows "honest (hop_env env nodes k ip)"
proof (induction k arbitrary: ip)
  case 0
  show ?case by (simp add: honest_def)
next
  case (Suc k)
  show ?case
  proof (rule honestI)
    fix n a p m d
    assume "env_net (hop_env env nodes (Suc k) ip) n (a, p, m) = Some d" and m: "asks ''DOWNLOAD'' m"
    then have "chain_reply env nodes (Suc k) (a, p, m) = Some d" by (simp del: chain_reply.simps)
    from chain_is_peer [OF this] have "peer_answer env nodes k (a, p, m) = Some d" by blast
    from peer_download [OF m this] obtain s request r s1 where r: "nodes a = Some s"
      "ForwardDownload (hop_env env nodes k a) request s = Inr (r, s1)" "d = cstr r" by blast
    have "valid_package (hop_env env nodes k a) r"
      using assms r(1) by (intro ForwardDownload_valid [OF Suc.IH _ _ r(2)]) (auto simp: peers_ok_def peer_ok_def)
    then have "valid_package env r" by (simp add: valid_package_def)
    then show "valid_package (hop_env env nodes (Suc k) ip) (cstr d)"
      using valid_package_cstr [OF assms(2)] r(3) by (simp add: valid_package_def)
  qed
qed

lemma system_honest:
  assumes "peers_ok nodes" "md5_ok (env_md5 env)"
  shows "honest (system_env env tr t nodes k ip)"
proof (rule honestI)
  fix n a p m d
  assume e: "env_net (system_env env tr t nodes k ip) n (a, p, m) = Some d" and m: "asks ''DOWNLOAD'' m"
  have "peer_answer env nodes k (a, p, m) = Some d"
    using e tracker_silent [OF m] by (auto simp: whole_net_def split: if_splits)
  from peer_download [OF m this] obtain s request r s1 where r: "nodes a = Some s"
    "ForwardDownload (hop_env env nodes k a) request s = Inr (r, s1)" "d = cstr r" by blast
  have "valid_package (hop_env env nodes k a) r"
    using assms r(1) by (intro ForwardDownload_valid [OF chain_honest [OF assms] _ _ r(2)]) (auto simp: peers_ok_def peer_ok_def)
  then have "valid_package env r" by (simp add: valid_package_def)
  then show "valid_package (system_env env tr t nodes k ip) (cstr d)"
    using valid_package_cstr [OF assms(2)] r(3) by (simp add: valid_package_def)
qed

lemma cstr_length: "length (cstr s) \<le> length s"
  by (simp add: cstr_def length_takeWhile_le)

lemma ForwardDownload_short:
  assumes "ForwardDownload env request s = Inr (r, s')" "\<forall>f c. disk s f = Some c \<longrightarrow> length c < 65000" "md5_ok (env_md5 env)"
  shows "length (cstr r) < XFS_BUFLEN"
proof (cases "tok_at (tokens '';'' request) 0 = ''$''")
  case True
  then have r: "r = PackFileInfo env (sharedDirectory s @ skip_field request) s"
    using assms(1) by (auto simp: ForwardDownload_def GetNextForwardAddr_ok)
  show ?thesis
  proof (cases "disk s (sharedDirectory s @ skip_field request)")
    case (Some c)
    then have "length c < 65000" using assms(2) by blast
    then have "length r \<le> 32 + 65000" using Some assms(3) by (simp add: r PackFileInfo_eq md5_ok_def)
    then show ?thesis using cstr_length [of r] by simp
  qed (simp add: r PackFileInfo_def File2String_def cstr_def)
next
  case False
  then obtain p s1 x s2 where "xc_Communicate env ''DOWNLOAD'' (tok_at (tokens '';'' request) 0) 6000 p (skip_field request) s1 = Inr (x, s2)"
    and n: "add_noise env x s2 = Inr r"
    using assms(1) by (auto simp: ForwardDownload_def GetNextForwardAddr_ok result_simps split: if_splits)
  then have "length x < XFS_BUFLEN"
    by (auto simp: xc_Communicate_def xc_receive_def Let_def result_simps split: option.splits if_splits intro: le_less_trans [OF cstr_length])
  moreover have "length r = length x" using n by (auto simp: add_noise_def split: if_splits)
  ultimately show ?thesis using cstr_length [of r] by simp
qed

lemma stoi_load: "is_int32 z \<Longrightarrow> stoi (cstr (to_string z)) \<noteq> Inl OutOfRange"
  by (simp add: stoi_to_string)

lemma system_calm:
  assumes "peers_ok nodes" "md5_ok (env_md5 env)"
  shows "calm (system_env env tr t nodes k ip)"
  unfolding calm_def
proof (intro allI impI conjI)
  fix n a p m d
  assume e: "env_net (system_env env tr t nodes k ip) n (a, p, m) = Some d"
  have load: "\<exists>s. nodes a = Some s \<and> d = to_string (Load s)" if m: "asks ''GETLOAD'' m"
  proof -
    have "peer_answer env nodes k (a, p, m) = Some d"
      using e tracker_silent [OF m] by (auto simp: whole_net_def split: if_splits)
    then show ?thesis
      by (auto simp: peer_answer_def answered_def split: option.splits sum.splits if_splits dest!: listen_load [OF m])
  qed
  have ok: "nodes a = Some s \<Longrightarrow> peer_ok s" for s using assms(1) by (auto simp: peers_ok_def)
  show "stoi (cstr d) \<noteq> Inl OutOfRange" if "asks ''GETLOAD'' m"
    using load [OF that] ok stoi_load by (auto simp: peer_ok_def)
  show "length d < XFS_BUFLEN" if "asks ''DOWNLOAD'' m \<or> asks ''GETLOAD'' m \<or> asks ''UPDATELIST'' m"
    using that
  proof (elim disjE)
    assume m: "asks ''DOWNLOAD'' m"
    have "peer_answer env nodes k (a, p, m) = Some d"
      using e tracker_silent [OF m] by (auto simp: whole_net_def split: if_splits)
    from peer_download [OF m this] obtain s request r s1 where r: "nodes a = Some s"
      "ForwardDownload (hop_env env nodes k a) request s = Inr (r, s1)" "d = cstr r" by blast
    show ?thesis unfolding r(3)
      using ok [OF r(1)] assms(2) by (intro ForwardDownload_short [OF r(2)]) (simp_all add: peer_ok_def)
  next
    assume "asks ''GETLOAD'' m"
    from load [OF this] ok length_to_string_int32 show ?thesis by (fastforce simp: peer_ok_def)
  next
    assume m: "asks ''UPDATELIST'' m"
    have "peer_answer env nodes k (a, p, m) \<noteq> Some d"
      by (auto simp: peer_answer_def answered_def split: option.splits sum.splits if_splits dest!: listen_unknown [OF m])
    then have "tracker_answer (env_aton env) t p m = Some d" using e by (auto simp: whole_net_def split: if_splits)
    from tracker_update [OF m this] show ?thesis by simp
  qed
qed

section \<open>Who serves, and what FIND says\<close>

text \<open>A peer with the file that can tell the requester's node.\<close>

definition holds :: "(string \<Rightarrow> xclient option) \<Rightarrow> string \<Rightarrow> string \<Rightarrow> string \<Rightarrow> bool" where
  "holds nodes ip filename a \<longleftrightarrow> (\<exists>s c. nodes a = Some s \<and> disk s (sharedDirectory s @ filename) = Some c
     \<and> ok (vertex (localLatencyGraph s) (GetAddrNode ip (global_nodeInfoList s))))"

lemma holder_serves:
  assumes "peers_ok nodes" "md5_ok (env_md5 env)" "holds nodes ip filename (si_addr it)" "si_addr it \<noteq> tr"
    and "isValidIP ip" "CHR 0x00 \<notin> set ip" "env_aton env ip" "CHR 0x00 \<notin> set filename" "length filename < 60000"
  shows "serves (system_env env tr t nodes k ip) filename it"
  unfolding serves_def
proof (intro allI impI)
  fix n p assume p: "isValidPort p"
  let ?E = "hop_env env nodes k (si_addr it)"
  obtain s c where s: "nodes (si_addr it) = Some s" "disk s (sharedDirectory s @ filename) = Some c"
    "ok (vertex (localLatencyGraph s) (GetAddrNode ip (global_nodeInfoList s)))"
    using assms(3) by (auto simp: holds_def)
  then have c: "length c < MAX_FILESIZE" using assms(1) by (fastforce simp: peers_ok_def peer_ok_def)
  let ?r = "PackFileInfo ?E (sharedDirectory s @ filename) s"
  have f: "ForwardDownload ?E (''$;'' @ filename) s = Inr (?r, s)"
    using route_next [OF field_ok_dollar, of filename] by (simp add: ForwardDownload_def)
  obtain s2 where s2: "serve_download ?E ip p (''$;'' @ filename) s = Inr s2"
    using serve_sends [OF f s(3), of p] assms(6,7) by auto
  have r: "cstr ?r = package (env_md5 env) (cstr c)"
    using cstr_PackFileInfo [of ?E s "sharedDirectory s @ filename" c] assms(2) s(2) c by simp
  have "peer_answer env nodes k (si_addr it, 6000, command_text ''DOWNLOAD'' ip p (''$;'' @ filename)) = Some (cstr ?r)"
    using listen_download(1) [OF assms(5,6) p, of "''$;'' @ filename" ?E s] assms(8,9) s(1) s2 serve_answer [OF s2] f
    by (simp add: peer_answer_def)
  moreover have "package (env_md5 env) (cstr c) \<noteq> []" "package (env_md5 env) (cstr c) \<noteq> ''FAIL''"
    using package_long [OF assms(2), of "cstr c"] package_text(2) [OF assms(2)] by auto
  ultimately show "\<exists>d. env_net (system_env env tr t nodes k ip) n (si_addr it, 6000,
       command_text ''DOWNLOAD'' (env_ip (system_env env tr t nodes k ip)) p (''$;'' @ filename)) = Some d
     \<and> cstr d \<noteq> [] \<and> cstr d \<noteq> ''FAIL''"
    using assms(4) r package_text(1) [OF assms(2), of c] by (simp add: whole_net_def)
qed

lemma system_find:
  assumes "tracker_ok t" "isValidIP ip" "CHR 0x00 \<notin> set ip" "env_aton env ip" "field_ok filename" "length filename < 60000"
    and "si_addr (trackingServerInfo s) = tr" "env_aton env (cstr tr)" "length (find_answer filename t) < XFS_BUFLEN"
    and "filter (has_file filename) (clientInfoList t) \<noteq> []"
  shows "\<exists>s1. xc_Find (system_env env tr t nodes k ip) filename s = Inr (find_answer filename t, s1)
     \<and> find_answer filename t \<notin> {[], ''EMPTY''}"
proof -
  let ?cs = "filter (has_file filename) (clientInfoList t)" and ?a = "find_answer filename t"
  note f = find_message [where aton = "env_aton env", OF assms(1-6)]
  have ok: "list_all client_ok ?cs" using assms(1) by (auto simp: tracker_ok_def list_all_iff)
  have a: "?a = join_fields (CHR '';'') (answer_fields ?cs)" using assms(10) by (simp add: find_answer_def Let_def)
  have n: "CHR 0x00 \<notin> set ?a" unfolding a by (rule tokens_join_semicolon(3) [OF answer_fields_ok [OF ok]])
  obtain c cs where c: "?cs = c # cs" using assms(10) by (cases ?cs) auto
  have "tokens '';'' ?a = answer_fields ?cs" unfolding a by (rule tokens_join_semicolon(2) [OF answer_fields_ok [OF ok]])
  then have t: "tokens '';'' ?a = to_string (ci_id c) # ci_host c # answer_fields cs" by (simp add: c answer_fields_def)
  have "tokens '';'' ''EMPTY'' = [''EMPTY'']" "tokens '';'' ''FAIL'' = [''FAIL'']" "tokens '';'' [] = []" by code_simp+
  then have ne: "?a \<notin> {[], ''EMPTY''}" "?a \<noteq> ''FAIL''" using t by auto
  have "tracker_answer (env_aton env) t 6001 (command_text ''FIND'' ip 6003 filename) = Some ?a"
    using f(1) by (simp add: tracker_answer_def answered_def)
  then show ?thesis
    using ne n assms(7-9) by (auto simp: xc_Find_def xc_Communicate_def xc_send_def xc_receive_def Let_def whole_net_def)
qed

section \<open>Where a content comes from\<close>

definition peer_file :: "(string \<Rightarrow> xclient option) \<Rightarrow> string \<Rightarrow> string \<Rightarrow> bool" where
  "peer_file nodes filename c \<longleftrightarrow> (\<exists>a s. nodes a = Some s \<and> disk s (sharedDirectory s @ filename) = Some c)"

definition hop_ok :: "string \<Rightarrow> bool" where
  "hop_ok a \<longleftrightarrow> isValidIP a \<and> CHR 0x00 \<notin> set a"

lemma hop_ok_field: "hop_ok a \<Longrightarrow> field_ok a \<and> length a \<le> 15"
  using isValidIP_clean [of a] isValidIP_not_Nil [of a] isValidIP_length [of a] by (auto simp: hop_ok_def field_ok_def)

lemma hop_not_mark: "hop_ok a \<Longrightarrow> a \<noteq> ''$''"
proof
  assume "hop_ok a" "a = ''$''"
  moreover have "\<not> isValidIP ''$''" by code_simp
  ultimately show False by (simp add: hop_ok_def)
qed

lemma pack_text: "\<forall>h\<in>set hops. hop_ok (si_addr h) \<Longrightarrow> CHR 0x00 \<notin> set filename \<Longrightarrow> CHR 0x00 \<notin> set (PackForwardRequest hops filename)"
  by (induction hops) (auto simp: pack_Nil pack_Cons hop_ok_def)

lemma pack_length:
  "\<forall>h\<in>set hops. hop_ok (si_addr h) \<Longrightarrow> length (PackForwardRequest hops filename) \<le> 16 * length hops + 2 + length filename"
proof (induction hops)
  case (Cons h hops)
  then show ?case using hop_ok_field [of "si_addr h"] by (simp add: pack_Cons)
qed (simp add: pack_Nil)

text \<open>One step along a route: the answer is empty or is the one the next hop gave.\<close>

lemma forward_hop:
  assumes "ForwardDownload env (PackForwardRequest (h # hops) filename) s = Inr (r, s')" "hop_ok (si_addr h)"
    and "nodeID s \<noteq> 1" "\<forall>p\<in>#mset (downloadPortPool s). isValidPort p"
  shows "r = [] \<or> (\<exists>n p d. isValidPort p \<and> r = cstr d
     \<and> env_net env n (si_addr h, 6000, command_text ''DOWNLOAD'' (env_ip env) p (PackForwardRequest hops filename)) = Some d)"
proof -
  obtain p s1 x s2 where p: "GetPort s = Inr (p, s1)"
    and c: "xc_Communicate env ''DOWNLOAD'' (si_addr h) 6000 p (PackForwardRequest hops filename) s1 = Inr (x, s2)"
    and n: "add_noise env x s2 = Inr r"
    using assms(1) hop_ok_field [OF assms(2)] hop_not_mark [OF assms(2)]
    by (auto simp: ForwardDownload_def pack_Cons result_simps split: if_splits)
  have s1: "isValidPort p" "nodeID s1 = nodeID s" using p assms(4) by (auto simp: GetPort_def split: list.splits)
  then have "r = x" using n xc_Communicate_state [OF c] assms(3) by (auto simp: add_noise_def)
  then show ?thesis
    using c s1(1) by (fastforce simp: xc_Communicate_def xc_receive_def Let_def result_simps split: option.splits if_splits)
qed

lemma forward_end:
  assumes "ForwardDownload env (PackForwardRequest [] filename) s = Inr (r, s')" "\<forall>f c. disk s f = Some c \<longrightarrow> length c < 65000"
  shows "r = [] \<or> (\<exists>c. disk s (sharedDirectory s @ filename) = Some c \<and> r = env_md5 env (cstr c) @ c @ [CHR 0x00])"
proof -
  have r: "r = PackFileInfo env (sharedDirectory s @ filename) s"
    using assms(1) route_next [OF field_ok_dollar, of filename] by (auto simp: ForwardDownload_def pack_Nil)
  show ?thesis
  proof (cases "disk s (sharedDirectory s @ filename)")
    case (Some c)
    moreover from this have "length c < 65000" using assms(2) by blast
    ultimately show ?thesis using PackFileInfo_eq [of s _ c env] by (simp add: r)
  qed (simp add: r PackFileInfo_def File2String_def)
qed

lemma cstr_packed: "md5_ok md5 \<Longrightarrow> cstr (md5 (cstr c) @ c @ [CHR 0x00]) = package md5 (cstr c)"
  by (simp add: package_def md5_ok_def cstr_app cstr_snoc_nul)

lemma peer_forward:
  assumes "peer_answer env nodes k (a, 6000, command_text ''DOWNLOAD'' ip p req) = Some d"
    and "hop_ok ip" "isValidPort p" "CHR 0x00 \<notin> set req" "length req < 65000"
  shows "\<exists>s r s1. nodes a = Some s \<and> ForwardDownload (hop_env env nodes k a) req s = Inr (r, s1) \<and> d = cstr r"
proof -
  let ?E = "hop_env env nodes k a"
  obtain s s' where s: "nodes a = Some s" "xc_listen_step ?E (command_text ''DOWNLOAD'' ip p req) s = Some (Inr s')"
    "answered (xc_out s) (xc_out s') = Some d"
    using assms(1) by (auto simp: peer_answer_def split: option.splits sum.splits if_splits)
  have "serve_download ?E ip p req s = Inr s'"
    using s(2) listen_download(1) [of ip p req ?E s] assms(2-5) by (auto simp: hop_ok_def)
  from serve_answer [OF this] s show ?thesis by auto
qed

text \<open>Whatever its route, an answer to a request for a file is empty or the package of a peer's file of that name.\<close>

lemma peer_origin:
  assumes "peers_ok nodes" "md5_ok (env_md5 env)" "CHR 0x00 \<notin> set filename"
  shows "\<forall>h\<in>set hops. hop_ok (si_addr h) \<Longrightarrow> length (PackForwardRequest hops filename) < 65000 \<Longrightarrow> hop_ok ip \<Longrightarrow>
     isValidPort p \<Longrightarrow>
     peer_answer env nodes k (a, 6000, command_text ''DOWNLOAD'' ip p (PackForwardRequest hops filename)) = Some d \<Longrightarrow>
     hop_ok a \<Longrightarrow> d = [] \<or> (\<exists>c. peer_file nodes filename c \<and> d = package (env_md5 env) (cstr c))"
proof (induction hops arbitrary: ip p k a d)
  case Nil
  obtain s r s1 where r: "nodes a = Some s" "ForwardDownload (hop_env env nodes k a) (PackForwardRequest [] filename) s = Inr (r, s1)" "d = cstr r"
    using peer_forward [OF Nil.prems(5,3,4) pack_text [OF Nil.prems(1) assms(3)] Nil.prems(2)] by blast
  have "\<forall>f c. disk s f = Some c \<longrightarrow> length c < 65000" using assms(1) r(1) by (auto simp: peers_ok_def peer_ok_def)
  from forward_end [OF r(2) this] show ?case
  proof
    assume "\<exists>c. disk s (sharedDirectory s @ filename) = Some c \<and> r = env_md5 (hop_env env nodes k a) (cstr c) @ c @ [CHR 0x00]"
    then show ?thesis using r(1,3) cstr_packed [OF assms(2)] unfolding peer_file_def by auto
  qed (use r(3) in \<open>simp add: cstr_def\<close>)
next
  case (Cons h hops)
  let ?E = "hop_env env nodes k a"
  obtain s r s1 where r: "nodes a = Some s" "ForwardDownload ?E (PackForwardRequest (h # hops) filename) s = Inr (r, s1)" "d = cstr r"
    using peer_forward [OF Cons.prems(5,3,4) pack_text [OF Cons.prems(1) assms(3)] Cons.prems(2)] by blast
  have ok: "nodeID s \<noteq> 1" "\<forall>p\<in>#mset (downloadPortPool s). isValidPort p" using assms(1) r(1) by (auto simp: peers_ok_def peer_ok_def)
  have h: "hop_ok (si_addr h)" using Cons.prems(1) by simp
  from forward_hop [OF r(2) h ok] show ?case
  proof
    assume "r = []"
    then show ?thesis using r(3) by (simp add: cstr_def)
  next
    assume "\<exists>n q x. isValidPort q \<and> r = cstr x \<and> env_net ?E n (si_addr h, 6000,
        command_text ''DOWNLOAD'' (env_ip ?E) q (PackForwardRequest hops filename)) = Some x"
    then obtain q x where q: "isValidPort q" "r = cstr x"
      "chain_reply env nodes k (si_addr h, 6000, command_text ''DOWNLOAD'' a q (PackForwardRequest hops filename)) = Some x"
      by (auto simp del: chain_reply.simps)
    obtain j where j: "peer_answer env nodes j (si_addr h, 6000, command_text ''DOWNLOAD'' a q (PackForwardRequest hops filename)) = Some x"
      using chain_is_peer [OF q(3)] by blast
    have "length (PackForwardRequest hops filename) < 65000" using Cons.prems(2) pack_suffix(2) [of hops filename h] by simp
    from Cons.IH [OF _ this Cons.prems(6) q(1) j h] Cons.prems(1)
    have "x = [] \<or> (\<exists>c. peer_file nodes filename c \<and> x = package (env_md5 env) (cstr c))" by simp
    then show ?thesis using q(2) r(3) package_text(1) [OF assms(2)] by (auto simp: cstr_def)
  qed
qed

section \<open>What the client stores\<close>

text \<open>
  The text of a peer's file, or, when the request did not leave the client, its own file
  with a NUL behind it.
\<close>

definition content_ok :: "(string \<Rightarrow> xclient option) \<Rightarrow> xclient \<Rightarrow> string \<Rightarrow> string \<Rightarrow> bool" where
  "content_ok nodes s filename x \<longleftrightarrow> (\<exists>c. peer_file nodes filename c \<and> x = cstr c)
     \<or> (\<exists>c. disk s (sharedDirectory s @ filename) = Some c \<and> x = c @ [CHR 0x00])"

lemma client_origin:
  assumes "ForwardDownload (system_env env tr t nodes k ip) (PackForwardRequest fl filename) s = Inr (r, s')"
    and "peer_ok s" "\<forall>h\<in>set fl. hop_ok (si_addr h)" "16 * length fl + length filename < 60000"
    and peers: "peers_ok nodes" and md5: "md5_ok (env_md5 env)" and ip: "hop_ok ip" and name: "CHR 0x00 \<notin> set filename"
  shows "r = [] \<or> content_ok nodes s filename (drop 32 r)"
proof (cases fl)
  case Nil
  have "\<forall>f c. disk s f = Some c \<longrightarrow> length c < 65000" using assms(2) by (simp add: peer_ok_def)
  from forward_end [OF assms(1) [unfolded Nil] this] show ?thesis
    using md5 by (auto simp: content_ok_def md5_ok_def)
next
  case (Cons h hops)
  let ?E = "system_env env tr t nodes k ip"
  have h: "hop_ok (si_addr h)" and hs: "\<forall>h\<in>set hops. hop_ok (si_addr h)" using assms(3) Cons by auto
  have ok: "nodeID s \<noteq> 1" "\<forall>p\<in>#mset (downloadPortPool s). isValidPort p" using assms(2) by (auto simp: peer_ok_def)
  from forward_hop [OF assms(1) [unfolded Cons] h ok] show ?thesis
  proof
    assume "\<exists>n q x. isValidPort q \<and> r = cstr x \<and> env_net ?E n (si_addr h, 6000,
        command_text ''DOWNLOAD'' (env_ip ?E) q (PackForwardRequest hops filename)) = Some x"
    then obtain q x where q: "isValidPort q" "r = cstr x"
      "whole_net env tr t nodes k (si_addr h, 6000, command_text ''DOWNLOAD'' ip q (PackForwardRequest hops filename)) = Some x"
      by auto
    have a: "peer_answer env nodes k (si_addr h, 6000, command_text ''DOWNLOAD'' ip q (PackForwardRequest hops filename)) = Some x"
      using q(3) tracker_silent [OF asks_command(1)] by (auto simp: whole_net_def split: if_splits)
    have "length (PackForwardRequest hops filename) < 65000" using pack_length [OF hs, of filename] assms(4) Cons by simp
    from peer_origin [OF peers md5 name hs this ip q(1) a h] show ?thesis
    proof
      assume "\<exists>c. peer_file nodes filename c \<and> x = package (env_md5 env) (cstr c)"
      then obtain c where c: "peer_file nodes filename c" "r = package (env_md5 env) (cstr c)"
        using q(2) package_text(1) [OF md5] by auto
      then have "drop 32 r = cstr c" using unpack_package [OF md5, of "cstr c"] by (simp add: UnpackFileInfo_def)
      then show ?thesis using c(1) unfolding content_ok_def by blast
    qed (simp add: q(2) cstr_def)
  qed simp
qed

lemma validate_content:
  assumes "validate env' r filename s = Inr (Stored, s')"
  shows "disk s' = (disk s)(sharedDirectory s @ filename \<mapsto> drop 32 r)"
proof -
  obtain s1 where "UpdateList env' (String2File (sharedDirectory s @ filename) (drop 32 r) s) = Inr s1" "s' = s1"
    using assms by (auto simp: validate_def ValidatePackedData_def UnpackFileInfo_def result_simps split: if_splits)
  then show ?thesis using UpdateList_state by (fastforce simp: String2File_def)
qed

lemma LoadInfoList_hops:
  assumes "hop_ok ip" "\<forall>it\<in>set nodes. hop_ok (si_addr it)"
  shows "\<forall>h\<in>set (LoadInfoListByID ip its nodes). hop_ok (si_addr h)" "length (LoadInfoListByID ip its nodes) = length its"
  using assms GetNodeAddr_cases [of _ nodes] by (induction its) (auto simp: Let_def, metis)

lemma FillForwardList_hops:
  assumes "FillForwardList env nodes i s = Inr fl" "routed s" "hop_ok (env_ip env)" "\<forall>it\<in>set nodes. hop_ok (si_addr it)"
  shows "(\<forall>h\<in>set fl. hop_ok (si_addr h)) \<and> length fl \<le> gV (localLatencyGraph s)"
proof (cases "fl = []")
  case False
  then obtain q where q: "path_row (localLatencyGraph s) (nodeID s) i = Inr q"
    and fl: "fl = LoadInfoListByID (env_ip env) (map (\<lambda>i. \<lparr>si_addr = [], si_id = i\<rparr>) q) nodes"
    using assms(1) by (auto simp: FillForwardList_def result_simps split: if_splits)
  obtain v where v: "vertex (localLatencyGraph s) i = Inr v"
    and qv: "q = takeWhile (\<lambda>x. x \<noteq> - 1) (gpath (localLatencyGraph s) ! nat (nodeID s) ! v)"
    using q by (auto simp: path_row_def result_simps Let_def vertex_def split: if_splits)
  have "v < gV (localLatencyGraph s)" using v by (auto simp: vertex_def split: if_splits)
  then have "length (gpath (localLatencyGraph s) ! nat (nodeID s) ! v) = gV (localLatencyGraph s)" using assms(2) by (simp add: routed_def)
  then have "length q \<le> gV (localLatencyGraph s)" unfolding qv using length_takeWhile_le by metis
  then show ?thesis using LoadInfoList_hops [OF assms(3,4)] fl by simp
qed simp

definition fetch_inv :: "xclient \<Rightarrow> ServerInfo list \<Rightarrow> xclient \<Rightarrow> bool" where
  "fetch_inv s nodes t \<longleftrightarrow> core_eq s t \<and> disk t = disk s \<and> (\<forall>it\<in>set nodes. hop_ok (si_addr it))"

lemma peer_ok_core: "core_eq s t \<Longrightarrow> disk t = disk s \<Longrightarrow> peer_ok s \<Longrightarrow> peer_ok t"
  by (auto simp: core_eq_def peer_ok_def)

lemma content_core: "core_eq s t \<Longrightarrow> disk t = disk s \<Longrightarrow> content_ok nodes t filename x = content_ok nodes s filename x"
  by (simp add: core_eq_def content_ok_def)

lemma download_from_content:
  fixes filename :: string
  assumes d: "download_from (system_env env tr t nodes k ip) filename its i u = Inr (a, u')"
    and s: "fetch_inv s its u" "routed s" "peer_ok s" "16 * gV (localLatencyGraph s) + length filename < 60000" "0 < gV (localLatencyGraph s)"
    and i: "i \<in> si_id ` set its"
    and w: "peers_ok nodes" "md5_ok (env_md5 env)" "hop_ok ip" "CHR 0x00 \<notin> set filename"
  shows "if a = Stored then \<exists>x. content_ok nodes s filename x \<and> disk u' = (disk s)(sharedDirectory s @ filename \<mapsto> x)
     else fetch_inv s its u'"
proof (cases "a = Stored")
  case False
  then show ?thesis
    using download_from_state [OF d] s(1) core_eq_trans by (auto simp: attempt_ok_def fetch_inv_def)
next
  case True
  let ?E = "system_env env tr t nodes k ip"
  have c: "core_eq s u" "disk u = disk s" and its: "\<forall>it\<in>set its. hop_ok (si_addr it)" using s(1) by (auto simp: fetch_inv_def)
  have r: "routed u" by (rule routed_core [OF c(1) s(2)])
  have g: "localLatencyGraph u = localLatencyGraph s" using c(1) by (simp add: core_eq_def)
  have result: "\<exists>x. content_ok nodes s filename x \<and> disk u' = (disk s)(sharedDirectory s @ filename \<mapsto> x)"
    if f: "ForwardDownload ?E (PackForwardRequest fl filename) v = Inr (x, v1)" and x: "x \<noteq> []" "validate ?E x filename v1 = Inr (Stored, u')"
      and v: "core_eq s v" "disk v = disk s" and fl: "\<forall>h\<in>set fl. hop_ok (si_addr h)" "length fl \<le> gV (localLatencyGraph s)" for fl v x v1
  proof -
    have len: "16 * length fl + length filename < 60000" using fl(2) s(4) by linarith
    have "content_ok nodes v filename (drop 32 x)"
      using client_origin [OF f peer_ok_core [OF v s(3)] fl(1) len w] x(1) by blast
    then have "content_ok nodes s filename (drop 32 x)" using content_core [OF v] by simp
    moreover have "disk u' = (disk s)(sharedDirectory s @ filename \<mapsto> drop 32 x)"
      using validate_content [OF x(2)] ForwardDownload_state [OF f] v by (simp add: core_eq_def)
    ultimately show ?thesis by blast
  qed
  obtain fl x u1 where f: "FillForwardList ?E its i u = Inr fl" "ForwardDownload ?E (PackForwardRequest fl filename) u = Inr (x, u1)"
    using d by (auto simp: download_from_def result_simps)
  have fl: "\<forall>h\<in>set fl. hop_ok (si_addr h)" "length fl \<le> gV (localLatencyGraph s)"
    using FillForwardList_hops [OF f(1) r _ its] w(3) g by auto
  have "\<exists>x. content_ok nodes s filename x \<and> disk u' = (disk s)(sharedDirectory s @ filename \<mapsto> x)"
  proof (cases "x = []")
    case False
    then have "validate ?E x filename u1 = Inr (Stored, u')" using d f True by (simp add: download_from_def)
    from result [OF f(2) False this c fl] show ?thesis .
  next
    case x: True
    let ?h = "[\<lparr>si_addr = GetNodeAddr i its, si_id = i\<rparr>]"
    obtain y u2 where y: "ForwardDownload ?E (PackForwardRequest ?h filename) u1 = Inr (y, u2)" "y \<noteq> []" "validate ?E y filename u2 = Inr (Stored, u')"
      using d f x True unfolding direct_request [of _ filename i, symmetric] by (auto simp: download_from_def result_simps split: if_splits)
    have "\<exists>it\<in>set its. GetNodeAddr i its = si_addr it" using i by (induction its) auto
    then have h: "\<forall>h\<in>set ?h. hop_ok (si_addr h)" using its by auto
    have u1: "core_eq s u1" "disk u1 = disk s" using ForwardDownload_state [OF f(2)] c core_eq_trans by auto
    have "length ?h \<le> gV (localLatencyGraph s)" using s(5) by simp
    from result [OF y u1 h this] show ?thesis .
  qed
  with True show ?thesis by simp
qed

lemma set_RemoveNodeInfo: "set (RemoveNodeInfo i nodes) \<subseteq> set nodes"
  by (induction nodes) auto

lemma download_loop_content:
  assumes l: "download_loop (system_env env tr t nodes k ip) filename its s = Some (Inr (True, s'))"
    and env: "sorts_ok env" and s: "routed s" "peer_ok s" "\<forall>it\<in>set its. hop_ok (si_addr it)"
      "16 * gV (localLatencyGraph s) + length filename < 60000" "0 < gV (localLatencyGraph s)"
    and w: "peers_ok nodes" "md5_ok (env_md5 env)" "hop_ok ip" "CHR 0x00 \<notin> set filename"
  shows "\<exists>x. content_ok nodes s filename x \<and> disk s' = (disk s)(sharedDirectory s @ filename \<mapsto> x)"
proof -
  let ?E = "system_env env tr t nodes k ip"
  let ?Q = "\<lambda>u. \<exists>x. content_ok nodes s filename x \<and> disk u = (disk s)(sharedDirectory s @ filename \<mapsto> x)"
  have so: "sorts_ok ?E" using env by (simp add: sorts_ok_def)
  have "if True then ?Q s' else \<exists>nodes'. fetch_inv s nodes' s'"
  proof (rule download_loop_rule [where I = "fetch_inv s" and Q = ?Q, OF l])
    show "fetch_inv s its s" using s(3) by (simp add: fetch_inv_def)
    show "fetch_inv s ns u1" if "fetch_inv s ns u" "GetMinLoadNode ?E ns u = Inr (i, u1)" for ns u i u1
      using that GetMinLoadNode_state [OF that(2)] core_eq_trans by (auto simp: fetch_inv_def)
    show "fetch_inv s (RemoveNodeInfo i ns) u" if "fetch_inv s ns u" for ns u i
      using that set_RemoveNodeInfo [of i ns] by (auto simp: fetch_inv_def)
    show "if a = Stored then ?Q u2 else fetch_inv s ns u2"
      if "fetch_inv s ns u" "GetMinLoadNode ?E ns u0 = Inr (i, u)" "download_from ?E filename ns i u = Inr (a, u2)" for ns u0 u i a u2
      using min_load_least [OF so that(2)] by (intro download_from_content [OF that(3,1) s(1,2,4,5) _ w]) blast
  qed
  then show ?thesis by simp
qed

section \<open>Fetching a file\<close>

text \<open>
  The whole system at rest: the client, its peers and the tracking server as their own
  programs leave them, the names of the nodes that announced the file, and one of them,
  other than the client, that has it and knows the client.
\<close>

definition fetchable :: "xenv \<Rightarrow> string \<Rightarrow> xserver \<Rightarrow> (string \<Rightarrow> xclient option) \<Rightarrow> string \<Rightarrow> string \<Rightarrow> xclient \<Rightarrow> bool" where
  "fetchable env tr t nodes ip filename s \<longleftrightarrow>
     (let cs = filter (has_file filename) (clientInfoList t); n = gV (localLatencyGraph s) in
        tracker_ok t \<and> peers_ok nodes \<and> peer_ok s \<and> downloadPortPool s \<noteq> [] \<and> 0 \<le> nodeID s \<and> nodeID s < int n
      \<and> hop_ok ip \<and> hop_ok tr \<and> si_addr (trackingServerInfo s) = tr
      \<and> field_ok filename \<and> 16 * n + length filename < 60000 \<and> length (find_answer filename t) < XFS_BUFLEN
      \<and> (\<forall>c\<in>set cs. hop_ok (ci_host c) \<and> ci_host c \<noteq> tr \<and> 0 \<le> ci_id c \<and> ci_id c < int n)
      \<and> distinct (map ci_id cs)
      \<and> (\<exists>c\<in>set cs. ci_id c \<noteq> nodeID s \<and> holds nodes ip filename (ci_host c)))"

lemma fetch_stores:
  assumes f: "fetchable env tr t nodes ip filename s"
    and env: "md5_ok (env_md5 env)" "sorts_ok env" "\<forall>a. hop_ok a \<longrightarrow> env_aton env a"
    and g: "graph_ok (localLatencyGraph s)" "weights_ok (adj (localLatencyGraph s)) (gV (localLatencyGraph s)) W"
  shows "\<exists>s'. Download (system_env env tr t nodes k ip) filename s = Some (Inr (True, s'))"
proof -
  let ?E = "system_env env tr t nodes k ip" and ?cs = "filter (has_file filename) (clientInfoList t)"
  let ?its = "map (\<lambda>c. \<lparr>si_addr = ci_host c, si_id = ci_id c\<rparr>) ?cs"
  have w: "tracker_ok t" "peers_ok nodes" "peer_ok s" "hop_ok ip" "hop_ok tr" "si_addr (trackingServerInfo s) = tr"
    "field_ok filename" "length filename < 60000" "length (find_answer filename t) < XFS_BUFLEN" "distinct (map ci_id ?cs)"
    and cs: "\<forall>c\<in>set ?cs. hop_ok (ci_host c) \<and> ci_host c \<noteq> tr \<and> 0 \<le> ci_id c \<and> ci_id c < int (gV (localLatencyGraph s))"
    using f unfolding fetchable_def Let_def by auto
  obtain c where c: "c \<in> set ?cs" "ci_id c \<noteq> nodeID s" "holds nodes ip filename (ci_host c)"
    using f unfolding fetchable_def Let_def by blast
  have send: "can_send ?E a" if "hop_ok a" for a
    using that env(3) hop_ok_field [OF that] hop_not_mark [OF that] by (simp add: can_send_def hop_ok_def)
  have tr: "env_aton env (cstr tr)" using env(3) w(5) by (simp add: hop_ok_def)
  have ip: "isValidIP ip" "CHR 0x00 \<notin> set ip" "env_aton env ip" using w(4) env(3) by (simp_all add: hop_ok_def)
  have ready: "ready ?E s"
    using f send [OF w(4)] tr unfolding fetchable_def Let_def ready_def peer_ok_def by simp
  have ne: "?cs \<noteq> []" using c(1) by (metis list.distinct(1) list.set_cases)
  obtain s1 where s1: "xc_Find ?E filename s = Inr (find_answer filename t, s1)" "find_answer filename t \<notin> {[], ''EMPTY''}"
    using system_find [OF w(1) ip w(7,8,6) tr w(9) ne] by blast
  have cal: "calm ?E" and hon: "honest ?E" using system_calm system_honest w(2) env(1) by blast+
  have md5: "md5_ok (env_md5 ?E)" and so: "sorts_ok ?E" using env by (simp_all add: sorts_ok_def)
  have "\<forall>it\<in>set ?its. node_ok ?E (gV (localLatencyGraph s)) it" using cs send by (auto simp: node_ok_def)
  moreover have "distinct (map si_id ?its)" using w(10) by (simp add: comp_def)
  moreover have "serves ?E filename \<lparr>si_addr = ci_host c, si_id = ci_id c\<rparr>"
    using c cs w(7,8) by (intro holder_serves [OF w(2) env(1) _ _ ip]) (auto simp: field_ok_def)
  ultimately show ?thesis
    using Download_stores [OF cal hon md5 so ready g s1 find_answer_loads [OF w(1) ne], of "\<lparr>si_addr = ci_host c, si_id = ci_id c\<rparr>"] c
    by auto
qed

lemma fetch_content:
  assumes f: "fetchable env tr t nodes ip filename s"
    and env: "md5_ok (env_md5 env)" "sorts_ok env" "\<forall>a. hop_ok a \<longrightarrow> env_aton env a"
    and g: "graph_ok (localLatencyGraph s)" "weights_ok (adj (localLatencyGraph s)) (gV (localLatencyGraph s)) W"
    and d: "Download (system_env env tr t nodes k ip) filename s = Some (Inr (True, s'))"
  shows "\<exists>x. content_ok nodes s filename x \<and> disk s' = (disk s)(sharedDirectory s @ filename \<mapsto> x)"
proof -
  let ?E = "system_env env tr t nodes k ip" and ?cs = "filter (has_file filename) (clientInfoList t)"
  let ?its = "map (\<lambda>c. \<lparr>si_addr = ci_host c, si_id = ci_id c\<rparr>) ?cs"
  have w: "tracker_ok t" "peers_ok nodes" "peer_ok s" "hop_ok ip" "hop_ok tr" "si_addr (trackingServerInfo s) = tr"
    "field_ok filename" "16 * gV (localLatencyGraph s) + length filename < 60000" "length (find_answer filename t) < XFS_BUFLEN"
    "?cs \<noteq> []" "0 < gV (localLatencyGraph s)" "0 \<le> nodeID s" "nodeID s < int (gV (localLatencyGraph s))"
    and cs: "\<forall>c\<in>set ?cs. hop_ok (ci_host c)"
    using f unfolding fetchable_def Let_def by (auto simp: filter_empty_conv)
  have ip: "isValidIP ip" "CHR 0x00 \<notin> set ip" "env_aton env ip" "env_aton env (cstr tr)"
    using w(4,5) env(3) by (simp_all add: hop_ok_def)
  have len: "length filename < 60000" using w(8) by simp
  obtain s1 where s1: "xc_Find ?E filename s = Inr (find_answer filename t, s1)" "find_answer filename t \<notin> {[], ''EMPTY''}"
    using system_find [OF w(1) ip(1-3) w(7) len w(6) ip(4) w(9,10)] by blast
  obtain out where o: "s1 = s\<lparr>xc_out := out\<rparr>" using s1(1) xc_Communicate_state by (fastforce simp: xc_Find_def)
  obtain dist g' where p: "shortestPath (env_pick ?E) (nodeID s1) (localLatencyGraph s1) = Some (Inr (dist, g'))"
    "gV g' = gV (localLatencyGraph s1)" "routed (s1\<lparr>xc_dist := dist, localLatencyGraph := g'\<rparr>)"
    using shortestPath_routed [of s1 W "env_pick ?E"] g w(12,13) by (auto simp: o)
  let ?s2 = "s1\<lparr>xc_dist := dist, localLatencyGraph := g'\<rparr>"
  have l: "download_loop ?E filename ?its ?s2 = Some (Inr (True, s'))"
    using d s1 p(1) find_answer_loads [OF w(1,10)] by (auto simp: Download_def)
  have "peer_ok ?s2" "16 * gV (localLatencyGraph ?s2) + length filename < 60000" "0 < gV (localLatencyGraph ?s2)"
    "CHR 0x00 \<notin> set filename" "\<forall>it\<in>set ?its. hop_ok (si_addr it)"
    using w(3,7,8,11) p(2) cs by (auto simp: o peer_ok_def field_ok_def)
  from download_loop_content [OF l env(2) p(3) this(1,5,2,3) w(2) env(1) w(4) this(4)]
  show ?thesis by (simp add: o content_ok_def)
qed


text \<open>Four nodes; the client is node 0, node 2 announced the file and lost it, node 3 has it.\<close>

definition fetch_tracker :: xserver where
  "fetch_tracker = \<lparr>clientInfoList =
     [\<lparr>ci_id = 2, ci_host = ''10.0.0.3'', ci_port = 6004, ci_files = [\<lparr>fi_name = ''a'', fi_checksum = ''x''\<rparr>]\<rparr>,
      \<lparr>ci_id = 3, ci_host = ''10.0.0.4'', ci_port = 6004, ci_files = [\<lparr>fi_name = ''a'', fi_checksum = ''x''\<rparr>]\<rparr>],
     xs_out = []\<rparr>"

definition fetch_peer :: "int \<Rightarrow> (string \<Rightarrow> string option) \<Rightarrow> xclient" where
  "fetch_peer ID fs = (sample_peer ID fs)\<lparr>localLatencyGraph := Graph_new 4\<rparr>"

definition fetch_nodes :: "string \<Rightarrow> xclient option" where
  "fetch_nodes = [''10.0.0.3'' \<mapsto> fetch_peer 2 (\<lambda>_. None), ''10.0.0.4'' \<mapsto> fetch_peer 3 [''share/a'' \<mapsto> ''text'']]"

lemma fetch_sample: "fetchable sample_env ''10.0.0.9'' fetch_tracker fetch_nodes ''10.0.0.1'' ''a'' (fetch_peer 0 (\<lambda>_. None))"
proof -
  have ip: "isValidIP ''10.0.0.1''" "isValidIP ''10.0.0.3''" "isValidIP ''10.0.0.4''" "isValidIP ''10.0.0.9''"
    "isValidPort 5000" "isValidPort 5001" by code_simp+
  have l: "length (find_answer ''a'' fetch_tracker) < XFS_BUFLEN" by code_simp
  have p: "peer_ok (fetch_peer i fs)" if "i \<noteq> 1" "\<forall>f c. fs f = Some c \<longrightarrow> length c < 65000" for i fs
    using that ip by (simp add: peer_ok_def fetch_peer_def sample_peer_def is_int32_def)
  have n: "peers_ok fetch_nodes" using p by (auto simp: peers_ok_def fetch_nodes_def)
  have t: "tracker_ok fetch_tracker"
    by (simp add: tracker_ok_def fetch_tracker_def client_ok_def field_ok_def is_int32_def)
  have "filter (has_file ''a'') (clientInfoList fetch_tracker) = clientInfoList fetch_tracker"
    by (simp add: fetch_tracker_def has_file_def)
  then show ?thesis
    using n t l ip p [of 0 "\<lambda>_. None"]
    by (simp add: fetchable_def Let_def) (simp add: fetch_tracker_def fetch_peer_def sample_peer_def hop_ok_def field_ok_def
        holds_def fetch_nodes_def Graph_new_def vertex_def)
qed


end
