(* ===== verification/RpcStubs.thy ===== *)
theory RpcStubs
  imports PubSubClient
begin

text \<open>
  The remote procedure calls of PubSub between the client's code and the server's: the
  filters of communicate_xdr.c, the stubs of communicate_clnt.c, and the way of a call
  through the RPC library. The library is modelled by its documented wire format (RFC 4506,
  RFC 5531): an integer is four bytes, the most significant first; a string is its length,
  its bytes and up to three NULs that fill the last group of four. A stream that encodes
  takes at most \<open>x_handy\<close> bytes, one that decodes hands out \<open>x_buf\<close> from its
  start; a filter works on either, as in C: it writes its object or fills it in, and is
  \<open>None\<close> where the C function returns FALSE. \<open>udp_call losses\<close> is the transport: the
  library sends a call again as long as no answer has come, \<open>losses\<close> counts the answers
  that got lost, and the server executes every copy.
\<close>

section \<open>The wire format\<close>

definition put_u32 :: "nat \<Rightarrow> string" where
  "put_u32 n = map (\<lambda>k. char_of (n div 256 ^ k mod 256)) [3, 2, 1, 0]"

definition get_u32 :: "string \<Rightarrow> nat" where
  "get_u32 bs = foldl (\<lambda>n b. 256 * n + of_char b) 0 bs"

definition int32 :: "nat \<Rightarrow> int" where
  "int32 n = (if n < 2 ^ 31 then int n else int n - 2 ^ 32)"

definition padding :: "nat \<Rightarrow> nat" where
  "padding n = (4 - n mod 4) mod 4"

datatype xdr_op = XDR_ENCODE | XDR_DECODE

record xdrs =
  x_op :: xdr_op
  x_buf :: string
  x_handy :: nat

definition xdr_putbytes :: "string \<Rightarrow> xdrs \<Rightarrow> xdrs option" where
  "xdr_putbytes bs x =
     (if length bs \<le> x_handy x then Some (x\<lparr>x_buf := x_buf x @ bs, x_handy := x_handy x - length bs\<rparr>) else None)"

definition xdr_getbytes :: "nat \<Rightarrow> xdrs \<Rightarrow> (string \<times> xdrs) option" where
  "xdr_getbytes n x =
     (if n \<le> length (x_buf x) then Some (take n (x_buf x), x\<lparr>x_buf := drop n (x_buf x)\<rparr>) else None)"

definition xdr_u_int :: "xdrs \<Rightarrow> nat \<Rightarrow> (nat \<times> xdrs) option" where
  "xdr_u_int x n =
     (case x_op x of
        XDR_ENCODE \<Rightarrow> map_option (\<lambda>x'. (n, x')) (xdr_putbytes (put_u32 n) x)
      | XDR_DECODE \<Rightarrow> map_option (\<lambda>(bs, x'). (get_u32 bs, x')) (xdr_getbytes 4 x))"

definition xdr_int :: "xdrs \<Rightarrow> int \<Rightarrow> (int \<times> xdrs) option" where
  "xdr_int x i =
     (case x_op x of
        XDR_ENCODE \<Rightarrow> map_option (\<lambda>(_, x'). (i, x')) (xdr_u_int x (nat (i mod 2 ^ 32)))
      | XDR_DECODE \<Rightarrow> map_option (\<lambda>(n, x'). (int32 n, x')) (xdr_u_int x 0))"

definition xdr_bool :: "xdrs \<Rightarrow> bool \<Rightarrow> (bool \<times> xdrs) option" where
  "xdr_bool x b =
     (case x_op x of
        XDR_ENCODE \<Rightarrow> map_option (\<lambda>(_, x'). (b, x')) (xdr_u_int x (if b then 1 else 0))
      | XDR_DECODE \<Rightarrow> map_option (\<lambda>(n, x'). (n \<noteq> 0, x')) (xdr_u_int x 0))"

text \<open>
  \<open>xdr_string\<close> with the maximum \<open>~0\<close>. The encoder takes \<open>strlen\<close> of its argument; the
  caller reads what the decoder made as a C string.
\<close>

definition xdr_string :: "xdrs \<Rightarrow> string \<Rightarrow> (string \<times> xdrs) option" where
  "xdr_string x s =
     (case x_op x of
        XDR_ENCODE \<Rightarrow>
          let s = cstr s in
          Option.bind (xdr_u_int x (length s)) (\<lambda>(_, x1).
            map_option (\<lambda>x2. (s, x2)) (xdr_putbytes (s @ replicate (padding (length s)) (CHR 0x00)) x1))
      | XDR_DECODE \<Rightarrow>
          Option.bind (xdr_u_int x 0) (\<lambda>(n, x1).
            Option.bind (xdr_getbytes n x1) (\<lambda>(s, x2).
              map_option (\<lambda>(_, x3). (s, x3)) (xdr_getbytes (padding n) x2))))"

section \<open>The filters\<close>

text \<open>The object is the argument structure; fields it does not have stay as they are.\<close>

type_synonym xdrproc = "xdrs \<Rightarrow> ps_argument \<Rightarrow> (ps_argument \<times> xdrs) option"

definition xdr_IP :: xdrproc where
  "xdr_IP x a = map_option (\<lambda>(ip, x'). (a\<lparr>arg_IP := ip\<rparr>, x')) (xdr_string x (arg_IP a))"

definition xdr_Port :: xdrproc where
  "xdr_Port x a = map_option (\<lambda>(p, x'). (a\<lparr>arg_Port := p\<rparr>, x')) (xdr_int x (arg_Port a))"

definition xdr_Article :: xdrproc where
  "xdr_Article x a = map_option (\<lambda>(s, x'). (a\<lparr>arg_Article := s\<rparr>, x')) (xdr_string x (arg_Article a))"

definition xdr_void :: xdrproc where
  "xdr_void x a = Some (a, x)"

definition xdr_join_1_argument :: xdrproc where
  "xdr_join_1_argument x a =
     (case xdr_IP x a of None \<Rightarrow> None
      | Some (a, x) \<Rightarrow>
        (case xdr_Port x a of None \<Rightarrow> None
         | Some (a, x) \<Rightarrow> Some (a, x)))"

definition xdr_leave_1_argument :: xdrproc where
  "xdr_leave_1_argument x a =
     (case xdr_IP x a of None \<Rightarrow> None
      | Some (a, x) \<Rightarrow>
        (case xdr_Port x a of None \<Rightarrow> None
         | Some (a, x) \<Rightarrow> Some (a, x)))"

definition xdr_subscribe_1_argument :: xdrproc where
  "xdr_subscribe_1_argument x a =
     (case xdr_IP x a of None \<Rightarrow> None
      | Some (a, x) \<Rightarrow>
        (case xdr_Port x a of None \<Rightarrow> None
         | Some (a, x) \<Rightarrow>
           (case xdr_Article x a of None \<Rightarrow> None
            | Some (a, x) \<Rightarrow> Some (a, x))))"

definition xdr_unsubscribe_1_argument :: xdrproc where
  "xdr_unsubscribe_1_argument x a =
     (case xdr_IP x a of None \<Rightarrow> None
      | Some (a, x) \<Rightarrow>
        (case xdr_Port x a of None \<Rightarrow> None
         | Some (a, x) \<Rightarrow>
           (case xdr_Article x a of None \<Rightarrow> None
            | Some (a, x) \<Rightarrow> Some (a, x))))"

definition xdr_publish_1_argument :: xdrproc where
  "xdr_publish_1_argument x a =
     (case xdr_Article x a of None \<Rightarrow> None
      | Some (a, x) \<Rightarrow>
        (case xdr_IP x a of None \<Rightarrow> None
         | Some (a, x) \<Rightarrow>
           (case xdr_Port x a of None \<Rightarrow> None
            | Some (a, x) \<Rightarrow> Some (a, x))))"

section \<open>The stubs\<close>

text \<open>
  \<open>clnt_call\<close> is \<open>None\<close> unless the status is \<open>RPC_SUCCESS\<close>: the arguments did not fit into
  the \<open>room\<close> of a datagram, no answer came, the server refused the call, or the result
  could not be decoded. \<open>net\<close> carries procedure number and arguments to the server.
\<close>

datatype rpc_answer = SUCCESS string | PROC_UNAVAIL | GARBAGE_ARGS

type_synonym 's rpc_net = "nat \<Rightarrow> string \<Rightarrow> 's \<Rightarrow> (rpc_answer option \<times> 's) result"

definition encoder :: "nat \<Rightarrow> xdrs" where
  "encoder room = \<lparr>x_op = XDR_ENCODE, x_buf = [], x_handy = room\<rparr>"

definition decoder :: "string \<Rightarrow> xdrs" where
  "decoder bs = \<lparr>x_op = XDR_DECODE, x_buf = bs, x_handy = 0\<rparr>"

definition clnt_result :: "rpc_answer option \<Rightarrow> bool option" where
  "clnt_result ans =
     (case ans of Some (SUCCESS res) \<Rightarrow> map_option fst (xdr_bool (decoder res) False) | _ \<Rightarrow> None)"

definition clnt_call ::
  "nat \<Rightarrow> 's rpc_net \<Rightarrow> nat \<Rightarrow> xdrproc \<Rightarrow> ps_argument \<Rightarrow> 's \<Rightarrow> (bool option \<times> 's) result" where
  "clnt_call room net rq_proc xargs arg s =
     (case xargs (encoder room) arg of
        None \<Rightarrow> Inr (None, s)
      | Some (_, x) \<Rightarrow> bindE (net rq_proc (x_buf x) s) (\<lambda>(ans, s'). Inr (clnt_result ans, s')))"

definition join_1 :: "nat \<Rightarrow> 's rpc_net \<Rightarrow> string \<Rightarrow> int \<Rightarrow> 's \<Rightarrow> (bool option \<times> 's) result" where
  "join_1 room net IP Port =
     clnt_call room net 1 xdr_join_1_argument \<lparr>arg_IP = IP, arg_Port = Port, arg_Article = []\<rparr>"

definition leave_1 :: "nat \<Rightarrow> 's rpc_net \<Rightarrow> string \<Rightarrow> int \<Rightarrow> 's \<Rightarrow> (bool option \<times> 's) result" where
  "leave_1 room net IP Port =
     clnt_call room net 2 xdr_leave_1_argument \<lparr>arg_IP = IP, arg_Port = Port, arg_Article = []\<rparr>"

definition subscribe_1 :: "nat \<Rightarrow> 's rpc_net \<Rightarrow> string \<Rightarrow> int \<Rightarrow> string \<Rightarrow> 's \<Rightarrow> (bool option \<times> 's) result" where
  "subscribe_1 room net IP Port Article =
     clnt_call room net 3 xdr_subscribe_1_argument \<lparr>arg_IP = IP, arg_Port = Port, arg_Article = Article\<rparr>"

definition unsubscribe_1 :: "nat \<Rightarrow> 's rpc_net \<Rightarrow> string \<Rightarrow> int \<Rightarrow> string \<Rightarrow> 's \<Rightarrow> (bool option \<times> 's) result" where
  "unsubscribe_1 room net IP Port Article =
     clnt_call room net 4 xdr_unsubscribe_1_argument \<lparr>arg_IP = IP, arg_Port = Port, arg_Article = Article\<rparr>"

definition publish_1 :: "nat \<Rightarrow> 's rpc_net \<Rightarrow> string \<Rightarrow> string \<Rightarrow> int \<Rightarrow> 's \<Rightarrow> (bool option \<times> 's) result" where
  "publish_1 room net Article IP Port =
     clnt_call room net 5 xdr_publish_1_argument \<lparr>arg_IP = IP, arg_Port = Port, arg_Article = Article\<rparr>"

definition ping_1 :: "nat \<Rightarrow> 's rpc_net \<Rightarrow> 's \<Rightarrow> (bool option \<times> 's) result" where
  "ping_1 room net = clnt_call room net 6 xdr_void \<lparr>arg_IP = [], arg_Port = 0, arg_Article = []\<rparr>"

text \<open>
  The call \<open>communicate_prog_1\<close> of the client makes, and the lines it prints afterwards
  (of \<open>clnt_perror\<close> the text it is given); \<open>ip\<close> is the result of \<open>checkip\<close>.
\<close>

definition client_call ::
  "nat \<Rightarrow> 's rpc_net \<Rightarrow> string \<Rightarrow> string \<Rightarrow> RPC_TYPE \<Rightarrow> 's \<Rightarrow> (bool option \<times> 's) result" where
  "client_call room net ip article type =
     (case type of
        JOIN \<Rightarrow> join_1 room net ip UDP_PORT
      | LEAVE \<Rightarrow> leave_1 room net ip UDP_PORT
      | SUBS \<Rightarrow> subscribe_1 room net ip UDP_PORT article
      | UNSUBS \<Rightarrow> unsubscribe_1 room net ip UDP_PORT article
      | PUB \<Rightarrow> publish_1 room net article ip UDP_PORT
      | PING \<Rightarrow> ping_1 room net)"

definition RPCname :: "RPC_TYPE \<Rightarrow> string" where
  "RPCname type =
     (case type of JOIN \<Rightarrow> ''Join'' | LEAVE \<Rightarrow> ''Leave'' | SUBS \<Rightarrow> ''subscribe''
      | UNSUBS \<Rightarrow> ''unsubscribe'' | PUB \<Rightarrow> ''publish'' | PING \<Rightarrow> ''ping'')"

definition call_report :: "RPC_TYPE \<Rightarrow> bool option \<Rightarrow> string list" where
  "call_report type result =
     (if result = None then [''call failed''] else []) @ [''Client: Succeed calling RPC Procedure '' @ RPCname type]"

section \<open>The server's side\<close>

text \<open>
  The dispatcher clears the argument union before \<open>svc_getargs\<close> fills it in with the filter
  of the procedure, and answers through \<open>svc_sendreply\<close> and its kin.
\<close>

definition xdr_argument :: "nat \<Rightarrow> xdrproc" where
  "xdr_argument rq_proc =
     (if rq_proc = 1 then xdr_join_1_argument
      else if rq_proc = 2 then xdr_leave_1_argument
      else if rq_proc = 3 then xdr_subscribe_1_argument
      else if rq_proc = 4 then xdr_unsubscribe_1_argument
      else if rq_proc = 5 then xdr_publish_1_argument
      else xdr_void)"

definition svc_getargs :: "nat \<Rightarrow> string \<Rightarrow> ps_argument option" where
  "svc_getargs rq_proc body =
     map_option fst (xdr_argument rq_proc (decoder body) \<lparr>arg_IP = [], arg_Port = 0, arg_Article = []\<rparr>)"

definition svc_reply :: "ps_reply \<Rightarrow> rpc_answer" where
  "svc_reply r =
     (case r of
        Reply_void \<Rightarrow> SUCCESS []
      | Reply_bool b \<Rightarrow> SUCCESS (put_u32 (if b then 1 else 0))
      | Err_noproc \<Rightarrow> PROC_UNAVAIL
      | Err_decode \<Rightarrow> GARBAGE_ARGS)"

definition rpc_server :: "(string \<Rightarrow> bool) \<Rightarrow> ps_server rpc_net" where
  "rpc_server resolve rq_proc body s =
     bindE (communicate_prog_1 resolve rq_proc (svc_getargs rq_proc body) s)
       (\<lambda>(r, s'). Inr (Some (svc_reply r), s'))"

fun udp_call :: "nat \<Rightarrow> 's rpc_net \<Rightarrow> 's rpc_net" where
  "udp_call 0 server rq_proc body s = server rq_proc body s"
| "udp_call (Suc losses) server rq_proc body s =
     bindE (server rq_proc body s) (\<lambda>(_, s'). udp_call losses server rq_proc body s')"

section \<open>What is on the wire\<close>

definition str_wire :: "string \<Rightarrow> string" where
  "str_wire s = put_u32 (length s) @ s @ replicate (padding (length s)) (CHR 0x00)"

definition int_wire :: "int \<Rightarrow> string" where
  "int_wire i = put_u32 (nat (i mod 2 ^ 32))"

definition args_wire :: "nat \<Rightarrow> ps_argument \<Rightarrow> string" where
  "args_wire rq_proc a =
     (if rq_proc \<in> {1, 2} then str_wire (cstr (arg_IP a)) @ int_wire (arg_Port a)
      else if rq_proc \<in> {3, 4} then
        str_wire (cstr (arg_IP a)) @ int_wire (arg_Port a) @ str_wire (cstr (arg_Article a))
      else if rq_proc = 5 then
        str_wire (cstr (arg_Article a)) @ str_wire (cstr (arg_IP a)) @ int_wire (arg_Port a)
      else [])"

named_theorems xdr_simps \<open>what the filters write and read\<close>

lemma length_put_u32 [simp]: "length (put_u32 n) = 4"
  by (simp add: put_u32_def)

lemma get_put_u32:
  assumes "n < 2 ^ 32"
  shows "get_u32 (put_u32 n) = n"
proof -
  have step: "256 * (n div 256 ^ Suc k) + n div 256 ^ k mod 256 = n div 256 ^ k" for k
    unfolding power_Suc2 div_mult2_eq by (rule mult_div_mod_eq)
  have "n div 256 ^ 3 < 256" using assms by (simp add: div_less_iff_less_mult)
  then show ?thesis
    using step [of 2] step [of 1] step [of 0] by (simp add: get_u32_def put_u32_def)
qed

lemma int32_mod: "- (2 ^ 31) \<le> i \<Longrightarrow> i < 2 ^ 31 \<Longrightarrow> int32 (nat (i mod 2 ^ 32)) = i"
  using mod_pos_pos_trivial [of i "2 ^ 32"] mod_pos_pos_trivial [of "i + 2 ^ 32" "2 ^ 32"]
  by (cases "i < 0") (simp_all add: int32_def nat_less_iff)

lemma length_str_wire: "length s \<le> length (str_wire s)"
  by (simp add: str_wire_def)

lemma encode_u_int [xdr_simps]:
  "xdr_u_int \<lparr>x_op = XDR_ENCODE, x_buf = b, x_handy = h\<rparr> n =
     (if 4 \<le> h then Some (n, \<lparr>x_op = XDR_ENCODE, x_buf = b @ put_u32 n, x_handy = h - 4\<rparr>) else None)"
  by (simp add: xdr_u_int_def xdr_putbytes_def)

lemma encode_int [xdr_simps]:
  "xdr_int \<lparr>x_op = XDR_ENCODE, x_buf = b, x_handy = h\<rparr> i =
     (if length (int_wire i) \<le> h
      then Some (i, \<lparr>x_op = XDR_ENCODE, x_buf = b @ int_wire i, x_handy = h - length (int_wire i)\<rparr>) else None)"
  by (simp add: xdr_int_def xdr_simps int_wire_def)

lemma encode_string [xdr_simps]:
  "xdr_string \<lparr>x_op = XDR_ENCODE, x_buf = b, x_handy = h\<rparr> s =
     (if length (str_wire (cstr s)) \<le> h
      then Some (cstr s, \<lparr>x_op = XDR_ENCODE, x_buf = b @ str_wire (cstr s), x_handy = h - length (str_wire (cstr s))\<rparr>)
      else None)"
  by (auto simp: xdr_string_def xdr_simps Let_def xdr_putbytes_def str_wire_def)

lemma decode_u_int [xdr_simps]:
  "n < 2 ^ 32 \<Longrightarrow> xdr_u_int \<lparr>x_op = XDR_DECODE, x_buf = put_u32 n @ rest, x_handy = h\<rparr> m =
     Some (n, \<lparr>x_op = XDR_DECODE, x_buf = rest, x_handy = h\<rparr>)"
  by (simp add: xdr_u_int_def xdr_getbytes_def get_put_u32)

lemma decode_int [xdr_simps]:
  "- (2 ^ 31) \<le> i \<Longrightarrow> i < 2 ^ 31 \<Longrightarrow> xdr_int \<lparr>x_op = XDR_DECODE, x_buf = int_wire i @ rest, x_handy = h\<rparr> j =
     Some (i, \<lparr>x_op = XDR_DECODE, x_buf = rest, x_handy = h\<rparr>)"
  by (simp add: xdr_int_def int_wire_def decode_u_int int32_mod nat_less_iff del: power_numeral)

lemma decode_string [xdr_simps]:
  "length s < 2 ^ 32 \<Longrightarrow> xdr_string \<lparr>x_op = XDR_DECODE, x_buf = str_wire s @ rest, x_handy = h\<rparr> t =
     Some (s, \<lparr>x_op = XDR_DECODE, x_buf = rest, x_handy = h\<rparr>)"
  by (simp add: xdr_string_def str_wire_def decode_u_int xdr_getbytes_def del: power_numeral)

lemma bool_result: "clnt_result (Some (svc_reply (Reply_bool b))) = Some b"
  using decode_u_int [of "if b then 1 else 0" "[]"]
  by (simp add: clnt_result_def svc_reply_def xdr_bool_def decoder_def)

lemmas filter_defs = xdr_join_1_argument_def xdr_leave_1_argument_def xdr_subscribe_1_argument_def
  xdr_unsubscribe_1_argument_def xdr_publish_1_argument_def xdr_IP_def xdr_Port_def xdr_Article_def

lemma encode_IP [xdr_simps]:
  "xdr_IP \<lparr>x_op = XDR_ENCODE, x_buf = b, x_handy = h\<rparr> a =
     (if length (str_wire (cstr (arg_IP a))) \<le> h
      then Some (a\<lparr>arg_IP := cstr (arg_IP a)\<rparr>,
        \<lparr>x_op = XDR_ENCODE, x_buf = b @ str_wire (cstr (arg_IP a)), x_handy = h - length (str_wire (cstr (arg_IP a)))\<rparr>)
      else None)"
  by (simp add: xdr_IP_def encode_string)

lemma encode_Article [xdr_simps]:
  "xdr_Article \<lparr>x_op = XDR_ENCODE, x_buf = b, x_handy = h\<rparr> a =
     (if length (str_wire (cstr (arg_Article a))) \<le> h
      then Some (a\<lparr>arg_Article := cstr (arg_Article a)\<rparr>,
        \<lparr>x_op = XDR_ENCODE, x_buf = b @ str_wire (cstr (arg_Article a)), x_handy = h - length (str_wire (cstr (arg_Article a)))\<rparr>)
      else None)"
  by (simp add: xdr_Article_def encode_string)

lemma encode_Port [xdr_simps]:
  "xdr_Port \<lparr>x_op = XDR_ENCODE, x_buf = b, x_handy = h\<rparr> a =
     (if length (int_wire (arg_Port a)) \<le> h
      then Some (a, \<lparr>x_op = XDR_ENCODE, x_buf = b @ int_wire (arg_Port a), x_handy = h - length (int_wire (arg_Port a))\<rparr>)
      else None)"
  by (simp add: xdr_Port_def encode_int)

lemmas encode_field = encode_IP encode_Article encode_Port

text \<open>Every filter writes the wire format of its structure, or fails when it does not fit.\<close>

lemma encode_join:
  "xdr_join_1_argument (encoder room) a =
     (if length (args_wire 1 a) \<le> room
      then Some (a\<lparr>arg_IP := cstr (arg_IP a)\<rparr>,
        \<lparr>x_op = XDR_ENCODE, x_buf = args_wire 1 a, x_handy = room - length (args_wire 1 a)\<rparr>)
      else None)"
  by (simp add: xdr_join_1_argument_def encoder_def encode_field args_wire_def le_diff_conv2)

lemma encode_leave:
  "xdr_leave_1_argument (encoder room) a =
     (if length (args_wire 2 a) \<le> room
      then Some (a\<lparr>arg_IP := cstr (arg_IP a)\<rparr>,
        \<lparr>x_op = XDR_ENCODE, x_buf = args_wire 2 a, x_handy = room - length (args_wire 2 a)\<rparr>)
      else None)"
  by (simp add: xdr_leave_1_argument_def encoder_def encode_field args_wire_def le_diff_conv2)

lemma encode_subscribe:
  "xdr_subscribe_1_argument (encoder room) a =
     (if length (args_wire 3 a) \<le> room
      then Some (a\<lparr>arg_IP := cstr (arg_IP a), arg_Article := cstr (arg_Article a)\<rparr>,
        \<lparr>x_op = XDR_ENCODE, x_buf = args_wire 3 a, x_handy = room - length (args_wire 3 a)\<rparr>)
      else None)"
  by (simp add: xdr_subscribe_1_argument_def encoder_def encode_field args_wire_def le_diff_conv2) linarith

lemma encode_unsubscribe:
  "xdr_unsubscribe_1_argument (encoder room) a =
     (if length (args_wire 4 a) \<le> room
      then Some (a\<lparr>arg_IP := cstr (arg_IP a), arg_Article := cstr (arg_Article a)\<rparr>,
        \<lparr>x_op = XDR_ENCODE, x_buf = args_wire 4 a, x_handy = room - length (args_wire 4 a)\<rparr>)
      else None)"
  by (simp add: xdr_unsubscribe_1_argument_def encoder_def encode_field args_wire_def le_diff_conv2) linarith

lemma encode_publish:
  "xdr_publish_1_argument (encoder room) a =
     (if length (args_wire 5 a) \<le> room
      then Some (a\<lparr>arg_IP := cstr (arg_IP a), arg_Article := cstr (arg_Article a)\<rparr>,
        \<lparr>x_op = XDR_ENCODE, x_buf = args_wire 5 a, x_handy = room - length (args_wire 5 a)\<rparr>)
      else None)"
  by (simp add: xdr_publish_1_argument_def encoder_def encode_field args_wire_def le_diff_conv2) linarith

lemmas encode_filter = encode_join encode_leave encode_subscribe encode_unsubscribe encode_publish

text \<open>What it wrote is what the server reads.\<close>

definition wire_ok :: "ps_argument \<Rightarrow> bool" where
  "wire_ok a \<longleftrightarrow> - (2 ^ 31) \<le> arg_Port a \<and> arg_Port a < 2 ^ 31"

lemma decode_IP:
  "length s < 2 ^ 32 \<Longrightarrow> xdr_IP \<lparr>x_op = XDR_DECODE, x_buf = str_wire s @ rest, x_handy = h\<rparr> a =
     Some (a\<lparr>arg_IP := s\<rparr>, \<lparr>x_op = XDR_DECODE, x_buf = rest, x_handy = h\<rparr>)"
  by (simp add: xdr_IP_def decode_string del: power_numeral)

lemma decode_Article:
  "length s < 2 ^ 32 \<Longrightarrow> xdr_Article \<lparr>x_op = XDR_DECODE, x_buf = str_wire s @ rest, x_handy = h\<rparr> a =
     Some (a\<lparr>arg_Article := s\<rparr>, \<lparr>x_op = XDR_DECODE, x_buf = rest, x_handy = h\<rparr>)"
  by (simp add: xdr_Article_def decode_string del: power_numeral)

lemma decode_Port:
  "- (2 ^ 31) \<le> i \<Longrightarrow> i < 2 ^ 31 \<Longrightarrow> xdr_Port \<lparr>x_op = XDR_DECODE, x_buf = int_wire i @ rest, x_handy = h\<rparr> a =
     Some (a\<lparr>arg_Port := i\<rparr>, \<lparr>x_op = XDR_DECODE, x_buf = rest, x_handy = h\<rparr>)"
  by (simp add: xdr_Port_def decode_int del: power_numeral)

lemmas decode_field = decode_IP decode_Article decode_Port
  decode_Article [where rest = "[]", unfolded append_Nil2] decode_Port [where rest = "[]", unfolded append_Nil2]

lemma decode_join:
  assumes "wire_ok a" "length (args_wire 1 a) < 2 ^ 32"
  shows "\<exists>x. xdr_join_1_argument (decoder (args_wire 1 a)) \<lparr>arg_IP = [], arg_Port = 0, arg_Article = []\<rparr> =
     Some (\<lparr>arg_IP = cstr (arg_IP a), arg_Port = arg_Port a, arg_Article = []\<rparr>, x)"
  using assms length_str_wire [of "cstr (arg_IP a)"] length_str_wire [of "cstr (arg_Article a)"]
  by (simp add: wire_ok_def args_wire_def decoder_def xdr_join_1_argument_def decode_field [simplified])

lemma decode_leave:
  assumes "wire_ok a" "length (args_wire 2 a) < 2 ^ 32"
  shows "\<exists>x. xdr_leave_1_argument (decoder (args_wire 2 a)) \<lparr>arg_IP = [], arg_Port = 0, arg_Article = []\<rparr> =
     Some (\<lparr>arg_IP = cstr (arg_IP a), arg_Port = arg_Port a, arg_Article = []\<rparr>, x)"
  using assms length_str_wire [of "cstr (arg_IP a)"] length_str_wire [of "cstr (arg_Article a)"]
  by (simp add: wire_ok_def args_wire_def decoder_def xdr_leave_1_argument_def decode_field [simplified])

lemma decode_subscribe:
  assumes "wire_ok a" "length (args_wire 3 a) < 2 ^ 32"
  shows "\<exists>x. xdr_subscribe_1_argument (decoder (args_wire 3 a)) \<lparr>arg_IP = [], arg_Port = 0, arg_Article = []\<rparr> =
     Some (\<lparr>arg_IP = cstr (arg_IP a), arg_Port = arg_Port a, arg_Article = cstr (arg_Article a)\<rparr>, x)"
  using assms length_str_wire [of "cstr (arg_IP a)"] length_str_wire [of "cstr (arg_Article a)"]
  by (simp add: wire_ok_def args_wire_def decoder_def xdr_subscribe_1_argument_def decode_field [simplified])

lemma decode_unsubscribe:
  assumes "wire_ok a" "length (args_wire 4 a) < 2 ^ 32"
  shows "\<exists>x. xdr_unsubscribe_1_argument (decoder (args_wire 4 a)) \<lparr>arg_IP = [], arg_Port = 0, arg_Article = []\<rparr> =
     Some (\<lparr>arg_IP = cstr (arg_IP a), arg_Port = arg_Port a, arg_Article = cstr (arg_Article a)\<rparr>, x)"
  using assms length_str_wire [of "cstr (arg_IP a)"] length_str_wire [of "cstr (arg_Article a)"]
  by (simp add: wire_ok_def args_wire_def decoder_def xdr_unsubscribe_1_argument_def decode_field [simplified])

lemma decode_publish:
  assumes "wire_ok a" "length (args_wire 5 a) < 2 ^ 32"
  shows "\<exists>x. xdr_publish_1_argument (decoder (args_wire 5 a)) \<lparr>arg_IP = [], arg_Port = 0, arg_Article = []\<rparr> =
     Some (\<lparr>arg_IP = cstr (arg_IP a), arg_Port = arg_Port a, arg_Article = cstr (arg_Article a)\<rparr>, x)"
  using assms length_str_wire [of "cstr (arg_IP a)"] length_str_wire [of "cstr (arg_Article a)"]
  by (simp add: wire_ok_def args_wire_def decoder_def xdr_publish_1_argument_def decode_field [simplified])

lemmas decode_filter = decode_join decode_leave decode_subscribe decode_unsubscribe decode_publish

section \<open>From the stub to the procedure and back\<close>

lemma procs_cstr:
  "join_1_svc (cstr IP) Port s = join_1_svc IP Port s"
  "leave_1_svc (cstr IP) Port s = leave_1_svc IP Port s"
  "subscribe_1_svc (cstr IP) Port (cstr Article) s = subscribe_1_svc IP Port Article s"
  "unsubscribe_1_svc (cstr IP) Port (cstr Article) s = unsubscribe_1_svc IP Port Article s"
  "publish_1_svc resolve (cstr Article) (cstr IP) Port s = publish_1_svc resolve Article IP Port s"
  by (simp_all add: join_1_svc_def leave_1_svc_def subscribe_1_svc_def unsubscribe_1_svc_def publish_1_svc_def strcpy_buf_def Let_def)

text \<open>The bytes of a call's arguments.\<close>

definition call_wire :: "RPC_TYPE \<Rightarrow> string \<Rightarrow> string \<Rightarrow> string" where
  "call_wire type ip article = (let (rq_proc, a) = rpc_request type ip article in args_wire rq_proc a)"

lemma request_ok: "wire_ok (snd (rpc_request type ip article))"
  by (cases type) (simp_all add: rpc_request_def wire_ok_def)

lemma encoder_buf: "x_buf (encoder room) = []"
  by (simp add: encoder_def)

lemma client_call_wire:
  "client_call room net ip article type s =
     (if length (call_wire type ip article) \<le> room
      then bindE (net (fst (rpc_request type ip article)) (call_wire type ip article) s) (\<lambda>(ans, s'). Inr (clnt_result ans, s'))
      else Inr (None, s))"
  by (cases type)
    (simp_all add: client_call_def rpc_request_def call_wire_def clnt_call_def join_1_def leave_1_def subscribe_1_def
      unsubscribe_1_def publish_1_def ping_1_def encode_filter xdr_void_def encoder_buf args_wire_def [of 6])

lemma server_getargs:
  assumes "length (call_wire type ip article) < 2 ^ 32"
  shows "svc_getargs (fst (rpc_request type ip article)) (call_wire type ip article) =
     Some (let a = snd (rpc_request type ip article) in a\<lparr>arg_IP := cstr (arg_IP a), arg_Article := cstr (arg_Article a)\<rparr>)"
  using request_ok [of type ip article] decode_filter [of "snd (rpc_request type ip article)"] assms
  by (cases type) (auto simp: rpc_request_def call_wire_def svc_getargs_def xdr_argument_def xdr_void_def decoder_def
      simp del: power_numeral)

lemma serve_reply: "serve resolve type ip article s = Inr (r, s') \<Longrightarrow> \<exists>b. r = Reply_bool b"
  by (cases type) (auto simp: serve_def rpc_request_def communicate_prog_1_def result_simps split: prod.splits)

lemma server_serves:
  assumes "length (call_wire type ip article) < 2 ^ 32"
  shows "rpc_server resolve (fst (rpc_request type ip article)) (call_wire type ip article) s =
     bindE (serve resolve type ip article s) (\<lambda>(r, s'). Inr (Some (svc_reply r), s'))"
  unfolding rpc_server_def server_getargs [OF assms]
  by (cases type) (simp_all add: serve_def rpc_request_def communicate_prog_1_def procs_cstr)

lemma serve_result:
  "bindE (bindE (serve resolve type ip article s) (\<lambda>(r, s'). Inr (Some (svc_reply r), s'))) (\<lambda>(ans, s'). Inr (clnt_result ans, s'))
     = bindE (serve resolve type ip article s) (\<lambda>(r, s'). Inr (Some (r = Reply_bool True), s'))"
  using serve_reply [of resolve type ip article s]
  by (cases "serve resolve type ip article s") (auto simp: bool_result)

text \<open>
  The server after copies of a call whose execution a second time changes nothing.
\<close>

lemma udp_repeats:
  assumes "server p body s' = Inr (Some ans', s')"
  shows "udp_call losses server p body s' = Inr (Some ans', s')"
  using assms by (induction losses) simp_all

lemma second_call:
  assumes "ps_inv s" "type \<in> {JOIN, LEAVE, SUBS, UNSUBS}" "serve resolve type ip article s = Inr (r, s')"
  shows "serve resolve type ip article s' = Inr (Reply_bool (type \<noteq> UNSUBS \<or> r = Reply_bool True), s')"
proof -
  have d: "distinct (map psc_key (g_clientList s))" using assms(1) by (simp add: ps_inv_def)
  consider b where "type = JOIN" "join_1_svc ip UDP_PORT s = Inr (b, s')" "r = Reply_bool b"
    | b where "type = LEAVE" "leave_1_svc ip UDP_PORT s = (b, s')" "r = Reply_bool b"
    | b where "type = SUBS" "subscribe_1_svc ip UDP_PORT article s = (b, s')" "r = Reply_bool b"
    | b where "type = UNSUBS" "unsubscribe_1_svc ip UDP_PORT article s = (b, s')" "r = Reply_bool b"
    using assms(2,3) by (auto simp: serve_def rpc_request_def communicate_prog_1_def result_simps split: prod.splits)
  then show ?thesis
  proof cases
    case 1
    then show ?thesis using join_again [OF 1(2)] by (simp add: serve_def rpc_request_def communicate_prog_1_def)
  next
    case 2
    then show ?thesis using leave_again [OF d 2(2)] by (simp add: serve_def rpc_request_def communicate_prog_1_def)
  next
    case 3
    then show ?thesis using subscribe_again [OF 3(2)] by (simp add: serve_def rpc_request_def communicate_prog_1_def)
  next
    case 4
    then show ?thesis using unsubscribe_again [OF assms(1) 4(2)] by (simp add: serve_def rpc_request_def communicate_prog_1_def)
  qed
qed

section \<open>Properties\<close>

text \<open>
  C13: a remote call is a procedure call. When no answer is lost, what a stub returns and what
  it does to the server are what the server's procedure returns and does for the arguments
  the client passed, whatever they are, if their encoding fits into a datagram; otherwise the
  stub returns NULL and the server is not reached. The filters of the two sides agree on the
  order of the fields, on the NULs that end the strings and on the sign of the port.
\<close>

theorem rpc_transparent:
  assumes "room < 2 ^ 32"
  shows "client_call room (udp_call 0 (rpc_server resolve)) ip article type s =
     (if length (call_wire type ip article) \<le> room
      then bindE (serve resolve type ip article s) (\<lambda>(r, s'). Inr (Some (r = Reply_bool True), s'))
      else Inr (None, s))"
  using assms server_serves [of type ip article resolve s] serve_result [of resolve type ip article s]
  by (simp add: client_call_wire)

lemma rpc_transparent_witness:
  "client_call 8760 (udp_call 0 (rpc_server (\<lambda>_. True))) ''10.0.0.3'' [] LEAVE sample_ps = Inr (Some True, sample_ps)"
proof -
  have "length (call_wire LEAVE ''10.0.0.3'' []) = 16"
    by (simp add: call_wire_def rpc_request_def args_wire_def str_wire_def int_wire_def padding_def)
  moreover have "serve (\<lambda>_. True) LEAVE ''10.0.0.3'' [] sample_ps = Inr (Reply_bool True, sample_ps)"
    by (simp add: serve_def rpc_request_def communicate_prog_1_def leave_1_svc_def find_client_def sample_ps_def)
  ultimately show ?thesis
    using rpc_transparent [of 8760 "\<lambda>_. True" "''10.0.0.3''" "[]" LEAVE sample_ps] by simp
qed



text \<open>A call nobody answers is reported as a success, after the complaint of the library.\<close>

lemma unanswered_reported:
  assumes "\<And>p body. net p body s = Inr (None, s)"
  shows "client_call room net ip article type s = Inr (None, s)
     \<and> last (call_report type None) = ''Client: Succeed calling RPC Procedure '' @ RPCname type"
  using assms by (simp add: client_call_wire clnt_result_def call_report_def)

text \<open>A Publish, by contrast, is carried out once for every copy.\<close>

lemma publish_lost_answers:
  assumes "length (call_wire PUB ip article) \<le> room" "room < 2 ^ 32"
    and "\<And>s. g_clientList s = g_clientList s0 \<Longrightarrow>
      serve resolve PUB ip article s = Inr (Reply_bool False, s\<lparr>ps_out := ps_out s @ sent\<rparr>)"
    and "g_clientList s = g_clientList s0"
  shows "client_call room (udp_call losses (rpc_server resolve)) ip article PUB s =
     Inr (Some False, s\<lparr>ps_out := ps_out s @ concat (replicate (Suc losses) sent)\<rparr>)"
proof -
  have w: "length (call_wire PUB ip article) < 2 ^ 32" using assms(1,2) by linarith
  have "udp_call losses (rpc_server resolve) (fst (rpc_request PUB ip article)) (call_wire PUB ip article) s =
      Inr (Some (svc_reply (Reply_bool False)), s\<lparr>ps_out := ps_out s @ concat (replicate (Suc losses) sent)\<rparr>)"
    using assms(4)
    by (induction losses arbitrary: s) (simp_all add: server_serves [OF w] assms(3))
  then show ?thesis using assms(1) by (simp add: client_call_wire bool_result)
qed

end
